(* ===== verification/Prelude.thy ===== *)
theory Prelude
  imports Main "HOL-Library.Word"
begin

text \<open>
  Shared vocabulary of the development: the machine integer types of the Rust sources, the
  outcome type that makes panics and undefined behaviour values, slice access with Rust's
  bounds checks, little-endian byte codecs, the ordered map that stands for
  \<open>alloc::collections::BTreeMap\<close>, and generic lemmas on lists and words.
  The modelled build is the release build of \<open>kernel/Cargo.toml\<close>
  (\<open>overflow-checks = false\<close>), so \<open>+\<close>, \<open>-\<close> and \<open>*\<close> on machine integers wrap.
\<close>

unbundle bit_operations_syntax

section \<open>Machine integers\<close>

type_synonym u8 = "8 word"
type_synonym u16 = "16 word"
type_synonym u32 = "32 word"
type_synonym u64 = "64 word"
type_synonym usize = "64 word"
type_synonym i32 = "32 word"
type_synonym i64 = "64 word"
type_synonym bytes = "u8 list"

text \<open>Facts that carry the component proofs, collected by purpose.\<close>

named_theorems outcome_simps \<open>rewriting of sequenced outcomes\<close>
named_theorems frame_simps \<open>fields an operation leaves alone\<close>
named_theorems bounds_intro \<open>bounds on words and lengths\<close>

section \<open>Outcomes: a value, a panic, undefined behaviour, or no return\<close>

text \<open>
  \<open>Ret x\<close>: the code returns. \<open>Panic\<close>: a Rust panic, which the kernel's panic handler turns
  into a halt. \<open>Undef\<close>: undefined behaviour, an access through a raw pointer outside the
  object it points into. \<open>Hang\<close>: an endless loop, so the call does not return.
\<close>

datatype 'a outcome = Ret 'a | Panic | Undef | Hang

primrec obind :: "'a outcome \<Rightarrow> ('a \<Rightarrow> 'b outcome) \<Rightarrow> 'b outcome" where
  "obind (Ret x) f = f x"
| "obind Panic f = Panic"
| "obind Undef f = Undef"
| "obind Hang f = Hang"

lemma obind_assoc: "obind (obind m f) g = obind m (\<lambda>x. obind (f x) g)"
  by (cases m) simp_all

lemma obind_Ret_right [simp]: "obind m Ret = m"
  by (cases m) simp_all

lemma obind_eq_Ret [outcome_simps]: "obind m f = Ret y \<longleftrightarrow> (\<exists>x. m = Ret x \<and> f x = Ret y)"
  by (cases m) simp_all

lemma obind_eq_Panic [outcome_simps]:
  "obind m f = Panic \<longleftrightarrow> m = Panic \<or> (\<exists>x. m = Ret x \<and> f x = Panic)"
  by (cases m) simp_all

lemma obind_eq_Undef [outcome_simps]:
  "obind m f = Undef \<longleftrightarrow> m = Undef \<or> (\<exists>x. m = Ret x \<and> f x = Undef)"
  by (cases m) simp_all

lemma obind_eq_Hang [outcome_simps]:
  "obind m f = Hang \<longleftrightarrow> m = Hang \<or> (\<exists>x. m = Ret x \<and> f x = Hang)"
  by (cases m) simp_all

lemma obind_cong [fundef_cong]:
  "m = m' \<Longrightarrow> (\<And>x. m' = Ret x \<Longrightarrow> f x = f' x) \<Longrightarrow> obind m f = obind m' f'"
  by (cases m') simp_all

text \<open>\<open>for x in xs\<close> with a body that may stop the run.\<close>

primrec ofold :: "('a \<Rightarrow> 's \<Rightarrow> 's outcome) \<Rightarrow> 'a list \<Rightarrow> 's \<Rightarrow> 's outcome" where
  "ofold f [] s = Ret s"
| "ofold f (x # xs) s = obind (f x s) (ofold f xs)"

lemma ofold_append: "ofold f (xs @ ys) s = obind (ofold f xs s) (ofold f ys)"
  by (induction xs arbitrary: s) (simp_all add: obind_assoc cong: obind_cong)

lemma ofold_invariant:
  assumes "ofold f xs s = Ret t" and "I s"
    and "\<And>x s t. x \<in> set xs \<Longrightarrow> I s \<Longrightarrow> f x s = Ret t \<Longrightarrow> I t"
  shows "I t"
  using assms
proof (induction xs arbitrary: s)
  case (Cons x xs)
  then obtain u where u: "f x s = Ret u" "ofold f xs u = Ret t"
    by (auto simp: obind_eq_Ret)
  with Cons have "I u" by (meson list.set_intros(1))
  with Cons u show ?case by (meson list.set_intros(2))
qed simp

lemma ofold_Ret:
  assumes "I s" and "\<And>x s. x \<in> set xs \<Longrightarrow> I s \<Longrightarrow> \<exists>t. f x s = Ret t \<and> I t"
  shows "\<exists>t. ofold f xs s = Ret t \<and> I t"
  using assms
proof (induction xs arbitrary: s)
  case (Cons x xs)
  then obtain u where "f x s = Ret u" "I u" by (meson list.set_intros(1))
  with Cons show ?case by simp
qed simp

section \<open>Slices\<close>

text \<open>\<open>xs[i]\<close>, \<open>xs[a..b].to_vec()\<close> and \<open>xs[a..b].copy_from_slice(d)\<close>, with their checks.\<close>

definition index :: "'a list \<Rightarrow> nat \<Rightarrow> 'a outcome" where
  "index xs i = (if i < length xs then Ret (xs ! i) else Panic)"

definition subslice :: "'a list \<Rightarrow> nat \<Rightarrow> nat \<Rightarrow> 'a list outcome" where
  "subslice xs a b = (if a \<le> b \<and> b \<le> length xs then Ret (take (b - a) (drop a xs)) else Panic)"

definition overwrite :: "'a list \<Rightarrow> nat \<Rightarrow> 'a list \<Rightarrow> 'a list" where
  "overwrite xs a d = take a xs @ d @ drop (a + length d) xs"

definition copy_into :: "'a list \<Rightarrow> nat \<Rightarrow> nat \<Rightarrow> 'a list \<Rightarrow> 'a list outcome" where
  "copy_into xs a b d =
     (if a \<le> b \<and> b \<le> length xs \<and> length d = b - a then Ret (overwrite xs a d) else Panic)"

lemma subslice_Ret_iff [outcome_simps]:
  "subslice xs a b = Ret ys \<longleftrightarrow> a \<le> b \<and> b \<le> length xs \<and> ys = take (b - a) (drop a xs)"
  by (auto simp: subslice_def)

lemma length_subslice: "subslice xs a b = Ret ys \<Longrightarrow> length ys = b - a"
  by (auto simp: subslice_def split: if_splits)

lemma subslice_not_Undef [simp]: "subslice xs a b \<noteq> Undef"
  by (simp add: subslice_def)

lemma index_not_Undef [simp]: "index xs i \<noteq> Undef"
  by (simp add: index_def)

lemma copy_into_not_Undef [simp]: "copy_into xs a b d \<noteq> Undef"
  by (simp add: copy_into_def)

lemma length_overwrite [simp]: "a + length d \<le> length xs \<Longrightarrow> length (overwrite xs a d) = length xs"
  by (simp add: overwrite_def)

lemma nth_overwrite:
  assumes "a + length d \<le> length xs" and "i < length xs"
  shows "overwrite xs a d ! i = (if a \<le> i \<and> i < a + length d then d ! (i - a) else xs ! i)"
  using assms by (auto simp: overwrite_def nth_append)

lemma take_drop_overwrite [simp]:
  "a + length d \<le> length xs \<Longrightarrow> take (length d) (drop a (overwrite xs a d)) = d"
  by (simp add: overwrite_def)

lemma copy_into_Ret_iff [outcome_simps]:
  "copy_into xs a b d = Ret ys \<longleftrightarrow>
     a \<le> b \<and> b \<le> length xs \<and> length d = b - a \<and> ys = overwrite xs a d"
  by (auto simp: copy_into_def)

lemma list_update_field: "f t = f (xs ! r) \<Longrightarrow> f (xs[r := t] ! q) = f (xs ! q)"
  by (cases "q = r"; cases "r < length xs") (simp_all add: list_update_beyond)

lemma take_split_at: "take (n + m) xs = take n xs @ take m (drop (length (take n xs)) xs)"
  by (cases "n \<le> length xs") (simp_all add: take_add)

section \<open>Little-endian bytes\<close>

primrec from_le :: "bytes \<Rightarrow> 'a::len word" where
  "from_le [] = 0"
| "from_le (b # bs) = ucast b OR push_bit 8 (from_le bs)"

primrec to_le :: "nat \<Rightarrow> 'a::len word \<Rightarrow> bytes" where
  "to_le 0 w = []"
| "to_le (Suc n) w = ucast w # to_le n (drop_bit 8 w)"

lemma length_to_le [simp]: "length (to_le n w) = n"
  by (induction n arbitrary: w) simp_all

lemma bit_from_le_to_le:
  "bit (from_le (to_le n w) :: 'a::len word) k \<longleftrightarrow> bit (w :: 'a word) k \<and> k < 8 * n"
proof (induction n arbitrary: w k)
  case 0
  then show ?case by simp
next
  case (Suc n)
  show ?case
  proof (cases "k < 8")
    case True
    then show ?thesis
      by (auto simp: bit_or_iff bit_push_bit_iff bit_ucast_iff dest: bit_imp_le_length)
  next
    case False
    with Suc.IH [of "drop_bit 8 w" "k - 8"] show ?thesis
      by (auto simp: bit_or_iff bit_push_bit_iff bit_ucast_iff bit_drop_bit_eq
          dest: bit_imp_le_length)
  qed
qed

lemma from_le_to_le:
  assumes "LENGTH('a) \<le> 8 * n"
  shows "from_le (to_le n w) = (w :: 'a::len word)"
proof (rule bit_word_eqI)
  fix k assume "k < LENGTH('a)"
  with assms show "bit (from_le (to_le n w) :: 'a word) k = bit w k"
    by (simp add: bit_from_le_to_le)
qed

lemma to_le_from_le:
  assumes "8 * length bs \<le> LENGTH('a)"
  shows "to_le (length bs) (from_le bs :: 'a::len word) = bs"
  using assms
proof (induction bs)
  case Nil
  then show ?case by simp
next
  case (Cons b bs)
  have hi: "drop_bit 8 (ucast b OR push_bit 8 (from_le bs)) = (from_le bs :: 'a word)"
    (is "?l = ?r")
  proof (rule bit_word_eqI)
    fix k assume k: "k < LENGTH('a)"
    have small: "\<not> bit b (8 + k)" by (auto dest: bit_imp_le_length)
    have top: "\<not> bit ?r k" if "8 * length bs \<le> k" for k
      using that
    proof (induction bs arbitrary: k)
      case Nil
      then show ?case by simp
    next
      case (Cons c cs)
      then have "\<not> bit c k" by (auto dest: bit_imp_le_length)
      with Cons show ?case by (simp add: bit_or_iff bit_push_bit_iff bit_ucast_iff)
    qed
    have "8 + k < LENGTH('a)" if "bit ?r k"
    proof (rule ccontr)
      assume "\<not> 8 + k < LENGTH('a)"
      with Cons.prems have "8 * length bs \<le> k" by simp
      with top that show False by blast
    qed
    then show "bit ?l k = bit ?r k"
      using k small
      by (auto simp: bit_drop_bit_eq bit_or_iff bit_push_bit_iff bit_ucast_iff)
  qed
  have lo: "ucast ((ucast b OR push_bit 8 (from_le bs)) :: 'a word) = b"
    using Cons.prems
    by (intro bit_word_eqI) (auto simp: bit_ucast_iff bit_or_iff bit_push_bit_iff)
  from Cons hi lo show ?case by simp
qed

section \<open>Codecs\<close>

text \<open>
  An encoder and a decoder that undoes it. Byte-level readers and the run-length engine are
  interpretations.
\<close>

locale codec =
  fixes enc :: "'a \<Rightarrow> 'b" and dec :: "'b \<Rightarrow> 'a option"
  assumes dec_enc: "dec (enc x) = Some x"
begin

lemma enc_inject: "enc x = enc y \<longleftrightarrow> x = y"
proof
  assume "enc x = enc y"
  then have "dec (enc x) = dec (enc y)" by simp
  then show "x = y" by (simp add: dec_enc)
qed simp

lemma map_dec_enc: "map (the \<circ> dec) (map enc xs) = xs"
  by (induction xs) (simp_all add: dec_enc)

end

interpretation le16: codec "to_le 2 :: u16 \<Rightarrow> bytes" "\<lambda>bs. Some (from_le bs)"
  by unfold_locales (simp add: from_le_to_le)

interpretation le32: codec "to_le 4 :: u32 \<Rightarrow> bytes" "\<lambda>bs. Some (from_le bs)"
  by unfold_locales (simp add: from_le_to_le)

interpretation le64: codec "to_le 8 :: u64 \<Rightarrow> bytes" "\<lambda>bs. Some (from_le bs)"
  by unfold_locales (simp add: from_le_to_le)

section \<open>Flat memory\<close>

text \<open>
  The kernel runs with the low memory identity-mapped, so a pointer value is an address of
  one byte-addressed memory. Faults are not modelled: every address can be read and written.
\<close>

type_synonym memory = "u64 \<Rightarrow> u8"

definition mem_read :: "memory \<Rightarrow> u64 \<Rightarrow> nat \<Rightarrow> bytes" where
  "mem_read m a n = map (\<lambda>i. m (a + of_nat i)) [0..<n]"

definition mem_write :: "memory \<Rightarrow> u64 \<Rightarrow> bytes \<Rightarrow> memory" where
  "mem_write m a bs = (\<lambda>x. if unat (x - a) < length bs then bs ! unat (x - a) else m x)"

definition read_u64 :: "memory \<Rightarrow> u64 \<Rightarrow> u64" where
  "read_u64 m a = from_le (mem_read m a 8)"

definition write_u64 :: "memory \<Rightarrow> u64 \<Rightarrow> u64 \<Rightarrow> memory" where
  "write_u64 m a v = mem_write m a (to_le 8 v)"

lemma length_mem_read [simp]: "length (mem_read m a n) = n"
  by (simp add: mem_read_def)

lemma unat_of_nat64 [simp]: "n < 2 ^ 64 \<Longrightarrow> unat (of_nat n :: u64) = n"
  by (simp add: unat_of_nat take_bit_nat_eq_self)

lemma unat_of_nat8 [simp]: "n < 256 \<Longrightarrow> unat (of_nat n :: u8) = n"
  by (simp add: unat_of_nat take_bit_nat_eq_self)

lemma unat_u8_less: "unat (b :: u8) < 256"
  using unsigned_less [of b] by simp

lemma unat_u64_less: "unat (w :: u64) < 2 ^ 64"
  using unsigned_less [of w] by simp

lemma unat_of_nat32 [simp]: "n < 2 ^ 32 \<Longrightarrow> unat (of_nat n :: u32) = n"
  by (simp add: unat_of_nat take_bit_nat_eq_self)

lemma ucast_as_of_nat: "(ucast (w :: 'a::len word) :: 'b::len word) = of_nat (unat w)"
  by simp

lemma unat_u32_less: "unat (w :: u32) < 2 ^ 32"
  using unsigned_less [of w] by simp

lemma unat_ucast_u32_u64 [simp]: "unat (ucast (w :: u32) :: u64) = unat w"
  unfolding ucast_as_of_nat by (rule unat_of_nat64) (use unat_u32_less [of w] in simp)

lemma unat_u16_less: "unat (w :: u16) < 65536"
  using unsigned_less [of w] by simp

lemma unat_of_nat16 [simp]: "n < 65536 \<Longrightarrow> unat (of_nat n :: u16) = n"
  by (simp add: unat_of_nat take_bit_nat_eq_self)

lemma unat_add64: "unat (a :: u64) + unat b < 2 ^ 64 \<Longrightarrow> unat (a + b) = unat a + unat b"
  by (simp add: unat_word_ariths)

lemma unat_succ: "w \<noteq> - 1 \<Longrightarrow> unat (w + 1 :: 'a::len word) = unat w + 1"
  using unatSuc [of w] by (metis Suc_eq_plus1 add.commute add_eq_0_iff)

lemma less_succ: "w \<noteq> - 1 \<Longrightarrow> w < (w + 1 :: 'a::len word)"
  by (simp add: word_less_nat_alt unat_succ)

lemma mem_read_write_same:
  assumes "length bs \<le> 2 ^ 64"
  shows "mem_read (mem_write m a bs) a (length bs) = bs"
proof (rule nth_equalityI)
  fix i assume "i < length (mem_read (mem_write m a bs) a (length bs))"
  with assms show "mem_read (mem_write m a bs) a (length bs) ! i = bs ! i"
    by (simp add: mem_read_def mem_write_def)
qed simp

lemma mem_write_other: "length bs \<le> unat (x - a) \<Longrightarrow> mem_write m a bs x = m x"
  by (simp add: mem_write_def)

lemma read_write_u64_same [simp]: "read_u64 (write_u64 m a v) a = v"
  using mem_read_write_same [of "to_le 8 v" m a]
  by (simp add: read_u64_def write_u64_def from_le_to_le)

lemma mem_read_write_other:
  assumes "\<And>i. i < n \<Longrightarrow> length bs \<le> unat (a + of_nat i - b)"
  shows "mem_read (mem_write m b bs) a n = mem_read m a n"
  using assms by (auto simp: mem_read_def mem_write_other)

section \<open>Ordered maps (BTreeMap)\<close>

text \<open>An association list with strictly increasing keys; iteration is list order.\<close>

type_synonym ('k, 'v) btree = "('k \<times> 'v) list"

primrec bt_insert :: "'k::linorder \<Rightarrow> 'v \<Rightarrow> ('k, 'v) btree \<Rightarrow> ('k, 'v) btree" where
  "bt_insert k v [] = [(k, v)]"
| "bt_insert k v (p # ps) =
     (if k < fst p then (k, v) # p # ps
      else if k = fst p then (k, v) # ps
      else p # bt_insert k v ps)"

definition bt_wf :: "('k::linorder, 'v) btree \<Rightarrow> bool" where
  "bt_wf m \<longleftrightarrow> sorted_wrt (<) (map fst m)"

text \<open>\<open>m.range(..=a).rev()\<close>: the entries with key at most \<open>a\<close>, largest key first.\<close>

definition bt_range_rev :: "'k::linorder \<Rightarrow> ('k, 'v) btree \<Rightarrow> ('k \<times> 'v) list" where
  "bt_range_rev a m = rev (filter (\<lambda>p. fst p \<le> a) m)"

lemma keys_bt_insert: "fst ` set (bt_insert k v m) = insert k (fst ` set m)"
  by (induction m) auto

lemma bt_wf_insert [intro]: "bt_wf m \<Longrightarrow> bt_wf (bt_insert k v m)"
proof (induction m)
  case Nil
  then show ?case by (simp add: bt_wf_def)
next
  case (Cons p ps)
  then have IH: "bt_wf (bt_insert k v ps)" and above: "\<forall>q\<in>set ps. fst p < fst q"
    by (auto simp: bt_wf_def)
  from above have "\<forall>x \<in> insert k (fst ` set ps). fst p < x" if "fst p < k"
    using that by auto
  then have "\<forall>q\<in>set (bt_insert k v ps). fst p < fst q" if "fst p < k"
    using that by (metis (mono_tags, lifting) imageI keys_bt_insert)
  with IH Cons.prems show ?case by (auto simp: bt_wf_def)
qed

lemma map_of_bt_insert [simp]: "bt_wf m \<Longrightarrow> map_of (bt_insert k v m) = (map_of m)(k \<mapsto> v)"
proof (induction m)
  case Nil
  then show ?case by simp
next
  case (Cons p ps)
  then have "bt_wf ps" and "\<forall>q\<in>set ps. fst p < fst q" by (auto simp: bt_wf_def)
  with Cons show ?case by (cases p) (auto simp: fun_eq_iff)
qed

lemma bt_wf_Nil [simp]: "bt_wf []"
  by (simp add: bt_wf_def)

lemma bt_wf_distinct: "bt_wf m \<Longrightarrow> distinct (map fst m)"
  unfolding bt_wf_def by (simp add: strict_sorted_iff)

lemma set_bt_insert: "bt_wf m \<Longrightarrow> set (bt_insert k v m) = insert (k, v) {p \<in> set m. fst p \<noteq> k}"
proof (induction m)
  case Nil
  then show ?case by simp
next
  case (Cons p ps)
  then have wf: "bt_wf ps" and above: "\<forall>q\<in>set ps. fst p < fst q" by (auto simp: bt_wf_def)
  consider "k < fst p" | "k = fst p" | "fst p < k" by fastforce
  then show ?case
  proof cases
    case 1
    with above show ?thesis by auto
  next
    case 2
    with above show ?thesis by auto
  next
    case 3
    with Cons.IH [OF wf] show ?thesis by auto
  qed
qed

end
