(* ===== verification/Compress.thy ===== *)
theory Compress
  imports Prelude
begin

text \<open>
  The run-length engine of \<open>kernel/src/compress.rs\<close>: \<open>compress\<close>, \<open>decompress\<close> and their C-ABI
  exports, with the round trip, the shape and the size of the compressed form, and the exact
  failure condition of the decoder.
\<close>

section \<open>Compressor\<close>

text \<open>The inner loop: from \<open>run_len\<close>, count bytes equal to \<open>src[i]\<close>, at most 255.\<close>

function run_len_from :: "bytes \<Rightarrow> nat \<Rightarrow> nat \<Rightarrow> nat" where
  "run_len_from src i n =
     (if i + n < length src \<and> src ! (i + n) = src ! i \<and> n < 255
      then run_len_from src i (Suc n) else n)"
  by pat_completeness auto
termination
  by (relation "measure (\<lambda>(src, i, n). 255 - n)") auto

declare run_len_from.simps [simp del]

lemma run_len_from_ge: "n \<le> run_len_from src i n"
proof (induction src i n rule: run_len_from.induct)
  case (1 src i n)
  then show ?case by (subst run_len_from.simps) (auto intro: Suc_leD)
qed

text \<open>The outer loop over \<open>i\<close>, pushing a count byte and a value byte per run.\<close>

function compress_from :: "bytes \<Rightarrow> nat \<Rightarrow> bytes \<Rightarrow> bytes" where
  "compress_from src i dest =
     (if i < length src
      then let run_len = run_len_from src i 1
           in compress_from src (i + run_len) (dest @ [of_nat run_len, src ! i])
      else dest)"
  by pat_completeness auto
termination
proof (relation "measure (\<lambda>(src, i, dest). length src - i)")
  fix src :: bytes and i :: nat and dest :: bytes and x :: nat
  assume "i < length src" and "x = run_len_from src i 1"
  then show "((src, i + x, dest @ [of_nat x, src ! i]), src, i, dest)
      \<in> measure (\<lambda>(src, i, dest). length src - i)"
    using run_len_from_ge [of 1 src i] by auto
qed simp

declare compress_from.simps [simp del]

definition compress :: "bytes \<Rightarrow> bytes" where
  "compress src = (if src = [] then [] else compress_from src 0 [])"

section \<open>Decompressor\<close>

text \<open>The error is the source's message; the two reads of a pair are bounds checked.\<close>

datatype rle_error = MalformedRle

function decompress_from :: "bytes \<Rightarrow> nat \<Rightarrow> bytes \<Rightarrow> bytes outcome" where
  "decompress_from src i dest =
     (if i < length src
      then obind (index src i) (\<lambda>count. obind (index src (i + 1)) (\<lambda>byte.
             decompress_from src (i + 2) (dest @ replicate (unat count) byte)))
      else Ret dest)"
  by pat_completeness auto
termination
  by (relation "measure (\<lambda>(src, i, dest). length src - i)") auto

declare decompress_from.simps [simp del]

definition decompress :: "bytes \<Rightarrow> (rle_error + bytes) outcome" where
  "decompress src =
     (if length src mod 2 \<noteq> 0 then Ret (Inl MalformedRle)
      else obind (decompress_from src 0 []) (\<lambda>dest. Ret (Inr dest)))"

section \<open>C-ABI exports\<close>

definition rust_compress_data :: "memory \<Rightarrow> u64 \<Rightarrow> usize \<Rightarrow> u64 \<Rightarrow> usize \<Rightarrow> usize \<times> memory" where
  "rust_compress_data m src_ptr src_len dst_ptr dst_max_len =
     (let compressed = compress (mem_read m src_ptr (unat src_len))
      in if length compressed > unat dst_max_len then (0, m)
         else (of_nat (length compressed), mem_write m dst_ptr compressed))"

definition rust_decompress_data ::
    "memory \<Rightarrow> u64 \<Rightarrow> usize \<Rightarrow> u64 \<Rightarrow> usize \<Rightarrow> (usize \<times> memory) outcome" where
  "rust_decompress_data m src_ptr src_len dst_ptr dst_max_len =
     obind (decompress (mem_read m src_ptr (unat src_len))) (\<lambda>r.
       case r of
         Inr decompressed \<Rightarrow>
           if length decompressed > unat dst_max_len then Ret (0, m)
           else Ret (of_nat (length decompressed), mem_write m dst_ptr decompressed)
       | Inl _ \<Rightarrow> Ret (0, m))"

section \<open>Reference: greedy runs\<close>

text \<open>
  The specification: cut the input into maximal runs of at most 255 equal bytes;
  \<open>pairs\<close> writes runs as count and value bytes, \<open>expand\<close> reads them back.
\<close>

function rle :: "bytes \<Rightarrow> (nat \<times> u8) list" where
  "rle [] = []"
| "rle (x # xs) =
     (let n = min 255 (Suc (length (takeWhile (\<lambda>y. y = x) xs)))
      in (n, x) # rle (drop n (x # xs)))"
  by pat_completeness auto
termination
  by (relation "measure length") auto

declare rle.simps(2) [simp del]

definition pairs :: "(nat \<times> u8) list \<Rightarrow> bytes" where
  "pairs rs = concat (map (\<lambda>(n, b). [of_nat n, b]) rs)"

fun expand :: "bytes \<Rightarrow> bytes" where
  "expand (c # b # r) = replicate (unat c) b @ expand r"
| "expand _ = []"

lemma pairs_simps [simp]: "pairs [] = []" "pairs ((n, b) # rs) = of_nat n # b # pairs rs"
  by (simp_all add: pairs_def)

lemma length_pairs [simp]: "length (pairs rs) = 2 * length rs"
  by (induction rs) auto

lemma run_len_from_takeWhile:
  assumes "n \<le> 255"
  shows "run_len_from src i n =
    n + min (255 - n) (length (takeWhile (\<lambda>y. y = src ! i) (drop (i + n) src)))"
  using assms
proof (induction src i n rule: run_len_from.induct)
  case (1 src i n)
  show ?case
  proof (cases "i + n < length src \<and> src ! (i + n) = src ! i \<and> n < 255")
    case True
    then have "drop (i + n) src = src ! (i + n) # drop (i + Suc n) src"
      by (metis Cons_nth_drop_Suc add_Suc_right)
    with True 1 show ?thesis by (auto simp: run_len_from.simps [of src i n] min_def)
  next
    case False
    with 1(2) show ?thesis
      by (cases "i + n < length src")
        (auto simp: run_len_from.simps [of src i n] Cons_nth_drop_Suc [symmetric])
  qed
qed

lemma compress_from_rle: "compress_from src i dest = dest @ pairs (rle (drop i src))"
proof (induction src i dest rule: compress_from.induct)
  case (1 src i dest)
  show ?case
  proof (cases "i < length src")
    case False
    then show ?thesis by (simp add: compress_from.simps [of src i])
  next
    case True
    let ?n = "run_len_from src i 1"
    have "drop i src = src ! i # drop (Suc i) src"
      using True by (simp add: Cons_nth_drop_Suc)
    moreover have "?n = min 255 (Suc (length (takeWhile (\<lambda>y. y = src ! i) (drop (Suc i) src))))"
      by (simp add: run_len_from_takeWhile)
    ultimately have "rle (drop i src) = (?n, src ! i) # rle (drop ?n (drop i src))"
      by (simp add: rle.simps Let_def)
    with True 1 show ?thesis
      by (simp add: compress_from.simps [of src i] Let_def add.commute)
  qed
qed

lemma compress_rle: "compress src = pairs (rle src)"
  by (simp add: compress_def compress_from_rle)

lemma run_is_replicate:
  assumes "n \<le> Suc (length (takeWhile (\<lambda>y. y = x) xs))"
  shows "take n (x # xs) = replicate n x"
  using assms
proof (induction xs arbitrary: n)
  case Nil
  then show ?case by (cases n) auto
next
  case (Cons y ys)
  show ?case
  proof (cases n)
    case (Suc m)
    show ?thesis
    proof (cases m)
      case (Suc k)
      with Cons.prems \<open>n = Suc m\<close> have "y = x" "m \<le> Suc (length (takeWhile (\<lambda>y. y = x) ys))"
        by (auto split: if_splits)
      with Cons.IH [of m] \<open>n = Suc m\<close> show ?thesis by simp
    qed (simp add: \<open>n = Suc m\<close>)
  qed simp
qed

lemma expand_rle: "expand (pairs (rle src)) = src"
proof (induction src rule: rle.induct)
  case 1
  then show ?case by simp
next
  case (2 x xs)
  define n where "n = min 255 (Suc (length (takeWhile (\<lambda>y. y = x) xs)))"
  have "n < 256" by (simp add: n_def)
  moreover have "take n (x # xs) = replicate n x" by (rule run_is_replicate) (simp add: n_def)
  moreover have "expand (pairs (rle (drop n (x # xs)))) = drop n (x # xs)"
    using 2 by (simp add: n_def)
  moreover have "rle (x # xs) = (n, x) # rle (drop n (x # xs))"
    by (simp add: rle.simps(2) Let_def n_def)
  ultimately show ?case
    by (simp del: drop_Suc_Cons drop.simps) (metis append_take_drop_id)
qed

lemma decompress_from_expand:
  assumes "even (length src - i)" and "i \<le> length src"
  shows "decompress_from src i dest = Ret (dest @ expand (drop i src))"
  using assms
proof (induction src i dest rule: decompress_from.induct)
  case (1 src i dest)
  show ?case
  proof (cases "i < length src")
    case False
    then show ?thesis by (simp add: decompress_from.simps [of src i])
  next
    case True
    with "1.prems" have i1: "i + 1 < length src" by presburger
    then have "drop i src = src ! i # src ! (i + 1) # drop (i + 2) src"
      by (simp add: Cons_nth_drop_Suc)
    moreover have "even (length src - (i + 2))" "i + 2 \<le> length src"
      using "1.prems" i1 by presburger+
    ultimately show ?thesis
      using True i1 "1.IH" [of "src ! i" "src ! (i + 1)"]
      by (simp add: decompress_from.simps [of src i] index_def)
  qed
qed

lemma decompress_expand:
  "decompress src = Ret (if even (length src) then Inr (expand src) else Inl MalformedRle)"
  by (simp add: decompress_def decompress_from_expand odd_iff_mod_2_eq_one)

lemma decompress_compress: "decompress (compress src) = Ret (Inr src)"
  by (simp add: decompress_expand compress_rle expand_rle)

interpretation rle: codec compress
    "\<lambda>bs. case decompress bs of Ret (Inr d) \<Rightarrow> Some d | _ \<Rightarrow> None"
  by unfold_locales (simp add: decompress_compress)

section \<open>Optimality of the greedy cut\<close>

lemma takeWhile_drop:
  "k \<le> length (takeWhile P xs) \<Longrightarrow> length (takeWhile P (drop k xs)) = length (takeWhile P xs) - k"
proof (induction xs arbitrary: k)
  case (Cons x xs)
  then show ?case by (cases k) (auto split: if_splits)
qed simp

lemma drop_in_run:
  "k < length (takeWhile (\<lambda>y. y = x) xs) \<Longrightarrow> \<exists>zs. drop k xs = x # zs"
proof (induction xs arbitrary: k)
  case (Cons z zs)
  then show ?case by (cases k) (auto split: if_splits)
qed simp

lemma rle_unfold:
  "xs = x # ys \<Longrightarrow> n = min 255 (length (takeWhile (\<lambda>y. y = x) xs)) \<Longrightarrow>
   rle xs = (n, x) # rle (drop n xs)"
  by (simp add: rle.simps Let_def)

text \<open>A suffix never needs more runs than the whole.\<close>

lemma rle_suffix_le: "length (rle (drop k xs)) \<le> length (rle xs)"
proof (induction xs arbitrary: k rule: length_induct)
  case (1 xs)
  show ?case
  proof (cases xs)
    case (Cons x ys)
    define t where "t = length (takeWhile (\<lambda>y. y = x) xs)"
    define n where "n = min 255 t"
    have t: "0 < t" using Cons by (simp add: t_def)
    have unf: "rle xs = (n, x) # rle (drop n xs)" 
      using Cons by (rule rle_unfold) (simp add: n_def t_def)
    have "length (drop n xs) < length xs" using t Cons by (simp add: n_def)
    then have IH: "length (rle (drop j (drop n xs))) \<le> length (rle (drop n xs))" for j
      using 1 by blast
    show ?thesis
    proof (cases "n \<le> k")
      case True
      then have "drop (k - n) (drop n xs) = drop k xs" by simp
      with IH [of "k - n"] show ?thesis by (simp only: unf list.size)
    next
      case False
      define n' where "n' = min 255 (length (takeWhile (\<lambda>y. y = x) (drop k xs)))"
      have "k < t" using False by (simp add: n_def)
      then have "\<exists>zs. drop k xs = x # zs" unfolding t_def by (rule drop_in_run)
      then obtain zs where "drop k xs = x # zs" ..
      then have "rle (drop k xs) = (n', x) # rle (drop n' (drop k xs))"

        by (rule rle_unfold) (simp add: n'_def)
      moreover have "n' = min 255 (t - k)"
        using \<open>k < t\<close> by (simp add: n'_def t_def takeWhile_drop)
      then have "n' + k - n + n = n' + k"
        using \<open>k < t\<close> by (simp add: n_def)
      then have "drop (n' + k - n) (drop n xs) = drop n' (drop k xs)" by simp
      ultimately show ?thesis
        using IH [of "n' + k - n"] by (simp only: unf list.size)
    qed
  qed simp
qed

lemma rle_optimal:
  "even (length enc) \<Longrightarrow> length (rle (expand enc)) \<le> length enc div 2"
proof (induction enc rule: expand.induct)
  case (1 c b r)
  then have IH: "length (rle (expand r)) \<le> length r div 2" by simp
  let ?src = "expand (c # b # r)"
  show ?case
  proof (cases "unat c")
    case 0
    with IH show ?thesis by simp
  next
    case (Suc m)
    define n where "n = min 255 (length (takeWhile (\<lambda>y. y = b) ?src))"
    have "unat c \<le> 255" using unat_u8_less [of c] by simp
    then have n: "unat c \<le> n" by (auto simp: n_def takeWhile_append)
    have "rle ?src = (n, b) # rle (drop n ?src)"
      by (rule rle_unfold [of _ b "replicate m b @ expand r"]) (simp_all add: Suc n_def)
    moreover have "drop n ?src = drop (n - unat c) (expand r)" using n by simp
    moreover have "length (rle (drop (n - unat c) (expand r))) \<le> length r div 2"
      using rle_suffix_le IH by (rule order_trans)
    ultimately show ?thesis by simp
  qed
qed auto

lemma rle_counts: "(n, b) \<in> set (rle src) \<Longrightarrow> 1 \<le> n \<and> n \<le> 255"
proof (induction src rule: rle.induct)
  case (2 x xs)
  then show ?case by (auto simp: rle.simps(2) Let_def)
qed simp

lemma length_rle_le: "length (rle src) \<le> length src"
proof (induction src rule: rle.induct)
  case (2 x xs)
  let ?n = "min 255 (Suc (length (takeWhile (\<lambda>y. y = x) xs)))"
  have "length (rle (x # xs)) \<le> Suc (length (drop ?n (x # xs)))"
    using 2 by (simp add: rle.simps(2) Let_def)
  also have "\<dots> \<le> length (x # xs)" by simp
  finally show ?case .
qed simp

section \<open>Properties\<close>

text \<open>
  C30. Round trip of the run-length engine: decompressing the output of \<open>compress\<close> returns the
  input, for every input, without an error and without a panic.
\<close>

theorem compress_roundtrip: "decompress (compress src) = Ret (Inr src)"
  by (rule decompress_compress)

text \<open>
  The compressor is optimal: its output has even length, at most twice the input's
  length, and no byte string that decompresses to the same data is shorter.
\<close>

theorem compress_optimal:
  "even (length (compress src)) \<and> length (compress src) \<le> 2 * length src \<and>
   (decompress enc = Ret (Inr src) \<longrightarrow> length (compress src) \<le> length enc)"
proof (intro conjI impI)
  assume "decompress enc = Ret (Inr src)"
  then have enc: "even (length enc)" "expand enc = src"
    by (auto simp: decompress_expand split: if_splits)
  with rle_optimal [OF enc(1)] show "length (compress src) \<le> length enc"
    by (simp add: compress_rle)
qed (simp_all add: compress_rle length_rle_le)

theorem compress_optimal_witness:
  "decompress [1, 7, 1, 7, 1, 7] = Ret (Inr [7, 7, 7]) \<and>
   length (compress [7, 7, 7]) \<le> length [1, 7, 1, 7, 1, 7 :: u8]"
proof -
  have dec: "decompress [1, 7, 1, 7, 1, 7] = Ret (Inr [7, 7, 7])"
    by (simp add: decompress_expand)
  with compress_optimal [of "[7, 7, 7]" "[1, 7, 1, 7, 1, 7]"] show ?thesis by blast
qed

text \<open>
  The decoder never panics, and it fails exactly on inputs of odd length; on the rest it
  returns the concatenation of the runs.
\<close>

theorem decompress_total:
  "decompress src = Ret (if odd (length src) then Inl MalformedRle else Inr (expand src))"
  by (simp add: decompress_expand)

end
