(* ===== verification/Rust_Str.thy ===== *)
theory Rust_Str
  imports Prelude "HOL-Library.Sublist"
begin

text \<open>
  The part of \<open>core::str\<close> the kernel uses. A \<open>&str\<close> or \<open>String\<close> is its UTF-8 byte list; the
  byte-level definitions agree with the character-level ones because UTF-8 is
  self-synchronising. Literals of the source are written \<open>lit ''...''\<close>.
\<close>

type_synonym rstr = bytes

definition lit :: "string \<Rightarrow> rstr" where
  "lit s = map of_char s"

section \<open>UTF-8 validation\<close>

definition utf8_cont :: "u8 \<Rightarrow> bool" where
  "utf8_cont b \<longleftrightarrow> 0x80 \<le> b \<and> b \<le> 0xBF"

text \<open>
  \<open>utf8_width b\<close> is the length of the sequence a lead byte announces; \<open>utf8_second b c\<close> is
  the check on the byte after the lead byte (it excludes overlong forms, surrogates and code
  points above U+10FFFF).
\<close>

definition utf8_second :: "u8 \<Rightarrow> u8 \<Rightarrow> bool" where
  "utf8_second b c \<longleftrightarrow>
     (if b = 0xE0 then 0xA0 \<le> c \<and> c \<le> 0xBF
      else if b = 0xED then 0x80 \<le> c \<and> c \<le> 0x9F
      else if b = 0xF0 then 0x90 \<le> c \<and> c \<le> 0xBF
      else if b = 0xF4 then 0x80 \<le> c \<and> c \<le> 0x8F
      else utf8_cont c)"

fun utf8_valid :: "bytes \<Rightarrow> bool" where
  "utf8_valid [] = True"
| "utf8_valid (b # bs) =
     (if b < 0x80 then utf8_valid bs
      else if 0xC2 \<le> b \<and> b \<le> 0xDF then
        (case bs of c # r \<Rightarrow> utf8_cont c \<and> utf8_valid r | _ \<Rightarrow> False)
      else if 0xE0 \<le> b \<and> b \<le> 0xEF then
        (case bs of c # d # r \<Rightarrow> utf8_second b c \<and> utf8_cont d \<and> utf8_valid r | _ \<Rightarrow> False)
      else if 0xF0 \<le> b \<and> b \<le> 0xF4 then
        (case bs of c # d # e # r \<Rightarrow>
            utf8_second b c \<and> utf8_cont d \<and> utf8_cont e \<and> utf8_valid r
         | _ \<Rightarrow> False)
      else False)"

text \<open>\<open>core::str::from_utf8(bs).ok()\<close>, and \<open>core::str::from_utf8(bs).unwrap_or(d)\<close>.\<close>

definition from_utf8 :: "bytes \<Rightarrow> rstr option" where
  "from_utf8 bs = (if utf8_valid bs then Some bs else None)"

definition utf8_or :: "bytes \<Rightarrow> rstr \<Rightarrow> rstr" where
  "utf8_or bs d = (case from_utf8 bs of Some s \<Rightarrow> s | None \<Rightarrow> d)"

lemma utf8_valid_ascii: "(\<forall>b\<in>set bs. b < 0x80) \<Longrightarrow> utf8_valid bs"
  by (induction bs) simp_all

lemma utf8_valid_ascii_append:
  "(\<forall>b\<in>set bs. b < 0x80) \<Longrightarrow> utf8_valid (bs @ cs) = utf8_valid cs"
  by (induction bs) simp_all

lemma from_utf8_ascii: "(\<forall>b\<in>set bs. b < 0x80) \<Longrightarrow> from_utf8 bs = Some bs"
  by (simp add: from_utf8_def utf8_valid_ascii)

section \<open>Searching and splitting\<close>

definition starts_with :: "rstr \<Rightarrow> rstr \<Rightarrow> bool" where
  "starts_with s p \<longleftrightarrow> take (length p) s = p"

definition ends_with :: "rstr \<Rightarrow> rstr \<Rightarrow> bool" where
  "ends_with s p \<longleftrightarrow> length p \<le> length s \<and> drop (length s - length p) s = p"

fun contains_str :: "rstr \<Rightarrow> rstr \<Rightarrow> bool" where
  "contains_str [] p = (p = [])"
| "contains_str (x # xs) p = (starts_with (x # xs) p \<or> contains_str xs p)"

text \<open>\<open>s.find(c)\<close> for an ASCII character.\<close>

fun find_byte :: "u8 \<Rightarrow> rstr \<Rightarrow> nat option" where
  "find_byte c [] = None"
| "find_byte c (x # xs) = (if x = c then Some 0 else map_option Suc (find_byte c xs))"

text \<open>\<open>s.split(c)\<close>: always at least one piece.\<close>

fun split_on :: "u8 \<Rightarrow> rstr \<Rightarrow> rstr list" where
  "split_on c [] = [[]]"
| "split_on c (x # xs) =
     (if x = c then [] # split_on c xs
      else case split_on c xs of p # ps \<Rightarrow> (x # p) # ps | [] \<Rightarrow> [[x]])"

text \<open>\<open>s.trim_end_matches(c)\<close>.\<close>

definition trim_end_byte :: "u8 \<Rightarrow> rstr \<Rightarrow> rstr" where
  "trim_end_byte c s = rev (dropWhile (\<lambda>x. x = c) (rev s))"

text \<open>
  \<open>s.lines()\<close>: pieces ended by a newline lose it, and one carriage return before it; a last
  piece without a newline is kept as it is; an empty last piece is no line.
\<close>

definition strip_cr :: "rstr \<Rightarrow> rstr" where
  "strip_cr s = (if s \<noteq> [] \<and> last s = 13 then butlast s else s)"

fun str_lines_from :: "rstr \<Rightarrow> rstr \<Rightarrow> rstr list" where
  "str_lines_from acc [] = (if acc = [] then [] else [acc])"
| "str_lines_from acc (x # xs) =
     (if x = 10 then strip_cr acc # str_lines_from [] xs else str_lines_from (acc @ [x]) xs)"

definition str_lines :: "rstr \<Rightarrow> rstr list" where
  "str_lines s = str_lines_from [] s"

text \<open>
  \<open>s.trim()\<close> removes characters with the Unicode property \<open>White_Space\<close> at both ends;
  \<open>ws_encodings\<close> lists their UTF-8 encodings.
\<close>

definition ws_encodings :: "bytes list" where
  "ws_encodings =
     map (\<lambda>b. [b]) [9, 10, 11, 12, 13, 32] @
     [[0xC2, 0x85], [0xC2, 0xA0], [0xE1, 0x9A, 0x80]] @
     map (\<lambda>b. [0xE2, 0x80, b])
       [0x80, 0x81, 0x82, 0x83, 0x84, 0x85, 0x86, 0x87, 0x88, 0x89, 0x8A, 0xA8, 0xA9, 0xAF] @
     [[0xE2, 0x81, 0x9F], [0xE3, 0x80, 0x80]]"

definition ws_prefix_len :: "bytes list \<Rightarrow> rstr \<Rightarrow> nat" where
  "ws_prefix_len es s = (case filter (starts_with s) es of [] \<Rightarrow> 0 | e # _ \<Rightarrow> length e)"

function strip_ws :: "bytes list \<Rightarrow> rstr \<Rightarrow> rstr" where
  "strip_ws es s =
     (let n = ws_prefix_len es s in if n = 0 \<or> s = [] then s else strip_ws es (drop n s))"
  by pat_completeness auto
termination
  by (relation "measure (\<lambda>(es, s). length s)") (auto simp: Let_def)

declare strip_ws.simps [simp del]

definition str_trim :: "rstr \<Rightarrow> rstr" where
  "str_trim s = rev (strip_ws (map rev ws_encodings) (rev (strip_ws ws_encodings s)))"

section \<open>Lemmas\<close>

lemma starts_with_iff: "starts_with s p \<longleftrightarrow> (\<exists>r. s = p @ r)"
  unfolding starts_with_def by (metis append_eq_conv_conj append_take_drop_id)

lemma starts_with_append [simp]: "starts_with (p @ r) p"
  by (simp add: starts_with_def)

lemma contains_str_iff: "contains_str s p \<longleftrightarrow> (\<exists>a b. s = a @ p @ b)"
proof (induction s)
  case Nil
  then show ?case by auto
next
  case (Cons x xs)
  note IH = Cons
  show ?case
  proof
    assume "contains_str (x # xs) p"
    then consider r where "x # xs = p @ r" | a b where "xs = a @ p @ b"
      using Cons by (auto simp: starts_with_iff)
    then show "\<exists>a b. x # xs = a @ p @ b"
    proof cases
      case 1
      then show ?thesis by (metis append_Nil)
    next
      case 2
      then show ?thesis by (metis append_Cons)
    qed
  next
    assume "\<exists>a b. x # xs = a @ p @ b"
    then obtain a b where ab: "x # xs = a @ p @ b" by blast
    show "contains_str (x # xs) p"
    proof (cases a)
      case Nil
      with ab have "starts_with (x # xs) p" by (auto simp: starts_with_iff)
      then show ?thesis by simp
    next
      case (Cons y ys)
      with ab have "\<exists>a b. xs = a @ p @ b" by auto
      with IH show ?thesis by simp
    qed
  qed
qed

lemma split_on_not_Nil [simp]: "split_on c s \<noteq> []"
  by (induction s) (auto split: list.splits)

lemma split_on_no_sep: "p \<in> set (split_on c s) \<Longrightarrow> c \<notin> set p"
proof (induction s arbitrary: p)
  case Nil
  then show ?case by simp
next
  case (Cons x xs)
  then show ?case by (cases "split_on c xs") (auto split: if_splits)
qed

lemma split_on_single: "c \<notin> set s \<Longrightarrow> split_on c s = [s]"
  by (induction s) auto

lemma split_on_append: "c \<notin> set s \<Longrightarrow> split_on c (s @ c # t) = s # split_on c t"
  by (induction s) auto

lemma find_byte_Some:
  "find_byte c s = Some i \<Longrightarrow> i < length s \<and> s ! i = c \<and> c \<notin> set (take i s)"
  by (induction s arbitrary: i) (auto split: if_splits)

lemma find_byte_None: "find_byte c s = None \<longleftrightarrow> c \<notin> set s"
  by (induction s) auto

lemma str_lines_from_append:
  "10 \<notin> set l \<Longrightarrow> str_lines_from acc (l @ 10 # r) = strip_cr (acc @ l) # str_lines_from [] r"
  by (induction l arbitrary: acc) auto

lemma str_lines_line:
  assumes "10 \<notin> set l" and "l = [] \<or> last l \<noteq> 13"
  shows "str_lines (l @ 10 # r) = l # str_lines r"
  using assms by (auto simp: str_lines_def str_lines_from_append strip_cr_def)

end
