(* ===== verification/Sched.thy ===== *)
theory Sched
  imports Rust_Str "HOL-Library.Multiset"
begin

text \<open>
  The thread scheduler of \<open>kernel/src/sched.rs\<close>. A thread is shared through
  \<open>Arc<Mutex<Thread>>\<close> by the queue and by \<open>active_thread\<close>, so threads live in a store and the
  queue holds references into it. The interface that the timer relies on is the locale
  \<open>round_robin\<close>: it yields order, permutation and fairness once, for the model's own
  \<open>schedule_next\<close>.
\<close>

section \<open>State\<close>

datatype thread_state = Ready | Running | Blocked | Zombie

record registers_context =
  ctx_rip :: u64
  ctx_rsp :: u64
  ctx_rbp :: u64
  ctx_rflags :: u64
  ctx_rax :: u64
  ctx_rdi :: u64
  ctx_rsi :: u64
  ctx_cs :: u64
  ctx_ss :: u64

definition registers_default :: registers_context where
  "registers_default = \<lparr>ctx_rip = 0, ctx_rsp = 0, ctx_rbp = 0, ctx_rflags = 0, ctx_rax = 0,
     ctx_rdi = 0, ctx_rsi = 0, ctx_cs = 0, ctx_ss = 0\<rparr>"

record thread =
  th_id :: u32
  th_session_id :: u64
  th_name :: rstr
  th_state :: thread_state
  th_context :: registers_context

type_synonym thref = nat

record scheduler =
  th_store :: "thread list"
  threads :: "thref list"
  next_thread_id :: u32
  active_thread :: "thref option"

definition scheduler_new :: scheduler where
  "scheduler_new = \<lparr>th_store = [], threads = [], next_thread_id = 1, active_thread = None\<rparr>"

section \<open>Operations\<close>

abbreviation thread_at :: "scheduler \<Rightarrow> thref \<Rightarrow> thread" where
  "thread_at s r \<equiv> th_store s ! r"

definition modify_thread :: "thref \<Rightarrow> (thread \<Rightarrow> thread) \<Rightarrow> scheduler \<Rightarrow> scheduler" where
  "modify_thread r f s = s\<lparr>th_store := (th_store s)[r := f (thread_at s r)]\<rparr>"

definition set_state :: "thread_state \<Rightarrow> thref \<Rightarrow> scheduler \<Rightarrow> scheduler" where
  "set_state st r s = modify_thread r (\<lambda>t. t\<lparr>th_state := st\<rparr>) s"

definition user_context :: "u64 \<Rightarrow> registers_context" where
  "user_context entry_point = registers_default\<lparr>ctx_rip := entry_point,
     ctx_rsp := 0x7FFFFFFF0000, ctx_cs := 0x1B, ctx_ss := 0x23, ctx_rflags := 0x202\<rparr>"

definition spawn :: "scheduler \<Rightarrow> u64 \<Rightarrow> rstr \<Rightarrow> u64 \<Rightarrow> u32 \<times> scheduler" where
  "spawn s session_id name entry_point =
     (let t_id = next_thread_id s;
          thread = \<lparr>th_id = t_id, th_session_id = session_id, th_name = name,
                     th_state = Ready, th_context = user_context entry_point\<rparr>
      in (t_id, s\<lparr>next_thread_id := next_thread_id s + 1,
                  th_store := th_store s @ [thread],
                  threads := threads s @ [length (th_store s)]\<rparr>))"

text \<open>The loop of \<open>schedule_next\<close>; the first argument counts the iterations left.\<close>

fun schedule_loop :: "nat \<Rightarrow> scheduler \<Rightarrow> thref option \<times> scheduler" where
  "schedule_loop 0 s = (None, s)"
| "schedule_loop (Suc n) s =
     (case threads s of
        [] \<Rightarrow> (None, s)
      | r # rest \<Rightarrow>
          if th_state (thread_at s r) = Ready
          then let s1 = set_state Ready r (set_state Running r (s\<lparr>threads := rest\<rparr>))
               in (Some r, s1\<lparr>threads := threads s1 @ [r], active_thread := Some r\<rparr>)
          else schedule_loop n (s\<lparr>threads := rest @ [r]\<rparr>))"

definition schedule_next :: "scheduler \<Rightarrow> thref option \<times> scheduler" where
  "schedule_next s =
     (if threads s = [] then (None, s) else schedule_loop (length (threads s)) s)"

text \<open>
  The loop "for each queued thread with this id, set its state", which \<open>terminate_thread\<close> and
  the two IPC exports of \<open>kernel/src/lib.rs\<close> contain.
\<close>

definition mark_threads :: "u32 \<Rightarrow> thread_state \<Rightarrow> scheduler \<Rightarrow> scheduler" where
  "mark_threads tid st s =
     fold (\<lambda>r s. if th_id (thread_at s r) = tid then set_state st r s else s) (threads s) s"

definition terminate_thread :: "scheduler \<Rightarrow> u32 \<Rightarrow> scheduler" where
  "terminate_thread s thread_id =
     (let s1 = mark_threads thread_id Zombie s
      in s1\<lparr>threads := filter (\<lambda>r. th_state (thread_at s1 r) \<noteq> Zombie) (threads s1)\<rparr>)"

section \<open>Well-formedness\<close>

text \<open>
  References are valid and queued once, and the thread stored at position \<open>r\<close> has id
  \<open>r + 1\<close>: ids are distinct until \<open>2 ^ 32 - 1\<close> threads were spawned.
\<close>

definition sched_wf :: "scheduler \<Rightarrow> bool" where
  "sched_wf s \<longleftrightarrow>
     distinct (threads s) \<and> (\<forall>r\<in>set (threads s). r < length (th_store s)) \<and>
     (\<forall>r. active_thread s = Some r \<longrightarrow> r < length (th_store s)) \<and>
     (\<forall>r<length (th_store s). th_id (thread_at s r) = of_nat (Suc r)) \<and>
     next_thread_id s = of_nat (Suc (length (th_store s)))"

lemma modify_thread_simps [simp]:
  "threads (modify_thread r f s) = threads s"
  "active_thread (modify_thread r f s) = active_thread s"
  "next_thread_id (modify_thread r f s) = next_thread_id s"
  "length (th_store (modify_thread r f s)) = length (th_store s)"
  by (simp_all add: modify_thread_def)

lemma set_state_simps [simp]:
  "threads (set_state st r s) = threads s"
  "active_thread (set_state st r s) = active_thread s"
  "next_thread_id (set_state st r s) = next_thread_id s"
  "length (th_store (set_state st r s)) = length (th_store s)"
  by (simp_all add: set_state_def)

lemma thread_at_set_state:
  "q < length (th_store s) \<Longrightarrow> thread_at (set_state st r s) q =
     (if q = r then (thread_at s r)\<lparr>th_state := st\<rparr> else thread_at s q)"
  by (auto simp: set_state_def modify_thread_def)

lemma sched_wf_modify:
  "sched_wf s \<Longrightarrow> (\<And>t. th_id (f t) = th_id t) \<Longrightarrow> sched_wf (modify_thread r f s)"
  by (cases "r < length (th_store s)")
    (auto simp: sched_wf_def modify_thread_def nth_list_update list_update_beyond)

lemma sched_wf_set_state [simp]: "sched_wf s \<Longrightarrow> sched_wf (set_state st r s)"
  unfolding set_state_def by (rule sched_wf_modify) simp_all

lemma sched_wf_new: "sched_wf scheduler_new"
  by (simp add: sched_wf_def scheduler_new_def)

lemma sched_wf_spawn: "sched_wf s \<Longrightarrow> spawn s sid name entry = (t, s') \<Longrightarrow> sched_wf s'"
  by (auto simp: sched_wf_def spawn_def Let_def nth_append less_Suc_eq)

text \<open>A state that is already there is written back unchanged.\<close>

lemma set_state_same:
  "th_state (thread_at s r) = st \<Longrightarrow> set_state st r (set_state st' r s) = s"
proof (cases "r < length (th_store s)")
  case True
  assume "th_state (thread_at s r) = st"
  then have "(thread_at s r)\<lparr>th_state := st\<rparr> = thread_at s r" by auto
  with True show ?thesis by (simp add: set_state_def modify_thread_def)
qed (simp_all add: set_state_def modify_thread_def list_update_beyond)

section \<open>Round robin\<close>

text \<open>The abstract rule: run the first ready entry and send it and what it passed to the back.\<close>

definition rr_next :: "('t \<Rightarrow> bool) \<Rightarrow> 't list \<Rightarrow> 't option \<times> 't list" where
  "rr_next ready q =
     (case dropWhile (\<lambda>x. \<not> ready x) q of
        [] \<Rightarrow> (None, q)
      | t # post \<Rightarrow> (Some t, post @ takeWhile (\<lambda>x. \<not> ready x) q @ [t]))"

lemma rr_next_split:
  assumes "rr_next ready q = (Some t, q')"
  obtains pre post where "q = pre @ t # post" "\<forall>x\<in>set pre. \<not> ready x" "ready t"
    "q' = post @ pre @ [t]"
proof -
  from assms obtain post where d: "dropWhile (\<lambda>x. \<not> ready x) q = t # post"
      and q': "q' = post @ takeWhile (\<lambda>x. \<not> ready x) q @ [t]"
    by (auto simp: rr_next_def split: list.splits)
  have "q = takeWhile (\<lambda>x. \<not> ready x) q @ t # post"
    by (metis d takeWhile_dropWhile_id)
  moreover have "ready t" using d by (metis dropWhile_eq_Cons_conv)
  ultimately show thesis using q' by (intro that) (auto dest: set_takeWhileD)
qed

lemma rr_next_None:
  "rr_next ready q = (None, q') \<longleftrightarrow> q' = q \<and> (\<forall>x\<in>set q. \<not> ready x)"
proof (cases "dropWhile (\<lambda>x. \<not> ready x) q")
  case Nil
  then have "\<forall>x\<in>set q. \<not> ready x" by (simp only: dropWhile_eq_Nil_conv)
  with Nil show ?thesis unfolding rr_next_def by (simp only:) auto
next
  case (Cons t post)
  then have "\<exists>x\<in>set q. ready x" by (metis dropWhile_eq_Nil_conv list.distinct(1))
  with Cons show ?thesis by (auto simp: rr_next_def)
qed

lemma mset_rr_next: "rr_next ready q = (r, q') \<Longrightarrow> mset q' = mset q"
  by (cases r) (auto simp: rr_next_None elim!: rr_next_split)

locale round_robin =
  fixes pick :: "'s \<Rightarrow> 't option \<times> 's"
    and queue :: "'s \<Rightarrow> 't list"
    and ready :: "'s \<Rightarrow> 't \<Rightarrow> bool"
    and wf :: "'s \<Rightarrow> bool"
  assumes pick_rr: "wf s \<Longrightarrow> pick s = (r, s') \<Longrightarrow> rr_next (ready s) (queue s) = (r, queue s')"
    and pick_ready: "wf s \<Longrightarrow> pick s = (r, s') \<Longrightarrow> ready s' = ready s"
    and pick_wf: "wf s \<Longrightarrow> pick s = (r, s') \<Longrightarrow> wf s'"
begin

lemma pick_is_ready: "wf s \<Longrightarrow> pick s = (Some t, s') \<Longrightarrow> t \<in> set (queue s) \<and> ready s t"
  using pick_rr by (fastforce elim: rr_next_split)

lemma pick_mset: "wf s \<Longrightarrow> pick s = (r, s') \<Longrightarrow> mset (queue s') = mset (queue s)"
  using pick_rr mset_rr_next by blast

lemma pick_None_iff: "wf s \<Longrightarrow> fst (pick s) = None \<longleftrightarrow> (\<forall>t\<in>set (queue s). \<not> ready s t)"
proof -
  assume wf: "wf s"
  obtain r s' where p: "pick s = (r, s')" by fastforce
  show ?thesis
    using pick_rr [OF wf p] p by (cases r) (auto simp: rr_next_None elim!: rr_next_split)
qed

text \<open>Fairness: a ready entry with \<open>k\<close> entries before it runs within \<open>k + 1\<close> picks.\<close>

lemma fair:
  assumes "wf s" and "queue s = pre @ t # post" and "ready s t"
  shows "\<exists>j\<le>length pre. fst (pick (((snd \<circ> pick) ^^ j) s)) = Some t"
  using assms
proof (induction "length pre" arbitrary: s pre post rule: less_induct)
  case less
  obtain r s' where p: "pick s = (r, s')" by fastforce
  note rr = pick_rr [OF less.prems(1) p]
  from rr less.prems(2,3) obtain u where r: "r = Some u" by (cases r) (auto simp: rr_next_None)
  from rr [unfolded r] obtain a b where ab: "queue s = a @ u # b" "\<forall>x\<in>set a. \<not> ready s x"
      "queue s' = b @ a @ [u]"
    by (rule rr_next_split)
  show ?case
  proof (cases "length pre = length a")
    case True
    with ab(1) less.prems(2) have "t = u" by simp
    then show ?thesis using p r by (intro exI [of _ 0]) simp
  next
    case False
    have "\<not> length pre < length a"
    proof
      assume "length pre < length a"
      then have "t = a ! length pre" using ab(1) less.prems(2) by (metis nth_append nth_append_length)
      then show False using ab(2) less.prems(3) \<open>length pre < length a\<close> by simp
    qed
    with False have gt: "length a < length pre" by simp
    define pre' where "pre' = drop (Suc (length a)) pre"
    have "drop (Suc (length a)) (a @ u # b) = drop (Suc (length a)) (pre @ t # post)"
      using ab(1) less.prems(2) by simp
    then have "b = pre' @ t # post" using gt by (simp add: pre'_def)
    then have "queue s' = pre' @ t # (post @ a @ [u])" using ab(3) by simp
    moreover have "length pre' < length pre" using gt by (simp add: pre'_def)
    moreover have "wf s'" "ready s' t"
      using pick_wf [OF less.prems(1) p] pick_ready [OF less.prems(1) p] less.prems(3) by simp_all
    ultimately obtain j where j: "j \<le> length pre'"
        "fst (pick (((snd \<circ> pick) ^^ j) s')) = Some t"
      using less.hyps by blast
    have "((snd \<circ> pick) ^^ Suc j) s = ((snd \<circ> pick) ^^ j) s'"
      using p by (simp add: funpow_swap1)
    with j \<open>length pre' < length pre\<close> show ?thesis
      by (intro exI [of _ "Suc j"]) simp
  qed
qed

end

section \<open>The scheduler is round robin\<close>

abbreviation is_ready :: "scheduler \<Rightarrow> thref \<Rightarrow> bool" where
  "is_ready s r \<equiv> th_state (thread_at s r) = Ready"

text \<open>
  Invariant of the loop: after some iterations the queue is the rest followed by the entries
  passed so far, none of which is ready.
\<close>

lemma schedule_loop_rr:
  assumes "threads s = q @ passed" and "\<forall>x\<in>set passed. \<not> is_ready s x"
  shows "schedule_loop (length q) s =
    (case dropWhile (\<lambda>x. \<not> is_ready s x) q of
       [] \<Rightarrow> (None, s\<lparr>threads := passed @ q\<rparr>)
     | t # post \<Rightarrow> (Some t, s\<lparr>active_thread := Some t,
         threads := post @ passed @ takeWhile (\<lambda>x. \<not> is_ready s x) q @ [t]\<rparr>))"
  using assms
proof (induction q arbitrary: s passed)
  case Nil
  then show ?case by simp
next
  case (Cons r q)
  show ?case
  proof (cases "is_ready s r")
    case True
    then have "set_state Ready r (set_state Running r (s\<lparr>threads := q @ passed\<rparr>)) =
        s\<lparr>threads := q @ passed\<rparr>"
      by (intro set_state_same) simp
    with True Cons.prems show ?thesis by (simp add: Let_def)
  next
    case False
    with Cons.prems Cons.IH [of "s\<lparr>threads := q @ passed @ [r]\<rparr>" "passed @ [r]"]
    show ?thesis by (auto simp del: dropWhile_eq_Nil_conv split: list.splits)
  qed
qed

lemma schedule_next_rr:
  "schedule_next s =
    (case rr_next (is_ready s) (threads s) of
       (None, _) \<Rightarrow> (None, s)
     | (Some t, q') \<Rightarrow> (Some t, s\<lparr>threads := q', active_thread := Some t\<rparr>))"
  using schedule_loop_rr [of s "threads s" "[]"]
  by (auto simp: schedule_next_def rr_next_def simp del: dropWhile_eq_Nil_conv split: list.splits)

lemma schedule_next_frame:
  "schedule_next s = (r, s') \<Longrightarrow> th_store s' = th_store s \<and> (r = None \<longrightarrow> s' = s) \<and>
     (r \<noteq> None \<longrightarrow> active_thread s' = r) \<and> next_thread_id s' = next_thread_id s"
  by (cases "rr_next (is_ready s) (threads s)") (auto simp: schedule_next_rr split: option.splits)

lemma sched_wf_schedule_next:
  assumes "sched_wf s" and "schedule_next s = (r, s')"
  shows "sched_wf s'"
proof (cases r)
  case None
  with assms show ?thesis by (auto simp: schedule_next_rr split: prod.splits option.splits)
next
  case (Some t)
  then obtain q' where q': "rr_next (is_ready s) (threads s) = (Some t, q')"
      "s' = s\<lparr>threads := q', active_thread := Some t\<rparr>"
    using assms(2) by (auto simp: schedule_next_rr split: prod.splits option.splits)
  from q'(1) obtain pre post where "threads s = pre @ t # post" "q' = post @ pre @ [t]"
    by (rule rr_next_split)
  with q'(2) assms(1) show ?thesis by (auto simp: sched_wf_def)
qed

interpretation sched: round_robin schedule_next threads is_ready sched_wf
proof unfold_locales
  fix s r s'
  assume "sched_wf s" and p: "schedule_next s = (r, s')"
  then show "sched_wf s'" by (rule sched_wf_schedule_next)
  show "rr_next (is_ready s) (threads s) = (r, threads s')" and "is_ready s' = is_ready s"
    using p by (auto simp: schedule_next_rr rr_next_None split: prod.splits option.splits)
qed

section \<open>Marking and terminating\<close>

lemma mark_loop:
  "distinct rs \<Longrightarrow> \<forall>r\<in>set rs. r < length (th_store s) \<Longrightarrow>
   fold (\<lambda>r s. if th_id (thread_at s r) = tid then set_state st r s else s) rs s =
   s\<lparr>th_store := map (\<lambda>r. if r \<in> set rs \<and> th_id (thread_at s r) = tid
        then (thread_at s r)\<lparr>th_state := st\<rparr> else thread_at s r) [0..<length (th_store s)]\<rparr>"
proof (induction rs arbitrary: s)
  case Nil
  have "map (\<lambda>r. thread_at s r) [0..<length (th_store s)] = th_store s" by (rule map_nth)
  then show ?case by simp
next
  case (Cons r rs)
  let ?s = "if th_id (thread_at s r) = tid then set_state st r s else s"
  have len: "length (th_store ?s) = length (th_store s)" by simp
  have at: "thread_at ?s q = (if q = r \<and> th_id (thread_at s r) = tid
      then (thread_at s r)\<lparr>th_state := st\<rparr> else thread_at s q)" if "q < length (th_store s)" for q
    using that by (simp add: thread_at_set_state)
  have other: "?s\<lparr>th_store := x\<rparr> = s\<lparr>th_store := x\<rparr>" for x
    by (simp add: set_state_def modify_thread_def)
  have "fold (\<lambda>r s. if th_id (thread_at s r) = tid then set_state st r s else s) rs ?s =
    s\<lparr>th_store := map (\<lambda>q. if q \<in> set rs \<and> th_id (thread_at ?s q) = tid
        then (thread_at ?s q)\<lparr>th_state := st\<rparr> else thread_at ?s q) [0..<length (th_store s)]\<rparr>"
    using Cons.IH [of ?s] Cons.prems by (simp only: other len) simp
  also have "\<dots> = s\<lparr>th_store := map (\<lambda>q. if q \<in> set (r # rs) \<and> th_id (thread_at s q) = tid
        then (thread_at s q)\<lparr>th_state := st\<rparr> else thread_at s q) [0..<length (th_store s)]\<rparr>"
    using Cons.prems(1) by (intro arg_cong [where f = "\<lambda>x. s\<lparr>th_store := x\<rparr>"] map_cong) (auto simp: at)
  finally show ?case by simp
qed

lemma mark_threads_simps [simp]:
  assumes "sched_wf s"
  shows "threads (mark_threads tid st s) = threads s"
    and "active_thread (mark_threads tid st s) = active_thread s"
    and "next_thread_id (mark_threads tid st s) = next_thread_id s"
    and "length (th_store (mark_threads tid st s)) = length (th_store s)"
  using mark_loop [of "threads s" s tid st] assms by (simp_all add: mark_threads_def sched_wf_def)

lemma thread_at_mark:
  assumes "sched_wf s" and "r < length (th_store s)"
  shows "thread_at (mark_threads tid st s) r =
    (if r \<in> set (threads s) \<and> th_id (thread_at s r) = tid
     then (thread_at s r)\<lparr>th_state := st\<rparr> else thread_at s r)"
  using mark_loop [of "threads s" s tid st] assms by (simp add: mark_threads_def sched_wf_def)

lemma sched_wf_mark: "sched_wf s \<Longrightarrow> sched_wf (mark_threads tid st s)"
  using thread_at_mark [of s _ tid st] mark_threads_simps [of s tid st]
  unfolding sched_wf_def by auto

lemma terminate_threads:
  assumes "sched_wf s"
  shows "threads (terminate_thread s tid) =
    filter (\<lambda>r. th_id (thread_at s r) \<noteq> tid \<and> th_state (thread_at s r) \<noteq> Zombie) (threads s)"
  using assms thread_at_mark [OF assms]
  by (auto simp: terminate_thread_def Let_def sched_wf_def intro!: filter_cong split: if_splits)

section \<open>Properties\<close>

text \<open>
  C25. The scheduler refines round robin: \<open>schedule_next\<close> returns exactly what the abstract rule
  returns on the queue (the first ready thread goes to the back with the threads it passed),
  records it as the active thread, changes no thread, and keeps the scheduler well formed;
  with no ready thread it changes nothing.
\<close>

theorem schedule_next_round_robin:
  assumes "sched_wf s" and "schedule_next s = (r, s')"
  shows "rr_next (is_ready s) (threads s) = (r, threads s') \<and> th_store s' = th_store s \<and>
    sched_wf s' \<and> (r = None \<longrightarrow> s' = s) \<and> (r \<noteq> None \<longrightarrow> active_thread s' = r)"
  using sched.pick_rr [OF assms] sched_wf_schedule_next [OF assms] schedule_next_frame [OF assms(2)]
  by blast

definition sched_demo :: scheduler where
  "sched_demo = snd (spawn (mark_threads 1 Blocked (snd (spawn scheduler_new 5 (lit ''a'') 16)))
     6 (lit ''b'') 32)"

lemma sched_demo_wf: "sched_wf sched_demo"
  unfolding sched_demo_def
  by (metis prod.collapse sched_wf_mark sched_wf_new sched_wf_spawn)

lemma sched_demo_eq:
  "threads sched_demo = [0, 1]" "th_state (thread_at sched_demo 0) = Blocked"
  "th_state (thread_at sched_demo (Suc 0)) = Ready" "length (th_store sched_demo) = 2"
  by (simp_all add: sched_demo_def spawn_def scheduler_new_def mark_threads_def set_state_def
      modify_thread_def Let_def)

lemma sched_demo_next: "fst (schedule_next sched_demo) = Some 1"
  by (simp add: schedule_next_rr rr_next_def sched_demo_eq)

theorem schedule_next_round_robin_witness:
  "rr_next (is_ready sched_demo) [0, 1] = (Some 1, threads (snd (schedule_next sched_demo)))"
proof -
  have "schedule_next sched_demo = (Some 1, snd (schedule_next sched_demo))"
    using sched_demo_next by (metis prod.collapse)
  from schedule_next_round_robin [OF sched_demo_wf this] show ?thesis
    by (simp add: sched_demo_eq)
qed

text \<open>
  C26. Fairness: a ready thread with \<open>k\<close> threads before it in the queue is the one
  \<open>schedule_next\<close> returns within \<open>k + 1\<close> consecutive calls.
\<close>

theorem schedule_next_fair:
  assumes "sched_wf s" and "threads s = pre @ t # post" and "is_ready s t"
  shows "\<exists>j\<le>length pre. fst (schedule_next (((snd \<circ> schedule_next) ^^ j) s)) = Some t"
  using assms by (rule sched.fair)

theorem schedule_next_fair_witness:
  "\<exists>j\<le>1. fst (schedule_next (((snd \<circ> schedule_next) ^^ j) sched_demo)) = Some 1"
  using schedule_next_fair [of sched_demo "[0]" 1 "[]", OF sched_demo_wf]
  by (simp add: sched_demo_eq)

text \<open>
  A spawned thread is queued last, ready, in user mode with interrupts enabled, under an id
  no earlier thread has while fewer than \<open>2 ^ 32 - 1\<close> threads were spawned; the scheduler
  stays well formed and no other thread changes.
\<close>

theorem spawn_correct:
  assumes "sched_wf s" and "Suc (length (th_store s)) < 2 ^ 32" and "spawn s sid nm entry = (t, s')"
  shows "sched_wf s' \<and> (\<exists>th. th_store s' = th_store s @ [th] \<and>
      threads s' = threads s @ [length (th_store s)] \<and> th_id th = t \<and> th_session_id th = sid \<and>
      th_state th = Ready \<and> ctx_rip (th_context th) = entry \<and> ctx_cs (th_context th) AND 3 = 3 \<and>
      ctx_ss (th_context th) AND 3 = 3 \<and> bit (ctx_rflags (th_context th)) 9) \<and>
    (\<forall>r<length (th_store s). th_id (thread_at s r) \<noteq> t)"
proof (intro conjI allI impI)
  show "sched_wf s'" using assms(1,3) by (rule sched_wf_spawn)
  show "\<exists>th. th_store s' = th_store s @ [th] \<and>
      threads s' = threads s @ [length (th_store s)] \<and> th_id th = t \<and> th_session_id th = sid \<and>
      th_state th = Ready \<and> ctx_rip (th_context th) = entry \<and> ctx_cs (th_context th) AND 3 = 3 \<and>
      ctx_ss (th_context th) AND 3 = 3 \<and> bit (ctx_rflags (th_context th)) 9"
    using assms(3) by (auto simp: spawn_def Let_def user_context_def bit_numeral_rec)
  fix r assume r: "r < length (th_store s)"
  have "unat (of_nat (Suc r) :: u32) = Suc r" "unat (of_nat (Suc (length (th_store s))) :: u32) =
      Suc (length (th_store s))"
    using r assms(2) by (simp_all only: unat_of_nat take_bit_nat_eq_self_iff) simp_all
  then have "(of_nat (Suc r) :: u32) \<noteq> of_nat (Suc (length (th_store s)))"
    using r by (metis nat.inject nat_neq_iff)
  with assms r show "th_id (thread_at s r) \<noteq> t"
    by (auto simp: sched_wf_def spawn_def Let_def)
qed

theorem spawn_correct_witness:
  "\<exists>t s'. spawn sched_demo 9 [] 64 = (t, s') \<and> sched_wf s' \<and> threads s' = [0, 1, 2]"
proof -
  obtain t s' where sp: "spawn sched_demo 9 [] 64 = (t, s')" by fastforce
  from spawn_correct [OF sched_demo_wf _ sp] sp show ?thesis by (auto simp: sched_demo_eq)
qed

text \<open>
  \<open>terminate_thread\<close> removes from the queue the thread with the given id (and any zombie)
  and keeps the others in their order; the removed thread can then never be scheduled.
\<close>

theorem terminate_thread_correct:
  assumes "sched_wf s"
  shows "threads (terminate_thread s tid) =
      filter (\<lambda>r. th_id (thread_at s r) \<noteq> tid \<and> th_state (thread_at s r) \<noteq> Zombie) (threads s) \<and>
    (\<forall>r. fst (schedule_next (terminate_thread s tid)) = Some r \<longrightarrow> th_id (thread_at s r) \<noteq> tid)"
proof (intro conjI allI impI)
  show eq: "threads (terminate_thread s tid) =
      filter (\<lambda>r. th_id (thread_at s r) \<noteq> tid \<and> th_state (thread_at s r) \<noteq> Zombie) (threads s)"
    using assms by (rule terminate_threads)
  fix r assume "fst (schedule_next (terminate_thread s tid)) = Some r"
  then have "r \<in> set (threads (terminate_thread s tid))"
    by (auto simp: schedule_next_rr split: prod.splits option.splits elim!: rr_next_split)
  then show "th_id (thread_at s r) \<noteq> tid" by (simp add: eq)
qed

theorem terminate_thread_correct_witness:
  "threads (terminate_thread sched_demo 1) = [1]"
  using terminate_thread_correct [OF sched_demo_wf, of 1]
  by (simp add: sched_demo_eq)
    (simp add: sched_demo_def spawn_def scheduler_new_def mark_threads_def set_state_def
      modify_thread_def Let_def)

end
