(* ===== verification/Fifo.thy ===== *)
theory Fifo
  imports Prelude
begin

text \<open>
  The contract of a bounded queue: what went in comes out in order, and what does not fit is
  dropped. \<open>guarded_fifo\<close> is the contract of an implementation with an invariant (the key ring of
  the keyboard driver), \<open>bounded_fifo\<close> the special case without one (the message ports).
\<close>

locale guarded_fifo =
  fixes put :: "'s \<Rightarrow> 'm \<Rightarrow> 's"
    and get :: "'s \<Rightarrow> 'm option \<times> 's"
    and items :: "'s \<Rightarrow> 'm list"
    and cap :: nat
    and inv :: "'s \<Rightarrow> bool"
  assumes inv_put: "inv s \<Longrightarrow> inv (put s m)"
    and inv_get: "inv s \<Longrightarrow> inv (snd (get s))"
    and inv_put_items:
      "inv s \<Longrightarrow> items (put s m) = (if length (items s) < cap then items s @ [m] else items s)"
    and inv_get_result: "inv s \<Longrightarrow> fst (get s) = (case items s of [] \<Rightarrow> None | m # _ \<Rightarrow> Some m)"
    and inv_get_items: "inv s \<Longrightarrow> items (snd (get s)) = tl (items s)"
begin

text \<open>Sending a list keeps its longest prefix that fits, in order.\<close>

lemma inv_fold_put: "inv s \<Longrightarrow> inv (fold (\<lambda>m s. put s m) ms s)"
  by (induction ms arbitrary: s) (simp_all add: inv_put)

lemma inv_fold_put_items:
  "inv s \<Longrightarrow> items (fold (\<lambda>m s. put s m) ms s) = items s @ take (cap - length (items s)) ms"
proof (induction ms arbitrary: s)
  case Nil
  then show ?case by simp
next
  case (Cons m ms)
  note ih = Cons.IH [OF inv_put [OF Cons.prems, of m]]
  show ?case
  proof (cases "length (items s) < cap")
    case True
    then have "take (cap - length (items s)) (m # ms) = m # take (cap - Suc (length (items s))) ms"
      by (metis Suc_diff_Suc take_Suc_Cons)
    with True ih Cons.prems show ?thesis by (simp add: inv_put_items)
  next
    case False
    with ih Cons.prems show ?thesis by (simp add: inv_put_items)
  qed
qed

primrec drain :: "nat \<Rightarrow> 's \<Rightarrow> 'm option list" where
  "drain 0 s = []"
| "drain (Suc n) s = fst (get s) # drain n (snd (get s))"

lemma inv_drain_items:
  "inv s \<Longrightarrow> n \<le> length (items s) \<Longrightarrow> drain n s = map Some (take n (items s))"
proof (induction n arbitrary: s)
  case (Suc n)
  then obtain m ms where "items s = m # ms" by (cases "items s") auto
  with Suc show ?case by (simp add: inv_get_result inv_get_items inv_get)
qed simp

end

locale bounded_fifo =
  fixes put :: "'s \<Rightarrow> 'm \<Rightarrow> 's"
    and get :: "'s \<Rightarrow> 'm option \<times> 's"
    and items :: "'s \<Rightarrow> 'm list"
    and cap :: nat
  assumes put_items: "items (put s m) = (if length (items s) < cap then items s @ [m] else items s)"
    and get_result: "fst (get s) = (case items s of [] \<Rightarrow> None | m # _ \<Rightarrow> Some m)"
    and get_items: "items (snd (get s)) = tl (items s)"

sublocale bounded_fifo \<subseteq> guarded_fifo put get items cap "\<lambda>_. True"
  by unfold_locales (simp_all add: put_items get_result get_items)

context bounded_fifo
begin

lemma fold_put_items: "items (fold (\<lambda>m s. put s m) ms s) = items s @ take (cap - length (items s)) ms"
  by (rule inv_fold_put_items) simp

lemma drain_items: "n \<le> length (items s) \<Longrightarrow> drain n s = map Some (take n (items s))"
  by (rule inv_drain_items) simp_all

end

end
