(* ===== verification/Ipc.thy ===== *)
theory Ipc
  imports Rust_Str Fifo
begin

text \<open>
  The message ports of \<open>kernel/src/ipc.rs\<close>. The locale \<open>bounded_fifo\<close> of theory \<open>Fifo\<close> is what a user of a port
  relies on (messages come out in the order they went in, up to a capacity); the model's
  \<open>send\<close> and \<open>recv\<close> on any one port interpret it.
\<close>

section \<open>State\<close>

record ipc_message =
  sender_session :: u64
  payload :: rstr

record ipc_channel =
  ch_port_id :: u32
  messages :: "ipc_message list"
  blocked_threads :: "u32 list"

record ipc_subsystem =
  channels :: "u32 \<rightharpoonup> ipc_channel"

definition ipc_new :: ipc_subsystem where
  "ipc_new = \<lparr>channels = Map.empty\<rparr>"

section \<open>Operations\<close>

text \<open>\<open>channels.entry(port_id).or_insert_with(...)\<close>.\<close>

definition channel_entry :: "ipc_subsystem \<Rightarrow> u32 \<Rightarrow> ipc_channel" where
  "channel_entry s port_id =
     (case channels s port_id of
        Some c \<Rightarrow> c
      | None \<Rightarrow> \<lparr>ch_port_id = port_id, messages = [], blocked_threads = []\<rparr>)"

definition put_channel :: "ipc_subsystem \<Rightarrow> u32 \<Rightarrow> ipc_channel \<Rightarrow> ipc_subsystem" where
  "put_channel s port_id c = s\<lparr>channels := (channels s)(port_id \<mapsto> c)\<rparr>"

definition ipc_send ::
    "ipc_subsystem \<Rightarrow> u32 \<Rightarrow> u64 \<Rightarrow> rstr \<Rightarrow> u32 option \<times> ipc_subsystem" where
  "ipc_send s port_id sender msg_payload =
     (let channel = channel_entry s port_id
      in if length (messages channel) \<ge> 1024 then (None, put_channel s port_id channel)
         else let msg = \<lparr>sender_session = sender, payload = msg_payload\<rparr>;
                  channel1 = channel\<lparr>messages := messages channel @ [msg]\<rparr>
              in case blocked_threads channel1 of
                   [] \<Rightarrow> (None, put_channel s port_id channel1)
                 | t # ts \<Rightarrow> (Some t, put_channel s port_id (channel1\<lparr>blocked_threads := ts\<rparr>)))"

text \<open>The source's \<open>Err\<close> case of \<open>recv\<close> is never produced; the result is its \<open>Ok\<close> value.\<close>

definition ipc_recv ::
    "ipc_subsystem \<Rightarrow> u32 \<Rightarrow> u32 \<Rightarrow> ipc_message option \<times> ipc_subsystem" where
  "ipc_recv s port_id receiver_thread_id =
     (let channel = channel_entry s port_id
      in case messages channel of
           msg # rest \<Rightarrow> (Some msg, put_channel s port_id (channel\<lparr>messages := rest\<rparr>))
         | [] \<Rightarrow> (None, put_channel s port_id
               (channel\<lparr>blocked_threads := blocked_threads channel @ [receiver_thread_id]\<rparr>)))"

section \<open>Ports are bounded queues\<close>

definition port_messages :: "u32 \<Rightarrow> ipc_subsystem \<Rightarrow> ipc_message list" where
  "port_messages p s = messages (channel_entry s p)"

definition port_waiters :: "u32 \<Rightarrow> ipc_subsystem \<Rightarrow> u32 list" where
  "port_waiters p s = blocked_threads (channel_entry s p)"

lemma channel_entry_put [simp]:
  "channel_entry (put_channel s p c) q = (if q = p then c else channel_entry s q)"
  by (simp add: channel_entry_def put_channel_def)

lemmas port_defs = port_messages_def port_waiters_def

lemma send_messages:
  "port_messages q (snd (ipc_send s p sender pl)) =
    (if q = p \<and> length (port_messages p s) < 1024
     then port_messages p s @ [\<lparr>sender_session = sender, payload = pl\<rparr>] else port_messages q s)"
  by (auto simp: port_defs ipc_send_def Let_def split: list.splits)

lemma send_waiters:
  "port_waiters q (snd (ipc_send s p sender pl)) =
    (if q = p \<and> length (port_messages p s) < 1024 then tl (port_waiters p s) else port_waiters q s)"
  by (auto simp: port_defs ipc_send_def Let_def split: list.splits)

lemma send_wakes:
  "fst (ipc_send s p sender pl) =
    (if length (port_messages p s) < 1024
     then (case port_waiters p s of [] \<Rightarrow> None | t # _ \<Rightarrow> Some t) else None)"
  by (auto simp: port_defs ipc_send_def Let_def split: list.splits)

lemma recv_messages:
  "port_messages q (snd (ipc_recv s p tid)) =
    (if q = p then tl (port_messages p s) else port_messages q s)"
  by (auto simp: port_defs ipc_recv_def Let_def split: list.splits)

lemma recv_waiters:
  "port_waiters q (snd (ipc_recv s p tid)) =
    (if q = p \<and> port_messages p s = [] then port_waiters p s @ [tid] else port_waiters q s)"
  by (auto simp: port_defs ipc_recv_def Let_def split: list.splits)

lemma recv_result:
  "fst (ipc_recv s p tid) = (case port_messages p s of [] \<Rightarrow> None | m # _ \<Rightarrow> Some m)"
  by (auto simp: port_defs ipc_recv_def Let_def split: list.splits)

text \<open>The operations of one port as one client sees them.\<close>

abbreviation port_put :: "u32 \<Rightarrow> ipc_subsystem \<Rightarrow> ipc_message \<Rightarrow> ipc_subsystem" where
  "port_put p s m \<equiv> snd (ipc_send s p (sender_session m) (payload m))"

interpretation port: bounded_fifo "port_put p" "\<lambda>s. ipc_recv s p tid" "port_messages p" 1024
  for p tid
  by unfold_locales (simp_all add: send_messages recv_messages recv_result)

text \<open>The receiver's loop on the model: \<open>n\<close> calls of \<open>recv\<close> by thread \<open>tid\<close>.\<close>

primrec recv_many :: "nat \<Rightarrow> u32 \<Rightarrow> u32 \<Rightarrow> ipc_subsystem \<Rightarrow> ipc_message option list" where
  "recv_many 0 p tid s = []"
| "recv_many (Suc n) p tid s =
     fst (ipc_recv s p tid) # recv_many n p tid (snd (ipc_recv s p tid))"

lemma recv_many_drain: "recv_many n p tid s = port.drain p tid n s"
  by (induction n arbitrary: s) simp_all

section \<open>Reachable subsystems\<close>

inductive ipc_step :: "ipc_subsystem \<Rightarrow> ipc_subsystem \<Rightarrow> bool" where
  send: "ipc_step s (snd (ipc_send s p sender pl))"
| recv: "ipc_step s (snd (ipc_recv s p tid))"

inductive_cases ipc_stepE: "ipc_step s t"

lemma ipc_step_bound:
  assumes "ipc_step s t" and "\<And>p. length (port_messages p s) \<le> 1024"
  shows "length (port_messages p t) \<le> 1024"
  using assms(1)
proof (cases rule: ipc_step.cases)
  case (send q sender pl)
  with assms(2) show ?thesis by (auto simp: send_messages Suc_le_eq)
next
  case (recv q tid)
  with assms(2) [of q] assms(2) [of p] show ?thesis by (auto simp: recv_messages)
qed

section \<open>Properties\<close>

text \<open>
  C29. Ports deliver in order: after any list of messages is sent to a port with an empty
  queue, \<open>n\<close> receives by any thread return the first \<open>n\<close> of them in the order sent, for
  every \<open>n\<close> up to the number sent and up to the capacity 1024.
\<close>

theorem ipc_fifo:
  assumes "port_messages p s = []" and "n \<le> length ms" and "n \<le> 1024"
  shows "recv_many n p tid (fold (\<lambda>m s. port_put p s m) ms s) = map Some (take n ms)"
proof -
  have items: "port_messages p (fold (\<lambda>m s. port_put p s m) ms s) = take 1024 ms"
    using port.fold_put_items [of p ms s] assms(1) by simp
  with assms have "port.drain p tid n (fold (\<lambda>m s. port_put p s m) ms s) = map Some (take n ms)"
    by (subst port.drain_items) (simp_all add: min_absorb1)
  then show ?thesis by (simp add: recv_many_drain)
qed

theorem ipc_fifo_witness:
  "recv_many 2 7 3 (fold (\<lambda>m s. port_put 7 s m)
     [\<lparr>sender_session = 1, payload = [65]\<rparr>, \<lparr>sender_session = 2, payload = [66]\<rparr>] ipc_new) =
   [Some \<lparr>sender_session = 1, payload = [65]\<rparr>, Some \<lparr>sender_session = 2, payload = [66]\<rparr>]"
  using ipc_fifo [of 7 ipc_new 2
      "[\<lparr>sender_session = 1, payload = [65]\<rparr>, \<lparr>sender_session = 2, payload = [66]\<rparr>]" 3]
  by (simp add: port_messages_def channel_entry_def ipc_new_def)

text \<open>
  A send either drops the message, exactly when the port holds 1024, and then changes no
  queue and wakes nobody, or appends it and wakes the thread that has waited longest on that
  port; no other port changes.
\<close>

theorem ipc_send_correct:
  "(if length (port_messages p s) < 1024
    then port_messages p (snd (ipc_send s p sender pl)) =
           port_messages p s @ [\<lparr>sender_session = sender, payload = pl\<rparr>] \<and>
         fst (ipc_send s p sender pl) =
           (case port_waiters p s of [] \<Rightarrow> None | t # _ \<Rightarrow> Some t) \<and>
         port_waiters p (snd (ipc_send s p sender pl)) = tl (port_waiters p s)
    else port_messages p (snd (ipc_send s p sender pl)) = port_messages p s \<and>
         port_waiters p (snd (ipc_send s p sender pl)) = port_waiters p s \<and>
         fst (ipc_send s p sender pl) = None) \<and>
   (\<forall>q. q \<noteq> p \<longrightarrow> channels (snd (ipc_send s p sender pl)) q = channels s q)"
  by (simp add: send_messages send_wakes send_waiters)
    (auto simp: ipc_send_def put_channel_def Let_def split: list.splits)

theorem ipc_send_correct_witness:
  "(8 :: u32) \<noteq> 7 \<and> channels (snd (ipc_send ipc_new 7 1 [65])) 8 = None"
  using ipc_send_correct [of 7 ipc_new 1 "[65]"] by (simp add: ipc_new_def)

text \<open>No sequence of sends and receives from boot leaves more than 1024 messages in a port.\<close>

theorem ipc_capacity:
  assumes "ipc_step\<^sup>*\<^sup>* ipc_new s"
  shows "length (port_messages p s) \<le> 1024"
  using assms
proof (induction arbitrary: p rule: rtranclp_induct)
  case base
  then show ?case by (simp add: port_messages_def channel_entry_def ipc_new_def)
next
  case (step s t)
  then show ?case using ipc_step_bound by blast
qed

theorem ipc_capacity_witness:
  "length (port_messages 7 (snd (ipc_send ipc_new 7 1 [65]))) \<le> 1024"
  by (rule ipc_capacity) (simp add: ipc_step.send r_into_rtranclp)

end
