(* ===== verification/Ppa.thy ===== *)
theory Ppa
  imports Prelude
begin

text \<open>
  The physical page allocator of \<open>mm/ppa.zig\<close>, the provider behind the \<open>phys_alloc\<close> and
  \<open>phys_free\<close> bindings of \<open>kernel/src/vasm.rs\<close>. The page array is a function from page
  numbers; every index the code forms is proved to be below \<open>TOTAL_PAGES\<close>. The spin lock is
  not modelled: each call is one atomic step.
\<close>

section \<open>State\<close>

record page_info =
  order :: nat
  is_free :: bool

record ppa =
  pool_base :: u64
  page_meta :: "nat \<Rightarrow> page_info"
  initialized :: bool

abbreviation PAGE_SIZE :: nat where "PAGE_SIZE \<equiv> 4096"
abbreviation MAX_ORDER :: nat where "MAX_ORDER \<equiv> 11"
abbreviation MEMORY_SIZE :: nat where "MEMORY_SIZE \<equiv> 67108864"
abbreviation TOTAL_PAGES :: nat where "TOTAL_PAGES \<equiv> 16384"

section \<open>Initialisation\<close>

function init_heads :: "nat \<Rightarrow> (nat \<Rightarrow> page_info) \<Rightarrow> nat \<Rightarrow> page_info" where
  "init_heads i pm =
     (if i < TOTAL_PAGES
      then init_heads (i + 2 ^ (MAX_ORDER - 1)) (pm(i := (pm i)\<lparr>order := MAX_ORDER - 1\<rparr>))
      else pm)"
  by pat_completeness auto
termination
  by (relation "measure (\<lambda>(i, pm). TOTAL_PAGES - i)") auto

declare init_heads.simps [simp del]

definition ppa_init :: "ppa \<Rightarrow> ppa" where
  "ppa_init s =
     (if initialized s then s
      else s\<lparr>page_meta := init_heads 0 (\<lambda>_. \<lparr>order = 0, is_free = True\<rparr>), initialized := True\<rparr>)"

section \<open>Allocation\<close>

text \<open>The smallest order that fits, the first free block of at least that order, the split.\<close>

function find_order :: "nat \<Rightarrow> nat \<Rightarrow> nat option" where
  "find_order req_order pages =
     (if 2 ^ req_order < pages
      then if req_order + 1 \<ge> MAX_ORDER then None else find_order (req_order + 1) pages
      else Some req_order)"
  by pat_completeness auto
termination
  by (relation "measure (\<lambda>(r, p). MAX_ORDER - r)") auto

function scan_order :: "(nat \<Rightarrow> page_info) \<Rightarrow> nat \<Rightarrow> nat \<Rightarrow> nat option" where
  "scan_order pm current_order i =
     (if i < TOTAL_PAGES
      then if is_free (pm i) \<and> order (pm i) = current_order then Some i
           else scan_order pm current_order (i + 2 ^ current_order)
      else None)"
  by pat_completeness auto
termination
  by (relation "measure (\<lambda>(pm, c, i). TOTAL_PAGES - i)") (auto intro!: diff_less_mono2)

function find_block :: "(nat \<Rightarrow> page_info) \<Rightarrow> nat \<Rightarrow> (nat \<times> nat) option" where
  "find_block pm current_order =
     (if current_order < MAX_ORDER
      then case scan_order pm current_order 0 of
             Some i \<Rightarrow> Some (current_order, i)
           | None \<Rightarrow> find_block pm (current_order + 1)
      else None)"
  by pat_completeness auto
termination
  by (relation "measure (\<lambda>(pm, c). MAX_ORDER - c)") auto

fun split_block :: "(nat \<Rightarrow> page_info) \<Rightarrow> nat \<Rightarrow> nat \<Rightarrow> nat \<Rightarrow> nat \<Rightarrow> page_info" where
  "split_block pm i req_order co =
     (if co > req_order
      then let co' = co - 1; buddy = i + 2 ^ co';
               pm' = pm(i := (pm i)\<lparr>order := co'\<rparr>)
           in split_block (pm'(buddy := \<lparr>order = co', is_free = True\<rparr>)) i req_order co'
      else pm)"

declare find_order.simps [simp del] scan_order.simps [simp del]
  find_block.simps [simp del] split_block.simps [simp del]

text \<open>A null pointer is the address 0.\<close>

definition phys_alloc :: "ppa \<Rightarrow> usize \<Rightarrow> u64 \<times> ppa" where
  "phys_alloc s0 pages =
     (let s = (if initialized s0 then s0 else ppa_init s0)
      in if pages = 0 then (0, s)
         else case find_order 0 (unat pages) of
           None \<Rightarrow> (0, s)
         | Some req_order \<Rightarrow>
             (case find_block (page_meta s) req_order of
                None \<Rightarrow> (0, s)
              | Some (current_order, i) \<Rightarrow>
                  let pm = split_block (page_meta s) i req_order current_order
                  in (pool_base s + of_nat (i * PAGE_SIZE),
                      s\<lparr>page_meta := pm(i := (pm i)\<lparr>is_free := False\<rparr>)\<rparr>)))"

section \<open>Deallocation\<close>

definition merge_buddy :: "(nat \<Rightarrow> page_info) \<Rightarrow> nat \<Rightarrow> nat \<Rightarrow> nat \<Rightarrow> nat \<Rightarrow> page_info" where
  "merge_buddy pm ord buddy_idx idx' =
     (let pm1 = pm(buddy_idx := (pm buddy_idx)\<lparr>is_free := False\<rparr>);
          pm2 = pm1(idx' := (pm1 idx')\<lparr>order := ord + 1\<rparr>)
      in pm2(idx' := (pm2 idx')\<lparr>is_free := True\<rparr>))"

function coalesce :: "(nat \<Rightarrow> page_info) \<Rightarrow> nat \<Rightarrow> nat \<Rightarrow> nat \<Rightarrow> page_info" where
  "coalesce pm ord idx =
     (if ord < MAX_ORDER - 1
      then let buddy_idx = idx XOR 2 ^ ord
           in if buddy_idx \<ge> TOTAL_PAGES then pm
              else if is_free (pm buddy_idx) \<and> order (pm buddy_idx) = ord
              then let idx' = (if buddy_idx < idx then buddy_idx else idx)
                   in coalesce (merge_buddy pm ord buddy_idx idx') (ord + 1) idx'
              else pm
      else pm)"
  by pat_completeness auto
termination
  by (relation "measure (\<lambda>(pm, ord, idx). MAX_ORDER - ord)") auto

declare coalesce.simps [simp del]

text \<open>The page count argument is ignored by the code.\<close>

definition phys_free :: "ppa \<Rightarrow> u64 \<Rightarrow> usize \<Rightarrow> ppa" where
  "phys_free s ptr pages =
     (if \<not> initialized s \<or> ptr = 0 then s
      else if ptr < pool_base s \<or> ptr \<ge> pool_base s + of_nat MEMORY_SIZE then s
      else let offset = unat (ptr - pool_base s)
           in if offset mod PAGE_SIZE \<noteq> 0 then s
              else let start_page = offset div PAGE_SIZE
                   in if start_page \<ge> TOTAL_PAGES then s
                      else if is_free (page_meta s start_page) then s
                      else let pm = page_meta s;
                               pm1 = pm(start_page := (pm start_page)\<lparr>is_free := True\<rparr>)
                           in s\<lparr>page_meta := coalesce pm1 (order (pm start_page)) start_page\<rparr>)"

definition free_pages :: "ppa \<Rightarrow> nat" where
  "free_pages s =
     (\<Sum>i\<leftarrow>[0..<TOTAL_PAGES]. if is_free (page_meta s i) then 2 ^ order (page_meta s i) else 0)"

section \<open>Search lemmas\<close>

lemma find_order_Some:
  "find_order r p = Some q \<Longrightarrow> r < MAX_ORDER \<Longrightarrow> r \<le> q \<and> q < MAX_ORDER \<and> p \<le> 2 ^ q"
proof (induction r p rule: find_order.induct)
  case (1 r p)
  then show ?case by (auto simp: find_order.simps [of r p] split: if_splits)
qed

lemma scan_order_Some:
  "scan_order pm c i = Some j \<Longrightarrow> 2 ^ c dvd i \<Longrightarrow>
   j < TOTAL_PAGES \<and> 2 ^ c dvd j \<and> is_free (pm j) \<and> order (pm j) = c"
proof (induction pm c i rule: scan_order.induct)
  case (1 pm c i)
  then show ?case by (auto simp: scan_order.simps [of pm c i] split: if_splits)
qed

lemma scan_order_zero:
  "i \<le> j \<Longrightarrow> j < TOTAL_PAGES \<Longrightarrow> is_free (pm j) \<Longrightarrow> order (pm j) = 0 \<Longrightarrow>
   \<exists>k. scan_order pm 0 i = Some k"
proof (induction "j - i" arbitrary: i)
  case 0
  then show ?case by (simp add: scan_order.simps [of pm 0 i])
next
  case (Suc n)
  then have "\<exists>k. scan_order pm 0 (i + 1) = Some k" by (intro Suc.hyps) auto
  with Suc show ?case by (simp add: scan_order.simps [of pm 0 i])
qed

lemma find_block_Some:
  "find_block pm c = Some (d, j) \<Longrightarrow>
   c \<le> d \<and> d < MAX_ORDER \<and> j < TOTAL_PAGES \<and> 2 ^ d dvd j \<and> is_free (pm j) \<and> order (pm j) = d"
proof (induction pm c rule: find_block.induct)
  case (1 pm c)
  show ?case
  proof (cases "scan_order pm c 0")
    case None
    with 1 show ?thesis by (auto simp: find_block.simps [of pm c] split: if_splits)
  next
    case (Some i)
    with 1 scan_order_Some [OF Some] show ?thesis
      by (auto simp: find_block.simps [of pm c] split: if_splits)
  qed
qed

lemma block_fits:
  assumes "d < MAX_ORDER" and "j < TOTAL_PAGES" and "2 ^ d dvd j"
  shows "j + 2 ^ d \<le> TOTAL_PAGES"
proof -
  have "(2::nat) ^ d dvd 2 ^ 14" using assms(1) by (intro le_imp_power_dvd) simp
  then have total: "2 ^ d dvd TOTAL_PAGES" by simp
  from assms(3) obtain k where k: "j = 2 ^ d * k" ..
  from total obtain l where l: "TOTAL_PAGES = 2 ^ d * l" ..
  have "2 ^ d * k < 2 ^ d * l" using assms(2) k l by metis
  then have "k < l" by simp
  then have "2 ^ d * Suc k \<le> 2 ^ d * l" by (intro mult_le_mono2) simp
  with k l show ?thesis by (metis add.commute mult_Suc_right)
qed

section \<open>The interface to the kernel\<close>

text \<open>
  What the Rust side relies on: a non-null result is the page-aligned start of a region of
  the requested size that lies in the pool. \<open>region\<close> gives the pool of a state.
\<close>

definition pool_ok :: "ppa \<Rightarrow> bool" where
  "pool_ok s \<longleftrightarrow> pool_base s \<noteq> 0 \<and> 4096 dvd unat (pool_base s) \<and>
     unat (pool_base s) + MEMORY_SIZE < 2 ^ 64"

locale page_source =
  fixes alloc :: "'s \<Rightarrow> usize \<Rightarrow> u64 \<times> 's"
    and free :: "'s \<Rightarrow> u64 \<Rightarrow> usize \<Rightarrow> 's"
    and inv :: "'s \<Rightarrow> bool"
    and lo :: "'s \<Rightarrow> nat" and hi :: "'s \<Rightarrow> nat"
  assumes alloc_inv: "inv s \<Longrightarrow> alloc s n = (p, t) \<Longrightarrow> inv t \<and> lo t = lo s \<and> hi t = hi s"
    and free_inv: "inv s \<Longrightarrow> inv (free s p n) \<and> lo (free s p n) = lo s \<and> hi (free s p n) = hi s"
    and alloc_region: "inv s \<Longrightarrow> alloc s n = (p, t) \<Longrightarrow> p \<noteq> 0 \<Longrightarrow>
      0 < n \<and> 4096 dvd unat p \<and> lo s \<le> unat p \<and> unat p + unat n * 4096 \<le> hi s"
    and pool_range: "inv s \<Longrightarrow> hi s < 2 ^ 64"
begin

text \<open>The page addresses a client forms do not wrap and stay in the region.\<close>

lemma page_addr:
  assumes "inv s" and "alloc s n = (p, t)" and "p \<noteq> 0" and "i < unat n"
  shows "unat (p + of_nat i * 4096) = unat p + i * 4096"
    and "4096 dvd unat (p + of_nat i * 4096)"
    and "lo s \<le> unat (p + of_nat i * 4096)"
    and "unat (p + of_nat i * 4096) + 4096 \<le> hi s"
proof -
  note r = alloc_region [OF assms(1-3)] pool_range [OF assms(1)]
  have le: "unat p + (i + 1) * 4096 \<le> hi s"
    using r(1) assms(4) mult_le_mono1 [of "i + 1" "unat n" 4096] by linarith
  then have "unat p + i * 4096 < 2 ^ 64" using r(2) by simp
  then show eq: "unat (p + of_nat i * 4096) = unat p + i * 4096"
    by (simp add: unat_word_ariths unat_of_nat mod_simps take_bit_eq_mod)
  show "4096 dvd unat (p + of_nat i * 4096)" using r(1) by (simp add: eq)
  show "lo s \<le> unat (p + of_nat i * 4096)" using r(1) by (simp add: eq)
  show "unat (p + of_nat i * 4096) + 4096 \<le> hi s" using le by (simp add: eq)
qed

end

lemma ppa_init_pool [frame_simps]: "pool_base (ppa_init s) = pool_base s"
  by (simp add: ppa_init_def)

lemma phys_alloc_pool [frame_simps]: "phys_alloc s n = (p, t) \<Longrightarrow> pool_base t = pool_base s"
  by (auto simp: phys_alloc_def Let_def ppa_init_pool split: if_splits option.splits prod.splits)

lemma phys_free_pool [frame_simps, simp]: "pool_base (phys_free s p n) = pool_base s"
  by (simp add: phys_free_def Let_def)

lemma phys_alloc_block:
  assumes "phys_alloc s n = (p, t)" and "p \<noteq> 0"
  obtains d j where "p = pool_base s + of_nat (j * PAGE_SIZE)" "0 < unat n" "unat n \<le> 2 ^ d"
    "d < MAX_ORDER" "j < TOTAL_PAGES" "2 ^ d dvd j" "\<not> is_free (page_meta t j)"
proof -
  define s1 where "s1 = (if initialized s then s else ppa_init s)"
  have base: "pool_base s1 = pool_base s" by (simp add: s1_def ppa_init_pool)
  from assms obtain r d j where f: "n \<noteq> 0" "find_order 0 (unat n) = Some r"
      "find_block (page_meta s1) r = Some (d, j)"
      "p = pool_base s + of_nat (j * PAGE_SIZE)" "\<not> is_free (page_meta t j)"
    by (fastforce simp: phys_alloc_def Let_def s1_def ppa_init_pool
        split: if_splits option.splits prod.splits)
  have r: "unat n \<le> 2 ^ r" using find_order_Some [OF f(2)] by simp
  note d = find_block_Some [OF f(3)]
  have "(2::nat) ^ r \<le> 2 ^ d" using d by (intro power_increasing) auto
  with r have "unat n \<le> 2 ^ d" by (rule order_trans)
  with d f show thesis by (intro that [of j d]) (auto simp: unat_gt_0)
qed

lemma phys_alloc_region:
  assumes "pool_ok s" and "phys_alloc s n = (p, t)" and "p \<noteq> 0"
  shows "0 < n \<and> 4096 dvd unat p \<and> unat (pool_base s) \<le> unat p \<and>
    unat p + unat n * 4096 \<le> unat (pool_base s) + MEMORY_SIZE"
proof -
  from assms(2,3) obtain d j where b: "p = pool_base s + of_nat (j * PAGE_SIZE)" "0 < unat n"
      "unat n \<le> 2 ^ d" "d < MAX_ORDER" "j < TOTAL_PAGES" "2 ^ d dvd j"
    by (rule phys_alloc_block)
  have fit: "j + unat n \<le> TOTAL_PAGES" using block_fits [OF b(4-6)] b(3) by simp
  have "unat (pool_base s) + j * PAGE_SIZE < 2 ^ 64" using assms(1) b(5) by (simp add: pool_ok_def)
  then have "unat p = unat (pool_base s) + j * PAGE_SIZE"
    unfolding b(1) by (simp add: unat_word_ariths unat_of_nat mod_simps take_bit_eq_mod)
  with fit b(2) assms(1) show ?thesis by (auto simp: pool_ok_def unat_gt_0 word_less_nat_alt)
qed

interpretation ppa: page_source phys_alloc phys_free pool_ok
    "\<lambda>s. unat (pool_base s)" "\<lambda>s. unat (pool_base s) + MEMORY_SIZE"
proof unfold_locales
  fix s t :: ppa and n p
  assume ok: "pool_ok s"
  show "pool_ok (phys_free s p n) \<and> unat (pool_base (phys_free s p n)) = unat (pool_base s) \<and>
      unat (pool_base (phys_free s p n)) + MEMORY_SIZE = unat (pool_base s) + MEMORY_SIZE"
    using ok by (simp add: pool_ok_def)
  show "unat (pool_base s) + MEMORY_SIZE < 2 ^ 64" using ok by (simp add: pool_ok_def)
  assume a: "phys_alloc s n = (p, t)"
  show "pool_ok t \<and> unat (pool_base t) = unat (pool_base s) \<and>
      unat (pool_base t) + MEMORY_SIZE = unat (pool_base s) + MEMORY_SIZE"
    using ok phys_alloc_pool [OF a] by (simp add: pool_ok_def)
  assume "p \<noteq> 0"
  with ok a show "0 < n \<and> 4096 dvd unat p \<and> unat (pool_base s) \<le> unat p \<and>
      unat p + unat n * 4096 \<le> unat (pool_base s) + MEMORY_SIZE"
    by (rule phys_alloc_region)
qed

section \<open>Freeing twice\<close>

lemma xor_pow_neq: "idx XOR 2 ^ k \<noteq> (idx :: nat)"
proof
  assume "idx XOR 2 ^ k = idx"
  then have "bit (idx XOR 2 ^ k) k = bit idx k" by simp
  then show False by (simp add: bit_xor_iff bit_exp_iff)
qed

text \<open>A page whose block is \<open>idx\<close> at \<open>ord\<close> stays in the blocks the loop goes on with.\<close>

lemma buddy_outside:
  fixes p idx :: nat
  assumes "drop_bit k p = drop_bit k idx"
  shows "p \<noteq> idx XOR 2 ^ k"
proof
  assume "p = idx XOR 2 ^ k"
  then have "drop_bit k p = drop_bit k idx XOR 1"
    by (simp add: drop_bit_exp_eq)
  with assms show False using xor_pow_neq [of "drop_bit k idx" 0] by simp
qed

lemma drop_bit_buddy: "drop_bit (Suc k) (idx XOR 2 ^ k) = drop_bit (Suc k) (idx :: nat)"
  by (simp add: drop_bit_exp_eq)

lemma drop_bit_Suc_eq:
  "drop_bit k p = drop_bit k (q :: nat) \<Longrightarrow> drop_bit (Suc k) p = drop_bit (Suc k) q"
  by (metis drop_bit_drop_bit plus_1_eq_Suc)

lemma coalesce_keeps_free:
  "is_free (pm p) \<Longrightarrow> drop_bit ord p = drop_bit ord idx \<Longrightarrow> is_free (coalesce pm ord idx p)"
proof (induction pm ord idx rule: coalesce.induct)
  case (1 pm ord idx)
  have "p \<noteq> idx XOR 2 ^ ord" using "1.prems"(2) by (rule buddy_outside)
  moreover have "drop_bit (Suc ord) p = drop_bit (Suc ord) idx"
    using "1.prems"(2) by (rule drop_bit_Suc_eq)
  moreover have "is_free (merge_buddy pm ord (idx XOR 2 ^ ord) j p)" if "p \<noteq> idx XOR 2 ^ ord" for j
    using "1.prems"(1) that by (simp add: merge_buddy_def Let_def)
  ultimately show ?case
    using 1 by (subst coalesce.simps) (simp add: Let_def drop_bit_buddy del: drop_bit_xor)
qed

lemma phys_free_count: "phys_free s p n = phys_free s p m"
  by (simp add: phys_free_def)

lemma phys_free_idem:
  "phys_free (phys_free s p n) p m = phys_free s p n"
proof -
  define k where "k = unat (p - pool_base s) div PAGE_SIZE"
  have "is_free (page_meta (phys_free s p n) k)" if "phys_free s p n \<noteq> s"
    using that
    by (auto simp: phys_free_def Let_def k_def split: if_splits intro!: coalesce_keeps_free)
  moreover have "initialized (phys_free s p n) = initialized s"
    by (simp add: phys_free_def Let_def)
  ultimately show ?thesis
    using phys_free_count [of s p m n]
    by (cases "phys_free s p n = s")
      (simp_all add: phys_free_def [of "phys_free s p n"] Let_def k_def)
qed

section \<open>The boot state\<close>

lemma init_heads_at:
  "init_heads i pm x =
     (if i \<le> x \<and> x < TOTAL_PAGES \<and> (x - i) mod 1024 = 0 then (pm x)\<lparr>order := 10\<rparr> else pm x)"
proof (induction i pm rule: init_heads.induct)
  case (1 i pm)
  show ?case
  proof (cases "i < TOTAL_PAGES")
    case True
    consider "x < i" | "x = i" | "i < x" "x < i + 1024" | "i + 1024 \<le> x" by linarith
    then show ?thesis
    proof cases
      case 3
      then have "(x - i) mod 1024 = x - i" by simp
      with 3 True "1.IH" show ?thesis by (simp add: init_heads.simps [of i pm] fun_upd_def)
    next
      case 4
      then have "(x - i) mod 1024 = (x - (i + 1024)) mod 1024" by (simp add: le_mod_geq)
      with 4 True "1.IH" show ?thesis by (simp add: init_heads.simps [of i pm] fun_upd_def)
    qed (use True "1.IH" in \<open>simp_all add: init_heads.simps [of i pm] fun_upd_def\<close>)
  next
    case False
    then show ?thesis by (simp add: init_heads.simps [of i pm])
  qed
qed

lemma ppa_init_meta:
  "\<not> initialized s \<Longrightarrow> page_meta (ppa_init s) x =
     \<lparr>order = (if x < TOTAL_PAGES \<and> x mod 1024 = 0 then 10 else 0), is_free = True\<rparr>"
  by (simp add: ppa_init_def init_heads_at)

lemma scan_order_None:
  "(\<And>j. \<not> (is_free (pm j) \<and> order (pm j) = c)) \<Longrightarrow> scan_order pm c i = None"
proof (induction pm c i rule: scan_order.induct)
  case (1 pm c i)
  then show ?case using "1.prems" [of i] by (subst scan_order.simps) auto
qed

lemma find_block_skip:
  "c < MAX_ORDER \<Longrightarrow> (\<And>j. \<not> (is_free (pm j) \<and> order (pm j) = c)) \<Longrightarrow>
   find_block pm c = find_block pm (c + 1)"
  by (simp add: find_block.simps [of pm c] scan_order_None)


definition ppa_boot :: ppa where
  "ppa_boot = \<lparr>pool_base = 0x200000, page_meta = (\<lambda>_. \<lparr>order = 0, is_free = False\<rparr>),
     initialized = False\<rparr>"

lemma pool_ok_boot: "pool_ok ppa_boot"
  by (simp add: pool_ok_def ppa_boot_def)

lemma alloc_first_page:
  assumes "\<not> initialized s"
  shows "phys_alloc s 1 =
    (pool_base s + 4096,
     (ppa_init s)\<lparr>page_meta := (page_meta (ppa_init s))(1 := \<lparr>order = 0, is_free = False\<rparr>)\<rparr>)"
proof -
  note meta = ppa_init_meta [OF assms]
  have "scan_order (page_meta (ppa_init s)) 0 0 = Some 1"
    by (simp add: scan_order.simps meta)
  then have "find_block (page_meta (ppa_init s)) 0 = Some (0, 1)"
    by (simp add: find_block.simps)
  then show ?thesis
    using assms meta
    by (simp add: phys_alloc_def find_order.simps split_block.simps ppa_init_pool Let_def)
qed

lemma alloc_two_pages:
  assumes "\<not> initialized s" and s1: "s1 = (ppa_init s)\<lparr>page_meta := (page_meta (ppa_init s))
      (1 := \<lparr>order = 0, is_free = False\<rparr>)\<rparr>"
  shows "fst (phys_alloc s1 2) = pool_base s"
proof -
  have init: "initialized s1" and base: "pool_base s1 = pool_base s"
    using s1 by (simp_all add: ppa_init_def)
  have skip: "find_block (page_meta s1) c = find_block (page_meta s1) (c + 1)" if "0 < c" "c < 10" for c
    by (rule find_block_skip) (use that s1 ppa_init_meta [OF assms(1)] in auto)
  have ten: "find_block (page_meta s1) 10 = Some (10, 0)"
    by (simp add: find_block.simps scan_order.simps s1 ppa_init_meta [OF assms(1)])
  have up: "find_block (page_meta s1) c = find_block (page_meta s1) 10" if "0 < c" "c \<le> 10" for c
    using that(2,1)
  proof (induction rule: inc_induct)
    case (step n)
    with skip [of n] show ?case by simp
  qed simp
  have "find_block (page_meta s1) (Suc 0) = Some (10, 0)" using up [of 1] ten by simp
  then show ?thesis
    using init base by (simp add: phys_alloc_def find_order.simps Let_def)
qed

section \<open>Properties\<close>

text \<open>
  C37. Every successful allocation stays in the pool: a non-null pointer is page aligned and the
  requested pages lie between the start and the end of the 64 MB pool, whatever the state of
  the page metadata. (The pool of the linked kernel does not start at 0 and does not wrap.)
\<close>

theorem phys_alloc_in_pool:
  assumes "pool_ok s" and "phys_alloc s n = (p, t)" and "p \<noteq> 0"
  shows "0 < n \<and> 4096 dvd unat p \<and> unat (pool_base s) \<le> unat p \<and>
    unat p + unat n * 4096 \<le> unat (pool_base s) + MEMORY_SIZE \<and> pool_ok t"
  using phys_alloc_region [OF assms] ppa.alloc_inv [OF assms(1,2)] by blast

theorem phys_alloc_in_pool_witness:
  "4096 dvd unat (0x201000 :: u64) \<and>
   unat (0x201000 :: u64) + unat (1 :: usize) * 4096 \<le> unat (pool_base ppa_boot) + MEMORY_SIZE"
proof -
  obtain t where t: "phys_alloc ppa_boot 1 = (0x201000, t)"
    using alloc_first_page [of ppa_boot] by (simp add: ppa_boot_def)
  show ?thesis using phys_alloc_in_pool [OF pool_ok_boot t] by simp
qed

text \<open>
  Freeing is idempotent: a second \<open>phys_free\<close> of the same pointer changes nothing, with
  any page counts, in any state.
\<close>

theorem phys_free_twice: "phys_free (phys_free s p n) p m = phys_free s p n"
  by (rule phys_free_idem)

text \<open>
  The allocator hands out overlapping regions: from the initial state, a request for one
  page returns page 1 of the pool, and the next request, for two pages, returns the region
  that starts at page 0 and so contains page 1, which is still allocated. (Initialisation
  marks the inner pages of every 4 MB block as free blocks of order 0.)
\<close>

theorem phys_alloc_overlap:
  assumes "\<not> initialized s"
  shows "\<exists>t u. phys_alloc s 1 = (pool_base s + 4096, t) \<and> phys_alloc t 2 = (pool_base s, u)"
proof -
  let ?t = "(ppa_init s)\<lparr>page_meta := (page_meta (ppa_init s))(1 := \<lparr>order = 0, is_free = False\<rparr>)\<rparr>"
  have "phys_alloc s 1 = (pool_base s + 4096, ?t)" by (rule alloc_first_page [OF assms])
  moreover have "phys_alloc ?t 2 = (pool_base s, snd (phys_alloc ?t 2))"
    using alloc_two_pages [OF assms refl] by (metis prod.collapse)
  ultimately show ?thesis by blast
qed

theorem phys_alloc_overlap_witness:
  "\<not> initialized ppa_boot \<and>
   (\<exists>t u. phys_alloc ppa_boot 1 = (0x201000, t) \<and> phys_alloc t 2 = (0x200000, u))"
proof -
  have h: "\<not> initialized ppa_boot" by (simp add: ppa_boot_def)
  with phys_alloc_overlap [OF h] show ?thesis by (simp add: ppa_boot_def)
qed

end
