(* ===== verification/Machine.thy ===== *)
theory Machine
  imports Ppa
begin

text \<open>
  The machine below the Rust core: one flat memory, the page allocator, the 4-level page
  tables of \<open>arch/x86_64/mm/paging.zig\<close>, CR3, and the primary ATA disk of \<open>drivers/ata.zig\<close>.
  Page tables live in the flat memory as they do on the machine. The TLB has no counterpart.
  A loop that halts the CPU for ever is the outcome \<open>Panic\<close>, and so is a failed runtime check
  of Zig. The checks are there in the builds \<open>zig build\<close> and \<open>build.sh\<close> make (Debug and
  ReleaseSafe) and not in the others; the field \<open>zig_safety\<close> says which build runs.
\<close>

section \<open>State\<close>

record machine =
  mem :: memory
  phys :: ppa
  kernel_paging :: "u64 option"
  paging_initialized :: bool
  cr3 :: u64
  disk :: "nat \<Rightarrow> u8"
  zig_safety :: bool

definition PF_PRESENT :: u64 where "PF_PRESENT = 1"
definition PF_WRITABLE :: u64 where "PF_WRITABLE = 2"
definition PF_USER :: u64 where "PF_USER = 4"
definition PF_NO_EXECUTE :: u64 where "PF_NO_EXECUTE = 0x8000000000000000"
definition PHYS_ADDR_MASK :: u64 where "PHYS_ADDR_MASK = 0x000FFFFFFFFFF000"

lemmas pf_defs = PF_PRESENT_def PF_WRITABLE_def PF_USER_def PF_NO_EXECUTE_def PHYS_ADDR_MASK_def

definition palloc :: "machine \<Rightarrow> usize \<Rightarrow> u64 \<times> machine" where
  "palloc m pages = (let (p, s) = phys_alloc (phys m) pages in (p, m\<lparr>phys := s\<rparr>))"

definition pfree :: "machine \<Rightarrow> u64 \<Rightarrow> usize \<Rightarrow> machine" where
  "pfree m p pages = m\<lparr>phys := phys_free (phys m) p pages\<rparr>"

section \<open>Page tables\<close>

record va_indices =
  va_pml4 :: u64
  va_pdpt :: u64
  va_pd :: u64
  va_pt :: u64
  va_off :: u64

definition va_split :: "u64 \<Rightarrow> va_indices" where
  "va_split vaddr = \<lparr>
     va_pml4 = drop_bit 39 vaddr AND 0x1FF,
     va_pdpt = drop_bit 30 vaddr AND 0x1FF,
     va_pd = drop_bit 21 vaddr AND 0x1FF,
     va_pt = drop_bit 12 vaddr AND 0x1FF,
     va_off = vaddr AND 0xFFF\<rparr>"

text \<open>The address of an entry of a table, and a zeroed table page.\<close>

definition entry_addr :: "u64 \<Rightarrow> u64 \<Rightarrow> u64" where
  "entry_addr table i = table + 8 * i"

definition zero_table :: "machine \<Rightarrow> u64 \<Rightarrow> machine" where
  "zero_table m a = m\<lparr>mem := mem_write (mem m) a (replicate 4096 0)\<rparr>"

definition set_entry :: "machine \<Rightarrow> u64 \<Rightarrow> u64 \<Rightarrow> machine" where
  "set_entry m a v = m\<lparr>mem := write_u64 (mem m) a v\<rparr>"

text \<open>
  \<open>@ptrFromInt\<close> to a table pointer, which must not be null, and to the \<open>*const u64\<close> of \<open>invlpg\<close>,
  which must not be null and must be aligned.
\<close>

definition table_ptr :: "machine \<Rightarrow> u64 \<Rightarrow> u64 outcome" where
  "table_ptr m a = (if zig_safety m \<and> a = 0 then Panic else Ret a)"

definition invlpg :: "machine \<Rightarrow> u64 \<Rightarrow> machine outcome" where
  "invlpg m vaddr = (if zig_safety m \<and> (vaddr = 0 \<or> vaddr AND 7 \<noteq> 0) then Panic else Ret m)"

text \<open>\<open>ensure_table\<close>: \<open>None\<close> is \<open>error.OutOfMemory\<close>.\<close>

definition ensure_table :: "machine \<Rightarrow> u64 \<Rightarrow> (u64 option \<times> machine) outcome" where
  "ensure_table m entry =
     (let e = read_u64 (mem m) entry
      in if e AND PF_PRESENT \<noteq> 0
         then obind (table_ptr m (e AND PHYS_ADDR_MASK)) (\<lambda>t. Ret (Some t, m))
         else let (raw, m1) = palloc m 1
              in if raw = 0 then Ret (None, m1)
                 else Ret (Some raw,
                       set_entry (zero_table m1 raw) entry
                         (raw OR PF_PRESENT OR PF_WRITABLE OR PF_USER)))"

text \<open>\<open>PagingContext.map\<close>; the Boolean is success.\<close>

definition pg_map :: "machine \<Rightarrow> u64 \<Rightarrow> u64 \<Rightarrow> u64 \<Rightarrow> u64 \<Rightarrow> (bool \<times> machine) outcome" where
  "pg_map m pml4 virtual_addr physical_addr flags =
     (let va = va_split virtual_addr in
      obind (ensure_table m (entry_addr pml4 (va_pml4 va))) (\<lambda>(r1, m1).
      case r1 of None \<Rightarrow> Ret (False, m1) | Some pdpt \<Rightarrow>
      obind (ensure_table m1 (entry_addr pdpt (va_pdpt va))) (\<lambda>(r2, m2).
      case r2 of None \<Rightarrow> Ret (False, m2) | Some pd \<Rightarrow>
      obind (ensure_table m2 (entry_addr pd (va_pd va))) (\<lambda>(r3, m3).
      case r3 of None \<Rightarrow> Ret (False, m3) | Some pt \<Rightarrow>
        obind (invlpg (set_entry m3 (entry_addr pt (va_pt va))
                 ((physical_addr AND PHYS_ADDR_MASK) OR flags OR PF_PRESENT)) virtual_addr)
          (\<lambda>m4. Ret (True, m4))))))"

text \<open>\<open>PagingContext.unmap\<close>.\<close>

definition pg_unmap :: "machine \<Rightarrow> u64 \<Rightarrow> u64 \<Rightarrow> machine outcome" where
  "pg_unmap m pml4 virtual_addr =
     (let va = va_split virtual_addr;
          pml4e = read_u64 (mem m) (entry_addr pml4 (va_pml4 va))
      in if pml4e AND PF_PRESENT = 0 then Ret m
         else obind (table_ptr m (pml4e AND PHYS_ADDR_MASK)) (\<lambda>pdpt.
         let pdpte = read_u64 (mem m) (entry_addr pdpt (va_pdpt va))
         in if pdpte AND PF_PRESENT = 0 then Ret m
         else obind (table_ptr m (pdpte AND PHYS_ADDR_MASK)) (\<lambda>pd.
         let pde = read_u64 (mem m) (entry_addr pd (va_pd va))
         in if pde AND PF_PRESENT = 0 then Ret m
         else obind (table_ptr m (pde AND PHYS_ADDR_MASK)) (\<lambda>pt.
           invlpg (set_entry m (entry_addr pt (va_pt va)) 0) virtual_addr))))"

text \<open>
  The kernel address space: a PML4 whose entry 0 leads to a PDPT that identity-maps the first
  2 GB with two 1 GB pages. Out of memory halts the machine.
\<close>

definition paging_global_init :: "machine \<Rightarrow> machine outcome" where
  "paging_global_init m =
     (if paging_initialized m then Ret m
      else let (pml4, m1) = palloc m 1
      in if pml4 = 0 then Hang
      else let m2 = (zero_table m1 pml4)\<lparr>kernel_paging := Some pml4\<rparr>;
               (pdpt, m3) = palloc m2 1
      in if pdpt = 0 then Hang
      else let m4 = zero_table m3 pdpt;
               m5 = set_entry m4 (entry_addr pdpt 0) 0x83;
               m6 = set_entry m5 (entry_addr pdpt 1) (0x40000000 OR 0x83);
               m7 = set_entry m6 (entry_addr pml4 0) (pdpt OR PF_PRESENT OR PF_WRITABLE)
      in Ret (m7\<lparr>cr3 := pml4, paging_initialized := True\<rparr>))"

text \<open>The flag translation of \<open>page_table_map\<close>: bit 0 writable, bit 1 user, bit 2 executable.\<close>

definition pte_flags_of :: "u32 \<Rightarrow> u64" where
  "pte_flags_of flags =
     (if flags AND 1 \<noteq> 0 then PF_WRITABLE else 0) OR
     (if flags AND 2 \<noteq> 0 then PF_USER else 0) OR
     (if flags AND 4 = 0 then PF_NO_EXECUTE else 0)"

definition page_table_map :: "machine \<Rightarrow> usize \<Rightarrow> usize \<Rightarrow> u32 \<Rightarrow> (i32 \<times> machine) outcome" where
  "page_table_map m virtual_addr physical_addr flags =
     obind (if paging_initialized m then Ret m else paging_global_init m) (\<lambda>m1.
       case kernel_paging m1 of
         None \<Rightarrow> Ret (-1, m1)
       | Some pml4 \<Rightarrow>
           obind (pg_map m1 pml4 virtual_addr physical_addr (pte_flags_of flags))
             (\<lambda>(ok, m2). Ret (if ok then 0 else -1, m2)))"

definition page_table_unmap :: "machine \<Rightarrow> usize \<Rightarrow> machine outcome" where
  "page_table_unmap m virtual_addr =
     obind (if paging_initialized m then Ret m else paging_global_init m) (\<lambda>m1.
       case kernel_paging m1 of
         None \<Rightarrow> Ret m1
       | Some pml4 \<Rightarrow> pg_unmap m1 pml4 virtual_addr)"

definition switch_page_directory :: "machine \<Rightarrow> usize \<Rightarrow> machine" where
  "switch_page_directory m phys_addr = m\<lparr>cr3 := phys_addr\<rparr>"

section \<open>Loops over pages\<close>

text \<open>
  \<open>map_pages m v p flags n\<close>: the loop shared by the Rust callers that map \<open>n\<close> consecutive
  pages and ignore the result code; \<open>unmap_pages\<close> the loop of the expiry path.
\<close>

definition map_pages :: "usize \<Rightarrow> usize \<Rightarrow> u32 \<Rightarrow> nat \<Rightarrow> machine \<Rightarrow> machine outcome" where
  "map_pages v p flags pages =
     ofold (\<lambda>i m. obind (page_table_map m (v + of_nat i * 4096) (p + of_nat i * 4096) flags)
                    (\<lambda>(_, m1). Ret m1)) [0..<pages]"

definition unmap_pages :: "usize \<Rightarrow> nat \<Rightarrow> machine \<Rightarrow> machine outcome" where
  "unmap_pages v pages = ofold (\<lambda>i m. page_table_unmap m (v + of_nat i * 4096)) [0..<pages]"

section \<open>The ATA disk\<close>

text \<open>
  \<open>ata_read_sectors\<close> and \<open>ata_write_sectors\<close>: 512-byte sectors of the primary drive, with the
  28-bit LBA the port writes select. The drive is taken to answer every command.
\<close>

definition lba28 :: "u32 \<Rightarrow> nat" where
  "lba28 lba = unat (lba AND 0x0FFFFFFF)"

definition ata_read_sectors :: "(nat \<Rightarrow> u8) \<Rightarrow> u32 \<Rightarrow> u8 \<Rightarrow> bytes" where
  "ata_read_sectors d lba sector_count =
     map (\<lambda>i. d (512 * lba28 lba + i)) [0..<512 * unat sector_count]"

definition ata_write_sectors :: "(nat \<Rightarrow> u8) \<Rightarrow> u32 \<Rightarrow> u8 \<Rightarrow> bytes \<Rightarrow> nat \<Rightarrow> u8" where
  "ata_write_sectors d lba sector_count src =
     (\<lambda>a. if 512 * lba28 lba \<le> a \<and> a < 512 * lba28 lba + 512 * unat sector_count
          then src ! (a - 512 * lba28 lba) else d a)"

section \<open>Frame and totality lemmas\<close>

text \<open>
  The well-formedness the kernel keeps: the pool is placed sensibly and paging is up, as
  \<open>kernel_main\<close> leaves it before the Rust core runs.
\<close>

definition machine_ok :: "machine \<Rightarrow> bool" where
  "machine_ok m \<longleftrightarrow> pool_ok (phys m) \<and> paging_initialized m \<and> kernel_paging m \<noteq> None"

lemma palloc_frame [frame_simps]:
  "palloc m n = (p, m1) \<Longrightarrow> mem m1 = mem m \<and> kernel_paging m1 = kernel_paging m \<and>
     paging_initialized m1 = paging_initialized m \<and> cr3 m1 = cr3 m \<and> disk m1 = disk m \<and>
     zig_safety m1 = zig_safety m"
  by (auto simp: palloc_def split: prod.splits)

lemma palloc_ok [intro]: "machine_ok m \<Longrightarrow> palloc m n = (p, m1) \<Longrightarrow> machine_ok m1"
  using ppa.alloc_inv by (fastforce simp: palloc_def machine_ok_def split: prod.splits)

lemma pfree_ok [intro, simp]: "machine_ok m \<Longrightarrow> machine_ok (pfree m p n)"
  by (simp add: pfree_def machine_ok_def ppa.free_inv)

lemma set_entry_ok [simp]: "machine_ok (set_entry m a v) = machine_ok m"
  by (simp add: set_entry_def machine_ok_def)

lemma zero_table_ok [simp]: "machine_ok (zero_table m a) = machine_ok m"
  by (simp add: zero_table_def machine_ok_def)

lemma mem_upd_ok [simp]: "machine_ok (m\<lparr>mem := f\<rparr>) = machine_ok m"
  by (simp add: machine_ok_def)

lemma switch_ok [simp]: "machine_ok (switch_page_directory m a) = machine_ok m"
  by (simp add: switch_page_directory_def machine_ok_def)

lemma disk_upd_ok [simp]: "machine_ok (m\<lparr>disk := f\<rparr>) = machine_ok m"
  by (simp add: machine_ok_def)

lemma init_frame [simp]:
  "paging_initialized (set_entry m a v) = paging_initialized m"
  "paging_initialized (zero_table m a) = paging_initialized m"
  by (simp_all add: set_entry_def zero_table_def)

lemma safety_frame [simp]:
  "zig_safety (set_entry m a v) = zig_safety m" "zig_safety (zero_table m a) = zig_safety m"
  "zig_safety (pfree m p n) = zig_safety m" "zig_safety (switch_page_directory m a) = zig_safety m"
  by (simp_all add: set_entry_def zero_table_def pfree_def switch_page_directory_def)

lemma invlpg_Ret [outcome_simps]:
  "invlpg m v = Ret m1 \<longleftrightarrow> m1 = m \<and> \<not> (zig_safety m \<and> (v = 0 \<or> v AND 7 \<noteq> 0))"
  by (auto simp: invlpg_def)

lemma table_ptr_Ret [outcome_simps]:
  "table_ptr m a = Ret t \<longleftrightarrow> t = a \<and> \<not> (zig_safety m \<and> a = 0)"
  by (auto simp: table_ptr_def)

text \<open>
  What the callers need of an operation on the machine once paging is up: it returns or panics,
  it panics only in a build with the checks, and it keeps the machine well formed and the build.
\<close>

definition sound :: "machine \<Rightarrow> machine outcome \<Rightarrow> bool" where
  "sound m x \<longleftrightarrow> paging_initialized m \<longrightarrow>
     (case x of Ret m1 \<Rightarrow> paging_initialized m1 \<and> (machine_ok m \<longrightarrow> machine_ok m1) \<and>
          zig_safety m1 = zig_safety m
      | Panic \<Rightarrow> zig_safety m | Undef \<Rightarrow> False | Hang \<Rightarrow> False)"

abbreviation sound_res :: "machine \<Rightarrow> ('a \<times> machine) outcome \<Rightarrow> bool" where
  "sound_res m x \<equiv> sound m (obind x (\<lambda>(_, m1). Ret m1))"

lemma sound_Ret [simp]:
  "sound m (Ret m1) \<longleftrightarrow> paging_initialized m \<longrightarrow>
     paging_initialized m1 \<and> (machine_ok m \<longrightarrow> machine_ok m1) \<and> zig_safety m1 = zig_safety m"
  by (simp add: sound_def)

lemma sound_obind:
  assumes "sound_res m x" and "\<And>r m1. sound m1 (f (r, m1))"
  shows "sound m (obind x f)"
proof (cases x)
  case (Ret p)
  with assms show ?thesis by (cases p) (force simp: sound_def split: outcome.splits)
qed (use assms(1) in \<open>simp_all add: sound_def\<close>)

lemma sound_fold:
  assumes "\<And>i s. sound s (f i s)"
  shows "sound m (ofold f xs m)"
proof (induction xs arbitrary: m)
  case (Cons i xs)
  show ?case
  proof (cases "f i m")
    case (Ret m1)
    with assms [of m i] Cons [of m1] show ?thesis by (force simp: sound_def split: outcome.splits)
  qed (use assms [of m i] in \<open>simp_all add: sound_def\<close>)
qed simp

text \<open>The three forms in which the callers use it.\<close>

definition machine_fast :: "machine \<Rightarrow> bool" where
  "machine_fast m \<longleftrightarrow> machine_ok m \<and> \<not> zig_safety m"

lemma sound_cases: "sound m x \<Longrightarrow> machine_ok m \<Longrightarrow> x = Panic \<or> (\<exists>m1. x = Ret m1 \<and> machine_ok m1)"
  by (cases x) (simp_all add: sound_def machine_ok_def)

lemma sound_ok: "sound m (Ret m1) \<Longrightarrow> machine_ok m \<Longrightarrow> machine_ok m1"
  by (simp add: machine_ok_def)

lemma sound_fast: "sound m x \<Longrightarrow> machine_fast m \<Longrightarrow> \<exists>m1. x = Ret m1 \<and> machine_fast m1"
  by (cases x) (simp_all add: sound_def machine_fast_def machine_ok_def)

lemma ensure_table_sound: "sound_res m (ensure_table m a)"
proof -
  obtain raw m1 where p: "palloc m 1 = (raw, m1)" by fastforce
  then have "machine_ok m \<Longrightarrow> machine_ok m1" "zig_safety m1 = zig_safety m"
      "paging_initialized m1 = paging_initialized m"
    using palloc_frame [OF p] by auto
  with p show ?thesis by (auto simp: ensure_table_def Let_def sound_def table_ptr_def)
qed

lemma invlpg_sound: "sound m (invlpg (set_entry m a e) v)"
  by (simp add: invlpg_def sound_def)

lemma sound_ensure:
  assumes "\<And>u m1. sound_res m1 (g u m1)"
  shows "sound_res m (obind (ensure_table m a)
    (\<lambda>(r, m1). case r of None \<Rightarrow> Ret (False, m1) | Some u \<Rightarrow> g u m1))"
  unfolding obind_assoc
  by (rule sound_obind [OF ensure_table_sound]) (use assms in \<open>simp split: option.split\<close>)

lemma pg_map_sound: "sound_res m (pg_map m r v p f)"
  unfolding pg_map_def Let_def
  by (intro sound_ensure) (simp add: invlpg_def sound_def)

lemma pg_unmap_sound: "sound m (pg_unmap m r v)"
  by (auto simp: pg_unmap_def Let_def table_ptr_def invlpg_def sound_def)

lemma page_table_map_sound: "sound_res m (page_table_map m v p f)"
proof (cases "paging_initialized m")
  case True
  show ?thesis
  proof (cases "kernel_paging m")
    case (Some r)
    have "sound m (obind (pg_map m r v p (pte_flags_of f))
        (\<lambda>x. obind (case x of (ok, m2) \<Rightarrow> Ret (if ok then 0 else -1, m2)) (\<lambda>(_, m1). Ret m1)))"
      by (rule sound_obind [OF pg_map_sound]) simp
    then show ?thesis using True Some by (simp add: page_table_map_def obind_assoc)
  qed (use True in \<open>simp add: page_table_map_def\<close>)
qed (simp add: sound_def)

lemma page_table_unmap_sound: "sound m (page_table_unmap m v)"
proof (cases "paging_initialized m")
  case True
  then show ?thesis using pg_unmap_sound by (auto simp: page_table_unmap_def split: option.split)
qed (simp add: sound_def)

lemma map_pages_sound: "sound m (map_pages v p f n m)"
  unfolding map_pages_def by (rule sound_fold) (rule page_table_map_sound)

lemma unmap_pages_sound: "sound m (unmap_pages v n m)"
  unfolding unmap_pages_def by (rule sound_fold) (rule page_table_unmap_sound)

lemma page_table_map_rc: "page_table_map m v p f = Ret (rc, m1) \<Longrightarrow> rc \<in> {0, -1}"
  by (auto simp: page_table_map_def obind_eq_Ret split: option.splits if_splits)

lemma page_table_map_cases:
  assumes "machine_ok m"
  shows "page_table_map m v p f = Panic \<or>
    (\<exists>rc m1. page_table_map m v p f = Ret (rc, m1) \<and> machine_ok m1 \<and> rc \<in> {0, -1})"
proof -
  from sound_cases [OF page_table_map_sound [of m v p f] assms]
  consider "page_table_map m v p f = Panic"
    | rc m1 where "page_table_map m v p f = Ret (rc, m1)" "machine_ok m1"
    by (auto simp: outcome_simps)
  then show ?thesis by cases (use page_table_map_rc in blast)+
qed

lemmas map_pages_cases = sound_cases [OF map_pages_sound]
lemmas map_pages_returns = sound_fast [OF map_pages_sound]
lemmas page_table_unmap_returns = sound_fast [OF page_table_unmap_sound]
lemmas unmap_pages_returns = sound_fast [OF unmap_pages_sound]

lemma map_pages_ok: "map_pages v p f n m = Ret m1 \<Longrightarrow> machine_ok m \<Longrightarrow> machine_ok m1"
  using map_pages_sound [of m v p f n] by (simp add: machine_ok_def)

lemma unmap_pages_ok: "unmap_pages v n m = Ret m1 \<Longrightarrow> machine_ok m \<Longrightarrow> machine_ok m1"
  using unmap_pages_sound [of m v n] by (simp add: machine_ok_def)

lemma machine_fast_ok: "machine_fast m \<Longrightarrow> machine_ok m"
  by (simp add: machine_fast_def)

lemma pfree_fast [simp]: "machine_fast m \<Longrightarrow> machine_fast (pfree m p n)"
  by (simp add: machine_fast_def)

lemma palloc_fast: "machine_fast m \<Longrightarrow> palloc m n = (p, m1) \<Longrightarrow> machine_fast m1"
  using palloc_frame [of m n p m1] by (auto simp: machine_fast_def)

text \<open>The leaf entry that a successful mapping leaves behind.\<close>

lemma page_table_map_leaf:
  assumes "page_table_map m v p f = Ret (0, m1)" and "paging_initialized m"
  obtains pt where "read_u64 (mem m1) (entry_addr pt (va_pt (va_split v))) =
      (p AND PHYS_ADDR_MASK) OR pte_flags_of f OR PF_PRESENT"
proof -
  from assms obtain r where "pg_map m r v p (pte_flags_of f) = Ret (True, m1)"
    by (auto simp: page_table_map_def outcome_simps split: option.splits if_splits)
  then obtain m3 pt where "m1 = set_entry m3 (entry_addr pt (va_pt (va_split v)))
      ((p AND PHYS_ADDR_MASK) OR pte_flags_of f OR PF_PRESENT)"
    by (auto simp: pg_map_def Let_def outcome_simps split: option.splits)
  then show thesis by (intro that [of pt]) (simp add: set_entry_def)
qed

text \<open>A machine with paging up, for examples.\<close>

definition machine_demo :: machine where
  "machine_demo = \<lparr>mem = (\<lambda>_. 0), phys = ppa_boot, kernel_paging = Some 0x100000,
     paging_initialized = True, cr3 = 0x100000, disk = (\<lambda>_. 0),
     zig_safety = False\<rparr>"

lemma machine_demo_fast: "machine_fast machine_demo"
  by (simp add: machine_fast_def machine_ok_def machine_demo_def pool_ok_boot)

lemma machine_demo_ok: "machine_ok machine_demo"
  using machine_demo_fast by (rule machine_fast_ok)

end
