(* ===== verification/Driver.thy ===== *)
theory Driver
  imports Machine Rust_Str
begin

text \<open>
  The character devices of \<open>kernel/src/driver.rs\<close>. The trait \<open>CharDriver\<close> is the locale
  \<open>char_device\<close>; \<open>Box<dyn CharDriver>\<close> is a datatype with one constructor per implementation,
  and dynamic dispatch is the case split of \<open>drv_read\<close> and \<open>drv_write\<close>, which interpret the
  locale. Disk contents are passed and returned explicitly.
\<close>

section \<open>Devices\<close>

type_synonym disk_data = "nat \<Rightarrow> u8"

datatype driver =
    NullDriver
  | UrandomDriver
  | Fb0Driver bytes
  | AtaDriver

record driver_manager =
  drivers :: "rstr \<rightharpoonup> driver"

abbreviation len64 :: "'a list \<Rightarrow> usize" where
  "len64 xs \<equiv> of_nat (length xs)"

text \<open>\<open>/dev/urandom\<close>: a linear congruential generator seeded with the request size.\<close>

primrec urandom_bytes :: "nat \<Rightarrow> u64 \<Rightarrow> bytes" where
  "urandom_bytes 0 st = []"
| "urandom_bytes (Suc n) st =
     (let st' = st * 6364136223846793005 + 1442695040888963407
      in ucast (drop_bit 33 st') # urandom_bytes n st')"

definition urandom_read :: "usize \<Rightarrow> bytes" where
  "urandom_read sz = urandom_bytes (unat sz) (sz XOR 0xDEADBEEFCAFEBABE)"

text \<open>\<open>/dev/fb0\<close>.\<close>

definition fb0_read :: "bytes \<Rightarrow> usize \<Rightarrow> usize \<Rightarrow> bytes outcome" where
  "fb0_read buf offset sz =
     (if offset \<ge> len64 buf then Ret []
      else let limit = min (offset + sz) (len64 buf)
           in subslice buf (unat offset) (unat limit))"

definition fb0_write :: "bytes \<Rightarrow> usize \<Rightarrow> bytes \<Rightarrow> (usize \<times> bytes) outcome" where
  "fb0_write buf offset data =
     (if offset \<ge> len64 buf then Ret (0, buf)
      else let limit = min (offset + len64 data) (len64 buf);
               write_len = limit - offset
           in obind (subslice data 0 (unat write_len)) (\<lambda>src.
              obind (copy_into buf (unat offset) (unat limit) src) (\<lambda>buf'.
                Ret (write_len, buf'))))"

text \<open>\<open>/dev/hda\<close>: whole sectors are read, and for a write modified and written back.\<close>

definition ata_span :: "usize \<Rightarrow> usize \<Rightarrow> u32 \<times> u8" where
  "ata_span offset sz =
     (let start_lba = ucast (offset div 512) :: u32;
          end_lba = ucast ((offset + sz + 511) div 512) :: u32
      in (start_lba, ucast (end_lba - start_lba)))"

definition ata_read :: "disk_data \<Rightarrow> usize \<Rightarrow> usize \<Rightarrow> bytes outcome" where
  "ata_read d offset sz =
     (let (start_lba, sector_count) = ata_span offset sz;
          buf = ata_read_sectors d start_lba sector_count;
          start_idx = offset mod 512;
          end_idx = start_idx + sz
      in subslice buf (unat start_idx) (unat end_idx))"

definition ata_write :: "disk_data \<Rightarrow> usize \<Rightarrow> bytes \<Rightarrow> (usize \<times> disk_data) outcome" where
  "ata_write d offset data =
     (let (start_lba, sector_count) = ata_span offset (len64 data);
          buf = ata_read_sectors d start_lba sector_count;
          start_idx = offset mod 512;
          end_idx = start_idx + len64 data
      in obind (copy_into buf (unat start_idx) (unat end_idx) data) (\<lambda>buf'.
           Ret (len64 data, ata_write_sectors d start_lba sector_count buf')))"

section \<open>Dynamic dispatch\<close>

datatype dev_error = DevError

fun drv_open :: "driver \<Rightarrow> dev_error + unit" where
  "drv_open NullDriver = Inr ()"
| "drv_open UrandomDriver = Inr ()"
| "drv_open (Fb0Driver buf) = Inr ()"
| "drv_open AtaDriver = Inr ()"

fun drv_read :: "driver \<Rightarrow> disk_data \<Rightarrow> usize \<Rightarrow> usize \<Rightarrow> bytes outcome" where
  "drv_read NullDriver d offset sz = Ret []"
| "drv_read UrandomDriver d offset sz = Ret (urandom_read sz)"
| "drv_read (Fb0Driver buf) d offset sz = fb0_read buf offset sz"
| "drv_read AtaDriver d offset sz = ata_read d offset sz"

fun drv_write :: "driver \<Rightarrow> disk_data \<Rightarrow> usize \<Rightarrow> bytes \<Rightarrow> (usize \<times> driver \<times> disk_data) outcome" where
  "drv_write NullDriver d offset data = Ret (len64 data, NullDriver, d)"
| "drv_write UrandomDriver d offset data = Ret (len64 data, UrandomDriver, d)"
| "drv_write (Fb0Driver buf) d offset data =
     obind (fb0_write buf offset data) (\<lambda>(n, buf'). Ret (n, Fb0Driver buf', d))"
| "drv_write AtaDriver d offset data =
     obind (ata_write d offset data) (\<lambda>(n, d'). Ret (n, AtaDriver, d'))"

section \<open>The manager\<close>

definition driver_manager_new :: driver_manager where
  "driver_manager_new = \<lparr>drivers = [
     lit ''/dev/null'' \<mapsto> NullDriver,
     lit ''/dev/urandom'' \<mapsto> UrandomDriver,
     lit ''/dev/fb0'' \<mapsto> Fb0Driver (replicate 4096 0),
     lit ''/dev/hda'' \<mapsto> AtaDriver]\<rparr>"

definition is_device :: "driver_manager \<Rightarrow> rstr \<Rightarrow> bool" where
  "is_device dm path \<longleftrightarrow> drivers dm path \<noteq> None"

definition read_device ::
    "driver_manager \<Rightarrow> disk_data \<Rightarrow> rstr \<Rightarrow> usize \<Rightarrow> usize \<Rightarrow> bytes option outcome" where
  "read_device dm d path offset sz =
     (case drivers dm path of
        None \<Rightarrow> Ret None
      | Some drv \<Rightarrow> obind (drv_read drv d offset sz) (\<lambda>bs. Ret (Some bs)))"

definition write_device ::
    "driver_manager \<Rightarrow> disk_data \<Rightarrow> rstr \<Rightarrow> usize \<Rightarrow> bytes
       \<Rightarrow> (usize option \<times> driver_manager \<times> disk_data) outcome" where
  "write_device dm d path offset data =
     (case drivers dm path of
        None \<Rightarrow> Ret (None, dm, d)
      | Some drv \<Rightarrow> obind (drv_write drv d offset data) (\<lambda>(n, drv', d').
          Ret (Some n, dm\<lparr>drivers := (drivers dm)(path \<mapsto> drv')\<rparr>, d')))"

section \<open>Lemmas on the sector arithmetic\<close>

text \<open>The number of sectors a request touches, on natural numbers.\<close>

definition sectors :: "nat \<Rightarrow> nat \<Rightarrow> nat" where
  "sectors off n = (off + n + 511) div 512 - off div 512"

lemma length_urandom [simp]: "length (urandom_bytes n st) = n"
  by (induction n arbitrary: st) (simp_all add: Let_def)

lemma sectors_mod: "sectors off n = (off mod 512 + n + 511) div 512"
proof -
  have "off + n + 511 = off mod 512 + n + 511 + (off div 512) * 512"
    using div_mult_mod_eq [of off 512] by linarith
  then have "(off + n + 511) div 512 = off div 512 + (off mod 512 + n + 511) div 512"
    by (metis add.commute div_mult_self1 zero_neq_numeral)
  then show ?thesis by (simp add: sectors_def)
qed

lemma sectors_cover: "off mod 512 + n \<le> 512 * sectors off n"
  unfolding sectors_mod
  using mult_div_mod_eq [of 512 "off mod 512 + n + 511"] mod_less_divisor [of 512 "off mod 512 + n + 511"]
  by linarith

lemma sectors_tight: "512 * sectors off n < off mod 512 + n + 512"
  unfolding sectors_mod
  using mult_div_mod_eq [of 512 "off mod 512 + n + 511"] by linarith

lemma ata_span_nat:
  assumes "unat offset + unat sz \<le> 2 ^ 37"
  shows "ata_span offset sz =
    (of_nat (unat offset div 512), of_nat (sectors (unat offset) (unat sz)))"
proof -
  define o' n where "o' = unat offset" and "n = unat sz"
  have b: "o' + n \<le> 2 ^ 37" using assms by (simp add: o'_def n_def)
  have "unat (offset + sz) = o' + n"
    using b by (subst unat_add64) (simp_all add: o'_def n_def)
  then have e: "unat (offset + sz + 511) = o' + n + 511"
    using b by (subst unat_add64) simp_all
  have s: "(ucast (offset div 512) :: u32) = of_nat (o' div 512)"
    by (simp only: ucast_as_of_nat unat_div o'_def) simp
  have en: "(ucast ((offset + sz + 511) div 512) :: u32) = of_nat ((o' + n + 511) div 512)"
    by (simp only: ucast_as_of_nat unat_div e) simp
  have le: "o' div 512 \<le> (o' + n + 511) div 512" by (intro div_le_mono) simp
  have d: "(of_nat ((o' + n + 511) div 512) - of_nat (o' div 512) :: u32) = of_nat (sectors o' n)"
    unfolding sectors_def by (rule of_nat_diff [symmetric, OF le])
  have "512 * sectors o' n < 2 ^ 37 + 1024" using sectors_tight [of o' n] b by linarith
  then have small: "sectors o' n < 2 ^ 32" by simp
  have "(ucast (of_nat (sectors o' n) :: u32) :: u8) = of_nat (sectors o' n)"
    unfolding ucast_as_of_nat using small by (simp only: unat_of_nat32)
  then show ?thesis
    unfolding ata_span_def Let_def s en d by (simp only: o'_def n_def)
qed

lemma lba28_small: "x < 2 ^ 28 \<Longrightarrow> lba28 (of_nat x) = x"
proof -
  assume x: "x < 2 ^ 28"
  have "(of_nat x :: u32) AND 0x0FFFFFFF = take_bit 28 (of_nat x)"
    by (simp add: take_bit_eq_mask mask_eq_exp_minus_1)
  moreover have "unat (of_nat x :: u32) = x" using x by simp
  ultimately show ?thesis
    using x by (simp add: lba28_def unsigned_take_bit_eq take_bit_nat_eq_self)
qed

text \<open>The buffer a request works on, and the indices into it.\<close>

lemma ata_request:
  assumes "unat offset < 2 ^ 37" and "unat offset + unat sz \<le> 2 ^ 37"
  defines "off \<equiv> unat offset" and "n \<equiv> unat sz"
  obtains lba cnt where "ata_span offset sz = (lba, cnt)" "lba28 lba = off div 512"
    "unat cnt = sectors off n mod 256" "unat (offset mod 512) = off mod 512"
    "unat (offset mod 512 + sz) = off mod 512 + n"
proof
  have "off div 512 < 2 ^ 28" using assms(1) by (simp add: off_def)
  then show "lba28 (of_nat (off div 512)) = off div 512" by (rule lba28_small)
  show "ata_span offset sz = (of_nat (off div 512), of_nat (sectors off n))"
    using ata_span_nat [OF assms(2)] by (simp add: off_def n_def)
  show "unat (of_nat (sectors off n) :: u8) = sectors off n mod 256"
    by (simp add: unat_of_nat take_bit_eq_mod)
  show m: "unat (offset mod 512) = off mod 512" by (simp add: unat_mod off_def)
  have "off mod 512 < 512" by simp
  then show "unat (offset mod 512 + sz) = off mod 512 + n"
    using assms(2) by (subst unat_add64) (simp_all add: m n_def)
qed

lemma sectors_too_many:
  assumes "255 < sectors off n"
  shows "512 * (sectors off n mod 256) < off mod 512 + n"
proof -
  have "sectors off n mod 256 \<le> sectors off n - 256"
    using assms by (simp add: le_mod_geq)
  then have "sectors off n mod 256 + 256 \<le> sectors off n" using assms by linarith
  then show ?thesis using sectors_tight [of off n] by linarith
qed

lemma ata_read_nat:
  assumes "unat offset < 2 ^ 37" and "unat offset + unat sz \<le> 2 ^ 37"
  shows "ata_read d offset sz =
    (if sectors (unat offset) (unat sz) \<le> 255
     then Ret (map (\<lambda>i. d (unat offset + i)) [0..<unat sz]) else Panic)"
proof -
  define off n where "off = unat offset" and "n = unat sz"
  from ata_request [OF assms] obtain lba cnt where r: "ata_span offset sz = (lba, cnt)"
      "lba28 lba = off div 512" "unat cnt = sectors off n mod 256"
      "unat (offset mod 512) = off mod 512" "unat (offset mod 512 + sz) = off mod 512 + n"
    unfolding off_def n_def by metis
  let ?buf = "ata_read_sectors d lba cnt"
  have len: "length ?buf = 512 * (sectors off n mod 256)" by (simp add: ata_read_sectors_def r)
  have rd: "ata_read d offset sz = subslice ?buf (off mod 512) (off mod 512 + n)"
    by (simp add: ata_read_def r Let_def)
  show ?thesis
  proof (cases "sectors off n \<le> 255")
    case True
    have at: "off div 512 * 512 + (off mod 512 + i) = off + i" for i
      using div_mult_mod_eq [of off 512] by linarith
    have cov: "off mod 512 + n \<le> length ?buf" using sectors_cover [of off n] True len by simp
    have "take n (drop (off mod 512) ?buf) = map (\<lambda>i. d (off + i)) [0..<n]"
      by (rule nth_equalityI) (use cov at in \<open>simp_all add: ata_read_sectors_def r mult.commute\<close>)
    with True cov rd show ?thesis by (simp add: subslice_def off_def n_def)
  next
    case False
    then have "length ?buf < off mod 512 + n" using sectors_too_many len by simp
    with False rd show ?thesis by (simp add: subslice_def off_def n_def)
  qed
qed

lemma ata_write_nat:
  assumes "unat offset < 2 ^ 37" and "unat offset + length data \<le> 2 ^ 37"
  shows "ata_write d offset data =
    (if sectors (unat offset) (length data) \<le> 255
     then Ret (len64 data, \<lambda>a. if unat offset \<le> a \<and> a < unat offset + length data
                               then data ! (a - unat offset) else d a)
     else Panic)"
proof -
  define off n where "off = unat offset" and "n = length data"
  have n: "unat (len64 data) = n" using assms(2) by (simp add: n_def)
  from ata_request [of offset "len64 data"] assms n obtain lba cnt where
      r: "ata_span offset (len64 data) = (lba, cnt)"
      "lba28 lba = off div 512" "unat cnt = sectors off n mod 256"
      "unat (offset mod 512) = off mod 512" "unat (offset mod 512 + len64 data) = off mod 512 + n"
    unfolding off_def by (metis n_def)
  let ?buf = "ata_read_sectors d lba cnt"
  have len: "length ?buf = 512 * (sectors off n mod 256)" by (simp add: ata_read_sectors_def r)
  have wr: "ata_write d offset data =
      obind (copy_into ?buf (off mod 512) (off mod 512 + n) data) (\<lambda>buf'.
        Ret (len64 data, ata_write_sectors d lba cnt buf'))"
    by (simp add: ata_write_def r Let_def)
  show ?thesis
  proof (cases "sectors off n \<le> 255")
    case True
    have cov: "off mod 512 + n \<le> length ?buf" using sectors_cover [of off n] True len by simp
    let ?b = "off div 512 * 512"
    have split: "?b + off mod 512 = off" by (rule div_mult_mod_eq)
    have "ata_write_sectors d lba cnt (overwrite ?buf (off mod 512) data) a =
        (if off \<le> a \<and> a < off + n then data ! (a - off) else d a)" for a
    proof (cases "?b \<le> a \<and> a < ?b + length ?buf")
      case True
      then obtain i where i: "a = ?b + i" "i < length ?buf"
        by (metis le_add_diff_inverse nat_add_left_cancel_less)
      have "?buf ! i = d a" using i by (simp add: ata_read_sectors_def r mult.commute)
      moreover have "overwrite ?buf (off mod 512) data ! i =
          (if off mod 512 \<le> i \<and> i < off mod 512 + n then data ! (i - off mod 512) else ?buf ! i)"
        using nth_overwrite [of "off mod 512" data ?buf i] cov i(2) by (simp add: n_def)
      moreover have "off mod 512 \<le> i \<longleftrightarrow> off \<le> a" "i < off mod 512 + n \<longleftrightarrow> a < off + n"
          "i - off mod 512 = a - off"
        using i(1) split by linarith+
      ultimately show ?thesis
        using i len r True by (simp add: ata_write_sectors_def mult.commute)
    next
      case False
      then have "\<not> (off \<le> a \<and> a < off + n)" using cov split by linarith
      moreover have "ata_write_sectors d lba cnt x a = d a" for x
        using False len r by (auto simp: ata_write_sectors_def mult.commute)
      ultimately show ?thesis by (simp only: if_False)
    qed
    with True cov wr show ?thesis by (simp add: copy_into_def off_def n_def fun_eq_iff)
  next
    case False
    then have "length ?buf < off mod 512 + n" using sectors_too_many len by simp
    with False wr show ?thesis by (simp add: copy_into_def off_def n_def)
  qed
qed

lemma fb0_read_nat:
  assumes "length buf < 2 ^ 64"
  shows "fb0_read buf offset sz =
    (if length buf \<le> unat offset then Ret []
     else if unat offset + unat sz < 2 ^ 64 then Ret (take (unat sz) (drop (unat offset) buf))
     else Panic)"
proof (cases "unat offset + unat sz < 2 ^ 64")
  case True
  then have "unat (min (offset + sz) (len64 buf)) = min (unat offset + unat sz) (length buf)"
    using assms by (simp add: min_def word_le_nat_alt unat_add64)
  with True assms show ?thesis
    by (auto simp: fb0_read_def Let_def subslice_def word_le_nat_alt min_def)
next
  case False
  have "unat (offset + sz) = unat offset + unat sz - 2 ^ 64"
    using False unat_u64_less [of offset] unat_u64_less [of sz]
    by (simp add: unat_word_ariths le_mod_geq)
  then have "unat (offset + sz) < unat offset"
    using False unat_u64_less [of sz] unat_u64_less [of offset] by linarith
  with False assms show ?thesis
    by (auto simp: fb0_read_def Let_def subslice_def word_le_nat_alt min_def)
qed

lemma fb0_write_nat:
  assumes "length buf < 2 ^ 63" and "length data < 2 ^ 63"
  shows "fb0_write buf offset data =
    (if length buf \<le> unat offset then Ret (0, buf)
     else let k = min (length data) (length buf - unat offset)
          in Ret (of_nat k, overwrite buf (unat offset) (take k data)))"
proof (cases "length buf \<le> unat offset")
  case True
  then show ?thesis using assms by (simp add: fb0_write_def word_le_nat_alt)
next
  case False
  define k where "k = min (length data) (length buf - unat offset)"
  have add: "unat (offset + len64 data) = unat offset + length data"
    using False assms by (subst unat_add64) simp_all
  define limit where "limit = min (offset + len64 data) (len64 buf)"
  have limit: "unat limit = unat offset + k"
    using False assms add by (auto simp: limit_def k_def min_def word_le_nat_alt)
  then have "unat (limit - offset) = k"
    by (simp add: unat_sub word_le_nat_alt)
  moreover from this have "limit - offset = of_nat k" by (metis of_nat_unat ucast_id)
  moreover have "k \<le> length data" "unat offset + k \<le> length buf" using False by (auto simp: k_def)
  ultimately show ?thesis
    using False assms limit
    by (simp add: fb0_write_def word_le_nat_alt subslice_def copy_into_def k_def [symmetric]
        limit_def [symmetric] Let_def)
qed

section \<open>The trait as an interface\<close>

text \<open>
  What the file system relies on: a device read returns at most the bytes asked for, a write
  reports at most the bytes given, and no device reads or writes out of bounds. The
  invariant bounds the buffers below \<open>2 ^ 63\<close>, as Rust does for every allocation.
\<close>

locale char_device =
  fixes rd :: "'d \<Rightarrow> usize \<Rightarrow> usize \<Rightarrow> bytes outcome"
    and wr :: "'d \<Rightarrow> usize \<Rightarrow> bytes \<Rightarrow> (usize \<times> 'd) outcome"
    and inv :: "'d \<Rightarrow> bool"
  assumes read_len: "inv d \<Longrightarrow> rd d off n = Ret bs \<Longrightarrow> length bs \<le> unat n"
    and read_def_ok: "rd d off n \<noteq> Undef"
    and write_len: "inv d \<Longrightarrow> length data < 2 ^ 63 \<Longrightarrow> wr d off data = Ret (k, d') \<Longrightarrow>
      unat k \<le> length data \<and> inv d'"
    and write_def_ok: "wr d off data \<noteq> Undef"
begin

text \<open>A reader that advances its offset by what it got never skips past what it asked for.\<close>

lemma read_advance:
  assumes "inv d" and "rd d off n = Ret bs" and "unat off + unat n < 2 ^ 64"
  shows "unat (off + of_nat (length bs)) = unat off + length bs"
    and "unat off + length bs \<le> unat off + unat n"
proof -
  note len = read_len [OF assms(1,2)]
  have "length bs < 2 ^ 64" using len unat_u64_less [of n] by linarith
  then show "unat (off + of_nat (length bs)) = unat off + length bs"
    using len assms(3) by (subst unat_add64) simp_all
  show "unat off + length bs \<le> unat off + unat n" using len by simp
qed

end

fun dev_ok :: "driver \<Rightarrow> bool" where
  "dev_ok (Fb0Driver buf) \<longleftrightarrow> length buf < 2 ^ 63"
| "dev_ok _ \<longleftrightarrow> True"

lemma ata_read_len: "ata_read d off n = Ret bs \<Longrightarrow> length bs \<le> unat n"
proof -
  assume "ata_read d off n = Ret bs"
  then have "length bs = unat (off mod 512 + n) - unat (off mod 512)"
    by (auto simp: ata_read_def Let_def split: prod.splits dest: length_subslice)
  moreover have "unat (off mod 512 + n) \<le> unat (off mod 512) + unat n"
    by (simp add: unat_word_ariths)
  ultimately show ?thesis by simp
qed

abbreviation dispatch_read :: "driver \<times> disk_data \<Rightarrow> usize \<Rightarrow> usize \<Rightarrow> bytes outcome" where
  "dispatch_read dd off n \<equiv> drv_read (fst dd) (snd dd) off n"

abbreviation dispatch_write ::
    "driver \<times> disk_data \<Rightarrow> usize \<Rightarrow> bytes \<Rightarrow> (usize \<times> driver \<times> disk_data) outcome" where
  "dispatch_write dd off data \<equiv> drv_write (fst dd) (snd dd) off data"

lemma drv_read_len:
  assumes "dev_ok drv" and "drv_read drv d off n = Ret bs"
  shows "length bs \<le> unat n"
proof (cases drv)
  case (Fb0Driver buf)
  with assms show ?thesis by (auto simp: fb0_read_nat split: if_splits)
next
  case AtaDriver
  with assms show ?thesis by (auto intro: ata_read_len)
qed (use assms in \<open>auto simp: urandom_read_def\<close>)

lemma drv_write_len:
  assumes "dev_ok drv" and "length data < 2 ^ 63" and "drv_write drv d off data = Ret (k, drv', d')"
  shows "unat k \<le> length data \<and> dev_ok drv'"
proof (cases drv)
  case (Fb0Driver buf)
  with assms show ?thesis
    by (auto simp: fb0_write_nat Let_def split: if_splits)
next
  case AtaDriver
  with assms show ?thesis
    by (auto simp: ata_write_def Let_def obind_eq_Ret split: prod.splits)
qed (use assms in auto)

lemma drv_not_Undef: "drv_read drv d off n \<noteq> Undef" "drv_write drv d off data \<noteq> Undef"
  by (cases drv; auto simp: fb0_read_def fb0_write_def ata_read_def ata_write_def Let_def
      obind_eq_Undef split: prod.splits)+

interpretation dev: char_device dispatch_read dispatch_write "\<lambda>dd. dev_ok (fst dd)"
  by unfold_locales (auto simp: drv_not_Undef dest: drv_read_len drv_write_len)

section \<open>Properties\<close>

text \<open>
  A read of the disk device inside the 28-bit LBA space returns exactly the requested
  bytes of the disk when they touch at most 255 sectors, and panics otherwise (the sector
  count is kept in one byte and the slice of the short buffer is then out of range).
\<close>

theorem ata_read_exact:
  assumes "unat offset < 2 ^ 37" and "unat offset + unat sz \<le> 2 ^ 37"
  shows "drv_read AtaDriver d offset sz =
    (if sectors (unat offset) (unat sz) \<le> 255
     then Ret (map (\<lambda>i. d (unat offset + i)) [0..<unat sz]) else Panic)"
  using ata_read_nat [OF assms] by simp

theorem ata_read_exact_witness:
  "drv_read AtaDriver (\<lambda>a. of_nat a) 1025 4 = Ret [1, 2, 3, 4] \<and>
   drv_read AtaDriver (\<lambda>a. of_nat a) 0 131072 = Panic"
  using ata_read_exact [of 1025 4 "\<lambda>a. of_nat a"] ata_read_exact [of 0 131072 "\<lambda>a. of_nat a"]
  by (simp add: sectors_def upt_rec)



text \<open>
  Every device keeps the contract of \<open>CharDriver\<close>: a read returns at most the bytes asked
  for, a write reports at most the bytes given and keeps the device well formed, and neither
  accesses memory out of bounds.
\<close>

theorem char_driver_contract:
  assumes "dev_ok drv" and "length data < 2 ^ 63"
  shows "(\<forall>bs. drv_read drv d off n = Ret bs \<longrightarrow> length bs \<le> unat n) \<and>
    (\<forall>k drv' d'. drv_write drv d off data = Ret (k, drv', d') \<longrightarrow> unat k \<le> length data \<and> dev_ok drv') \<and>
    drv_read drv d off n \<noteq> Undef \<and> drv_write drv d off data \<noteq> Undef"
  using dev.read_len [of "(drv, d)"] dev.write_len [of "(drv, d)"] dev.read_def_ok [of "(drv, d)"]
    dev.write_def_ok [of "(drv, d)"] assms by fastforce

theorem char_driver_contract_witness:
  "dev_ok (Fb0Driver [1, 2, 3]) \<and> drv_read (Fb0Driver [1, 2, 3]) (\<lambda>_. 0) 1 9 = Ret [2, 3] \<and>
   length [2, 3 :: u8] \<le> unat (9 :: usize)"
proof -
  have ok: "dev_ok (Fb0Driver [1, 2, 3])" by simp
  have rd: "drv_read (Fb0Driver [1, 2, 3]) (\<lambda>_. 0) 1 9 = Ret [2, 3]"
    by (simp add: fb0_read_nat)
  have len: "length [] < (2::nat) ^ 63" by simp
  from char_driver_contract [OF ok len, of "\<lambda>_. 0" 1 9] rd ok show ?thesis by blast
qed

end
