(* ===== verification/Ext2.thy ===== *)
theory Ext2
  imports Driver
begin

text \<open>
  The read-only Ext2 driver of \<open>kernel/src/fs/ext2.rs\<close>: mounting, block and inode reads, the
  file reader with its direct and indirect blocks, path resolution and directory listing.
  The on-disk structures are read at the offsets of their \<open>repr(C)\<close> layout; a raw read past
  the end of a buffer is \<open>Undef\<close>. The directory walk of \<open>resolve_path\<close> can loop for ever on a
  malformed directory: it is a partial function whose \<open>None\<close> means "does not return", and
  becomes the outcome \<open>Hang\<close>.
\<close>

section \<open>On-disk structures\<close>

definition le32 :: "bytes \<Rightarrow> nat \<Rightarrow> u32" where
  "le32 bs off = from_le (take 4 (drop off bs))"

definition le16 :: "bytes \<Rightarrow> nat \<Rightarrow> u16" where
  "le16 bs off = from_le (take 2 (drop off bs))"

record ext2_superblock =
  inodes_count :: u32
  blocks_count :: u32
  r_blocks_count :: u32
  free_blocks_count :: u32
  free_inodes_count :: u32
  first_data_block :: u32
  log_block_size :: u32
  log_frag_size :: u32
  blocks_per_group :: u32
  frags_per_group :: u32
  inodes_per_group :: u32
  sb_mtime :: u32
  sb_wtime :: u32
  mnt_count :: u16
  max_mnt_count :: u16
  magic :: u16
  sb_state :: u16
  sb_errors :: u16
  minor_rev_level :: u16
  lastcheck :: u32
  checkinterval :: u32
  creator_os :: u32
  rev_level :: u32
  def_resuid :: u16
  def_resgid :: u16
  first_ino :: u32
  sb_inode_size :: u16
  block_group_nr :: u16
  feature_compat :: u32
  feature_incompat :: u32
  feature_ro_compat :: u32

text \<open>The 936 bytes of padding make the structure 1040 bytes long.\<close>

definition superblock_size :: nat where "superblock_size = 1040"

definition parse_superblock :: "bytes \<Rightarrow> ext2_superblock" where
  "parse_superblock b = \<lparr>
     inodes_count = le32 b 0, blocks_count = le32 b 4, r_blocks_count = le32 b 8,
     free_blocks_count = le32 b 12, free_inodes_count = le32 b 16, first_data_block = le32 b 20,
     log_block_size = le32 b 24, log_frag_size = le32 b 28, blocks_per_group = le32 b 32,
     frags_per_group = le32 b 36, inodes_per_group = le32 b 40, sb_mtime = le32 b 44,
     sb_wtime = le32 b 48, mnt_count = le16 b 52, max_mnt_count = le16 b 54, magic = le16 b 56,
     sb_state = le16 b 58, sb_errors = le16 b 60, minor_rev_level = le16 b 62,
     lastcheck = le32 b 64, checkinterval = le32 b 68, creator_os = le32 b 72,
     rev_level = le32 b 76, def_resuid = le16 b 80, def_resgid = le16 b 82,
     first_ino = le32 b 84, sb_inode_size = le16 b 88, block_group_nr = le16 b 90,
     feature_compat = le32 b 92, feature_incompat = le32 b 96, feature_ro_compat = le32 b 100\<rparr>"

record ext2_bgd =
  bg_block_bitmap :: u32
  bg_inode_bitmap :: u32
  bg_inode_table :: u32
  bg_free_blocks_count :: u16
  bg_free_inodes_count :: u16
  bg_used_dirs_count :: u16
  bg_pad :: u16
  bg_reserved :: "u32 list"

definition bgd_size :: nat where "bgd_size = 32"

definition parse_bgd :: "bytes \<Rightarrow> ext2_bgd" where
  "parse_bgd b = \<lparr>
     bg_block_bitmap = le32 b 0, bg_inode_bitmap = le32 b 4, bg_inode_table = le32 b 8,
     bg_free_blocks_count = le16 b 12, bg_free_inodes_count = le16 b 14,
     bg_used_dirs_count = le16 b 16, bg_pad = le16 b 18,
     bg_reserved = [le32 b 20, le32 b 24, le32 b 28]\<rparr>"

record ext2_inode =
  i_mode :: u16
  i_uid :: u16
  i_size :: u32
  i_atime :: u32
  i_ctime :: u32
  i_mtime :: u32
  i_dtime :: u32
  i_gid :: u16
  i_links_count :: u16
  i_blocks :: u32
  i_flags :: u32
  i_osd1 :: u32
  i_block :: "u32 list"
  i_generation :: u32
  i_file_acl :: u32
  i_dir_acl :: u32
  i_faddr :: u32
  i_osd2 :: "u32 list"

definition inode_struct_size :: nat where "inode_struct_size = 128"

definition parse_inode :: "bytes \<Rightarrow> ext2_inode" where
  "parse_inode b = \<lparr>
     i_mode = le16 b 0, i_uid = le16 b 2, i_size = le32 b 4, i_atime = le32 b 8,
     i_ctime = le32 b 12, i_mtime = le32 b 16, i_dtime = le32 b 20, i_gid = le16 b 24,
     i_links_count = le16 b 26, i_blocks = le32 b 28, i_flags = le32 b 32, i_osd1 = le32 b 36,
     i_block = map (\<lambda>k. le32 b (40 + 4 * k)) [0..<15],
     i_generation = le32 b 100, i_file_acl = le32 b 104, i_dir_acl = le32 b 108,
     i_faddr = le32 b 112, i_osd2 = [le32 b 116, le32 b 120, le32 b 124]\<rparr>"

text \<open>\<open>read_unaligned(p.add(off) as *const T)\<close> into a buffer.\<close>

definition read_struct :: "nat \<Rightarrow> (bytes \<Rightarrow> 'a) \<Rightarrow> bytes \<Rightarrow> nat \<Rightarrow> 'a outcome" where
  "read_struct n parse b off =
     (if off + n \<le> length b then Ret (parse (take n (drop off b))) else Undef)"

record ext2_fs =
  superblock :: ext2_superblock
  block_size :: usize
  inode_size :: usize
  groups_count :: usize
  block_groups :: "ext2_bgd list"
  device_path :: rstr

section \<open>Mounting\<close>

datatype ext2_error =
    SuperblockReadFailed
  | IncompleteSuperblock
  | InvalidSignature
  | BgdtReadFailed

definition EXT2_SIGNATURE :: u16 where "EXT2_SIGNATURE = 0xEF53"
definition EXT2_ROOT_INODE :: u32 where "EXT2_ROOT_INODE = 2"

text \<open>The shift amount is masked to 6 bits, as a release build does; division by 0 panics.\<close>

definition ext2_mount ::
    "rstr \<Rightarrow> driver_manager \<Rightarrow> disk_data \<Rightarrow> (ext2_error + ext2_fs) outcome" where
  "ext2_mount path dm d =
     obind (read_device dm d path 1024 (of_nat superblock_size)) (\<lambda>r.
     case r of None \<Rightarrow> Ret (Inl SuperblockReadFailed) | Some sb_data \<Rightarrow>
     if length sb_data < superblock_size then Ret (Inl IncompleteSuperblock) else
     obind (read_struct superblock_size parse_superblock sb_data 0) (\<lambda>sb.
     if magic sb \<noteq> EXT2_SIGNATURE then Ret (Inl InvalidSignature) else
     if blocks_per_group sb = 0 then Panic else
     let bsize = push_bit (unat (log_block_size sb AND 63)) (1024 :: usize);
         isize = (if rev_level sb = 0 then 128 else ucast (sb_inode_size sb)) :: usize;
         groups = ucast ((blocks_count sb - first_data_block sb + blocks_per_group sb - 1)
                          div blocks_per_group sb) :: usize;
         bgdt_block = (if bsize = 1024 then 2 else 1) :: usize;
         bgdt_offset = bgdt_block * bsize;
         bg_total_size = groups * of_nat bgd_size
     in obind (read_device dm d path bgdt_offset bg_total_size) (\<lambda>r2.
        case r2 of None \<Rightarrow> Ret (Inl BgdtReadFailed) | Some bg_data \<Rightarrow>
        obind (ofold (\<lambda>i acc. obind (read_struct bgd_size parse_bgd bg_data (i * bgd_size))
                         (\<lambda>bg. Ret (acc @ [bg]))) [0..<unat groups] []) (\<lambda>bgs.
        Ret (Inr \<lparr>superblock = sb, block_size = bsize, inode_size = isize,
                   groups_count = groups, block_groups = bgs, device_path = path\<rparr>)))))"

section \<open>Blocks and inodes\<close>

definition read_block ::
    "ext2_fs \<Rightarrow> driver_manager \<Rightarrow> disk_data \<Rightarrow> u32 \<Rightarrow> bytes option outcome" where
  "read_block fs dm d block =
     read_device dm d (device_path fs) (ucast block * block_size fs) (block_size fs)"

definition get_inode ::
    "ext2_fs \<Rightarrow> driver_manager \<Rightarrow> disk_data \<Rightarrow> u32 \<Rightarrow> ext2_inode option outcome" where
  "get_inode fs dm d inode_num =
     (if inode_num = 0 \<or> inode_num > inodes_count (superblock fs) then Ret None
      else if inodes_per_group (superblock fs) = 0 then Panic
      else let bg_idx = unat ((inode_num - 1) div inodes_per_group (superblock fs));
               local_idx = ucast ((inode_num - 1) mod inodes_per_group (superblock fs)) :: usize
      in obind (index (block_groups fs) bg_idx) (\<lambda>bg.
         let offset = ucast (bg_inode_table bg) * block_size fs + local_idx * inode_size fs
         in obind (read_device dm d (device_path fs) offset (of_nat inode_struct_size)) (\<lambda>r.
            case r of None \<Rightarrow> Ret None
            | Some data \<Rightarrow> obind (read_struct inode_struct_size parse_inode data 0)
                (\<lambda>inode. Ret (Some inode)))))"

section \<open>Reading a file\<close>

text \<open>The loop state: bytes still wanted and bytes read so far.\<close>

type_synonym reader = "nat \<times> bytes"

text \<open>\<open>out.extend_from_slice(&block_data[0..to_copy]); remaining -= to_copy\<close>.\<close>

definition take_block :: "ext2_fs \<Rightarrow> bytes \<Rightarrow> reader \<Rightarrow> reader outcome" where
  "take_block fs block_data st =
     (let to_copy = min (fst st) (unat (block_size fs))
      in obind (subslice block_data 0 to_copy) (\<lambda>x. Ret (fst st - to_copy, snd st @ x)))"

text \<open>The direct blocks: the loop stops at a failed read.\<close>

fun read_direct :: "ext2_fs \<Rightarrow> driver_manager \<Rightarrow> disk_data \<Rightarrow> u32 list \<Rightarrow> reader \<Rightarrow> reader outcome" where
  "read_direct fs dm d [] st = Ret st"
| "read_direct fs dm d (b # bs) st =
     (if b = 0 \<or> fst st = 0 then Ret st
      else obind (read_block fs dm d b) (\<lambda>r.
        case r of
          None \<Rightarrow> Ret st
        | Some block_data \<Rightarrow> obind (take_block fs block_data st) (read_direct fs dm d bs)))"

text \<open>
  The loops over a pointer block: they stop at a zero pointer or when nothing is wanted, and
  skip a pointer whose block cannot be read. \<open>scan_ptrs\<close> is the loop, \<open>with_block\<close> the
  \<open>if let Some(block) = self.read_block(...)\<close> around its body.
\<close>

primrec scan_ptrs :: "(u32 \<Rightarrow> reader \<Rightarrow> reader outcome) \<Rightarrow> u32 list \<Rightarrow> reader \<Rightarrow> reader outcome" where
  "scan_ptrs step [] st = Ret st"
| "scan_ptrs step (b # bs) st =
     (if b = 0 \<or> fst st = 0 then Ret st else obind (step b st) (scan_ptrs step bs))"

definition with_block ::
    "ext2_fs \<Rightarrow> driver_manager \<Rightarrow> disk_data \<Rightarrow> (bytes \<Rightarrow> reader \<Rightarrow> reader outcome)
       \<Rightarrow> u32 \<Rightarrow> reader \<Rightarrow> reader outcome" where
  "with_block fs dm d body b st =
     obind (read_block fs dm d b) (\<lambda>r. case r of None \<Rightarrow> Ret st | Some blk \<Rightarrow> body blk st)"

text \<open>\<open>from_raw_parts(block.as_ptr() as *const u32, block_size / 4)\<close>.\<close>

definition block_pointers :: "ext2_fs \<Rightarrow> bytes \<Rightarrow> u32 list outcome" where
  "block_pointers fs blk =
     (let n = unat (block_size fs div 4)
      in if 4 * n \<le> length blk then Ret (map (\<lambda>k. le32 blk (4 * k)) [0..<n]) else Undef)"

definition read_data_blocks ::
    "ext2_fs \<Rightarrow> driver_manager \<Rightarrow> disk_data \<Rightarrow> u32 list \<Rightarrow> reader \<Rightarrow> reader outcome" where
  "read_data_blocks fs dm d = scan_ptrs (with_block fs dm d (take_block fs))"

definition read_single ::
    "ext2_fs \<Rightarrow> driver_manager \<Rightarrow> disk_data \<Rightarrow> u32 \<Rightarrow> reader \<Rightarrow> reader outcome" where
  "read_single fs dm d = with_block fs dm d (\<lambda>blk st.
     obind (block_pointers fs blk) (\<lambda>ps. read_data_blocks fs dm d ps st))"

definition read_double ::
    "ext2_fs \<Rightarrow> driver_manager \<Rightarrow> disk_data \<Rightarrow> u32 \<Rightarrow> reader \<Rightarrow> reader outcome" where
  "read_double fs dm d = with_block fs dm d (\<lambda>blk st.
     obind (block_pointers fs blk) (\<lambda>ps. scan_ptrs (read_single fs dm d) ps st))"

definition read_triple ::
    "ext2_fs \<Rightarrow> driver_manager \<Rightarrow> disk_data \<Rightarrow> u32 \<Rightarrow> reader \<Rightarrow> reader outcome" where
  "read_triple fs dm d = with_block fs dm d (\<lambda>blk st.
     obind (block_pointers fs blk) (\<lambda>ps. scan_ptrs (read_double fs dm d) ps st))"

text \<open>\<open>if remaining > 0 && inode.i_block[k] != 0 { ... }\<close>.\<close>

definition when_wanted :: "(u32 \<Rightarrow> reader \<Rightarrow> reader outcome) \<Rightarrow> u32 \<Rightarrow> reader \<Rightarrow> reader outcome" where
  "when_wanted step b st = (if fst st > 0 \<and> b \<noteq> 0 then step b st else Ret st)"

definition read_inode_data ::
    "ext2_fs \<Rightarrow> driver_manager \<Rightarrow> disk_data \<Rightarrow> ext2_inode \<Rightarrow> bytes outcome" where
  "read_inode_data fs dm d inode =
     obind (read_direct fs dm d (take 12 (i_block inode)) (unat (i_size inode), [])) (\<lambda>st1.
     obind (when_wanted (read_single fs dm d) (i_block inode ! 12) st1) (\<lambda>st2.
     obind (when_wanted (read_double fs dm d) (i_block inode ! 13) st2) (\<lambda>st3.
     obind (when_wanted (read_triple fs dm d) (i_block inode ! 14) st3) (\<lambda>st4.
       Ret (snd st4)))))"

section \<open>Directories\<close>

text \<open>The fixed part of an entry: inode number, record length, name length.\<close>

definition dir_entry :: "bytes \<Rightarrow> nat \<Rightarrow> (u32 \<times> nat \<times> nat) outcome" where
  "dir_entry dir off =
     obind (subslice dir off (off + 4)) (\<lambda>ino.
     obind (subslice dir (off + 4) (off + 6)) (\<lambda>rl.
     obind (index dir (off + 6)) (\<lambda>nl.
       Ret (from_le ino, unat (from_le rl :: u16), unat nl))))"

definition dir_name :: "bytes \<Rightarrow> nat \<Rightarrow> nat \<Rightarrow> rstr outcome" where
  "dir_name dir off name_len =
     obind (subslice dir (off + 8) (off + 8 + name_len)) (\<lambda>s. Ret (utf8_or s []))"

text \<open>One test of the search loop: does the entry at \<open>off\<close> match, and where is the next one?\<close>

definition dir_match :: "bytes \<Rightarrow> rstr \<Rightarrow> nat \<Rightarrow> (u32 option \<times> nat) outcome" where
  "dir_match dir part off =
     obind (dir_entry dir off) (\<lambda>(inode_n, rec_len, name_len).
       if inode_n \<noteq> 0
       then obind (dir_name dir off name_len) (\<lambda>name.
              Ret (if name = part then Some inode_n else None, off + rec_len))
       else Ret (None, off + rec_len))"

partial_function (option) scan_dir :: "bytes \<Rightarrow> rstr \<Rightarrow> nat \<Rightarrow> u32 option outcome option" where
  "scan_dir dir part off =
     (if off < length dir
      then case dir_match dir part off of
             Panic \<Rightarrow> Some Panic
           | Undef \<Rightarrow> Some Undef
           | Hang \<Rightarrow> Some Hang
           | Ret r \<Rightarrow> (case fst r of
                          Some n \<Rightarrow> Some (Ret (Some n))
                        | None \<Rightarrow> scan_dir dir part (snd r))
      else Some (Ret None))"

definition is_dir :: "ext2_inode \<Rightarrow> bool" where
  "is_dir inode \<longleftrightarrow> i_mode inode AND 0xF000 = 0x4000"

text \<open>The whole \<open>while\<close> loop of one path component, from offset 0.\<close>

definition search_dir :: "bytes \<Rightarrow> rstr \<Rightarrow> u32 option outcome" where
  "search_dir dir part = (case scan_dir dir part 0 of Some r \<Rightarrow> r | None \<Rightarrow> Hang)"

definition resolve_step ::
    "ext2_fs \<Rightarrow> driver_manager \<Rightarrow> disk_data \<Rightarrow> u32 \<Rightarrow> rstr \<Rightarrow> u32 option outcome" where
  "resolve_step fs dm d cur part =
     obind (get_inode fs dm d cur) (\<lambda>r.
       case r of
         None \<Rightarrow> Ret None
       | Some inode \<Rightarrow>
           if \<not> is_dir inode then Ret None
           else obind (read_inode_data fs dm d inode) (\<lambda>dir_data. search_dir dir_data part))"

fun resolve_parts ::
    "ext2_fs \<Rightarrow> driver_manager \<Rightarrow> disk_data \<Rightarrow> u32 \<Rightarrow> rstr list \<Rightarrow> u32 option outcome" where
  "resolve_parts fs dm d cur [] = Ret (Some cur)"
| "resolve_parts fs dm d cur (part # parts) =
     obind (resolve_step fs dm d cur part) (\<lambda>r.
       case r of None \<Rightarrow> Ret None | Some n \<Rightarrow> resolve_parts fs dm d n parts)"

definition path_parts :: "rstr \<Rightarrow> rstr list" where
  "path_parts path = filter (\<lambda>p. p \<noteq> []) (split_on 47 path)"

definition resolve_path ::
    "ext2_fs \<Rightarrow> driver_manager \<Rightarrow> disk_data \<Rightarrow> rstr \<Rightarrow> u32 option outcome" where
  "resolve_path fs dm d path = resolve_parts fs dm d EXT2_ROOT_INODE (path_parts path)"

text \<open>The listing loop stops at a zero record length, so it is a total function.\<close>

function list_entries :: "bytes \<Rightarrow> nat \<Rightarrow> rstr list \<Rightarrow> rstr list outcome" where
  "list_entries dir off entries =
     (if off < length dir
      then obind (dir_entry dir off) (\<lambda>(inode_n, rec_len, name_len).
           obind (if inode_n \<noteq> 0 \<and> rec_len > 0
                  then obind (dir_name dir off name_len) (\<lambda>name.
                         Ret (if name \<noteq> lit ''.'' \<and> name \<noteq> lit ''..'' then entries @ [name]
                              else entries))
                  else Ret entries) (\<lambda>entries'.
             if rec_len = 0 then Ret entries' else list_entries dir (off + rec_len) entries'))
      else Ret entries)"
  by pat_completeness auto
termination
  by (relation "measure (\<lambda>(dir, off, es). length dir - off)") auto

declare list_entries.simps [simp del]

definition list_dir ::
    "ext2_fs \<Rightarrow> driver_manager \<Rightarrow> disk_data \<Rightarrow> u32 \<Rightarrow> rstr list outcome" where
  "list_dir fs dm d inode_num =
     obind (get_inode fs dm d inode_num) (\<lambda>r.
       case r of
         None \<Rightarrow> Ret []
       | Some inode \<Rightarrow>
           if is_dir inode
           then obind (read_inode_data fs dm d inode) (\<lambda>dir_data. list_entries dir_data 0 [])
           else Ret [])"

section \<open>Reading from the disk device\<close>

text \<open>The device of the file system is the disk, and its block size is one \<open>mount\<close> can produce.\<close>

definition on_disk :: "ext2_fs \<Rightarrow> driver_manager \<Rightarrow> bool" where
  "on_disk fs dm \<longleftrightarrow> drivers dm (device_path fs) = Some AtaDriver \<and> unat (block_size fs) \<le> 2 ^ 63"

lemma ata_read_full:
  assumes "ata_read d off n = Ret bs" and "unat n \<le> 2 ^ 63"
  shows "length bs = unat n"
proof -
  have m: "unat (off mod 512) < 512" by (simp add: unat_mod)
  then have "unat (off mod 512 + n) = unat (off mod 512) + unat n"
    using assms(2) by (intro unat_add64) simp
  moreover have "length bs = unat (off mod 512 + n) - unat (off mod 512)"
    using assms(1) by (auto simp: ata_read_def Let_def split: prod.splits dest: length_subslice)
  ultimately show ?thesis by simp
qed

lemma read_device_disk:
  assumes "drivers dm path = Some AtaDriver" and "read_device dm d path off n = Ret r"
    and "unat n \<le> 2 ^ 63"
  obtains bs where "r = Some bs" "length bs = unat n"
  using assms ata_read_full by (fastforce simp: read_device_def obind_eq_Ret)

lemma read_device_not_Undef [simp]: "read_device dm d path off n \<noteq> Undef"
  by (simp add: read_device_def obind_eq_Undef drv_not_Undef split: option.splits)

lemma read_block_disk:
  assumes "on_disk fs dm" and "read_block fs dm d b = Ret r"
  obtains bs where "r = Some bs" "length bs = unat (block_size fs)"
  using assms read_device_disk unfolding on_disk_def read_block_def by metis

section \<open>No raw read leaves its buffer\<close>

lemma take_block_not_Undef [simp]: "take_block fs blk st \<noteq> Undef"
  by (simp add: take_block_def Let_def obind_eq_Undef)

lemma with_block_not_Undef:
  assumes "on_disk fs dm" and "\<And>blk st. length blk = unat (block_size fs) \<Longrightarrow> body blk st \<noteq> Undef"
  shows "with_block fs dm d body b st \<noteq> Undef"
proof
  assume "with_block fs dm d body b st = Undef"
  then obtain r where "read_block fs dm d b = Ret r"
      "(case r of None \<Rightarrow> Ret st | Some blk \<Rightarrow> body blk st) = Undef"
    by (auto simp: with_block_def obind_eq_Undef read_block_def)
  with assms(2) show False by (metis option.simps(5) read_block_disk [OF assms(1)])
qed

lemma scan_ptrs_not_Undef: "(\<And>b st. step b st \<noteq> Undef) \<Longrightarrow> scan_ptrs step ps st \<noteq> Undef"
  by (induction ps arbitrary: st) (simp_all add: obind_eq_Undef)

lemma read_direct_not_Undef: "read_direct fs dm d ps st \<noteq> Undef"
  by (induction ps arbitrary: st)
    (auto simp: obind_eq_Undef read_block_def split: option.splits)

lemma block_pointers_not_Undef:
  "length blk = unat (block_size fs) \<Longrightarrow> block_pointers fs blk \<noteq> Undef"
  using mult_div_mod_eq [of 4 "unat (block_size fs)"] by (simp add: block_pointers_def unat_div)

lemma read_levels_not_Undef:
  assumes "on_disk fs dm"
  shows "read_single fs dm d b st \<noteq> Undef" "read_double fs dm d b st \<noteq> Undef"
    "read_triple fs dm d b st \<noteq> Undef"
proof -
  have data: "read_data_blocks fs dm d ps st \<noteq> Undef" for ps st
    unfolding read_data_blocks_def
    by (intro scan_ptrs_not_Undef with_block_not_Undef [OF assms] take_block_not_Undef)
  have s: "read_single fs dm d b st \<noteq> Undef" for b st
    unfolding read_single_def
    by (rule with_block_not_Undef [OF assms]) (auto simp: obind_eq_Undef block_pointers_not_Undef data)
  have dd: "read_double fs dm d b st \<noteq> Undef" for b st
    unfolding read_double_def
    by (rule with_block_not_Undef [OF assms])
      (auto simp: obind_eq_Undef block_pointers_not_Undef scan_ptrs_not_Undef s)
  show "read_single fs dm d b st \<noteq> Undef" "read_double fs dm d b st \<noteq> Undef" by (rule s dd)+
  show "read_triple fs dm d b st \<noteq> Undef"
    unfolding read_triple_def
    by (rule with_block_not_Undef [OF assms])
      (auto simp: obind_eq_Undef block_pointers_not_Undef scan_ptrs_not_Undef dd)
qed

lemma read_inode_data_not_Undef: "on_disk fs dm \<Longrightarrow> read_inode_data fs dm d inode \<noteq> Undef"
  by (simp add: read_inode_data_def obind_eq_Undef when_wanted_def read_direct_not_Undef
      read_levels_not_Undef)

lemma get_inode_not_Undef:
  assumes "on_disk fs dm" shows "get_inode fs dm d n \<noteq> Undef"
proof -
  have "drivers dm (device_path fs) = Some AtaDriver" using assms by (simp add: on_disk_def)
  then have "length bs = 128" if "read_device dm d (device_path fs) off 128 = Ret (Some bs)" for off bs
    using read_device_disk [OF _ that] by auto
  then show ?thesis
    by (auto simp: get_inode_def obind_eq_Undef Let_def inode_struct_size_def read_struct_def
        split: option.splits)
qed

lemma list_entries_not_Undef: "list_entries dir off es \<noteq> Undef"
proof (induction dir off es rule: list_entries.induct)
  case (1 dir off es)
  then show ?case
    by (subst list_entries.simps)
      (auto simp: obind_eq_Undef dir_entry_def dir_name_def obind_eq_Ret split: if_splits)
qed

section \<open>Reference definition of a file's contents\<close>

text \<open>
  The bytes of a block, the pointers stored in it up to the first zero, and the data blocks
  below a pointer of indirection level \<open>n\<close>.
\<close>

definition blk :: "ext2_fs \<Rightarrow> disk_data \<Rightarrow> u32 \<Rightarrow> bytes" where
  "blk fs d b = map (\<lambda>i. d (unat b * unat (block_size fs) + i)) [0..<unat (block_size fs)]"

abbreviation live :: "u32 list \<Rightarrow> u32 list" where
  "live \<equiv> takeWhile (\<lambda>b. b \<noteq> 0)"

definition ptrs :: "ext2_fs \<Rightarrow> disk_data \<Rightarrow> u32 \<Rightarrow> u32 list" where
  "ptrs fs d b = live (map (\<lambda>k. le32 (blk fs d b) (4 * k)) [0..<unat (block_size fs) div 4])"

fun leaves :: "nat \<Rightarrow> ext2_fs \<Rightarrow> disk_data \<Rightarrow> u32 \<Rightarrow> u32 list" where
  "leaves 0 fs d b = [b]"
| "leaves (Suc n) fs d b = concat (map (leaves n fs d) (ptrs fs d b))"

definition file_blocks :: "ext2_fs \<Rightarrow> disk_data \<Rightarrow> ext2_inode \<Rightarrow> u32 list" where
  "file_blocks fs d inode =
     live (take 12 (i_block inode)) @
     concat (map (\<lambda>k. if i_block inode ! (11 + k) = 0 then []
                      else leaves k fs d (i_block inode ! (11 + k))) [1, 2, 3])"

definition file_contents :: "ext2_fs \<Rightarrow> disk_data \<Rightarrow> ext2_inode \<Rightarrow> bytes" where
  "file_contents fs d inode = take (unat (i_size inode)) (concat (map (blk fs d) (file_blocks fs d inode)))"

text \<open>Every block the walk can touch lies in the LBA space.\<close>

definition blk_ok :: "ext2_fs \<Rightarrow> u32 \<Rightarrow> bool" where
  "blk_ok fs b \<longleftrightarrow> unat b * unat (block_size fs) + unat (block_size fs) \<le> 2 ^ 37"

fun tree_ok :: "nat \<Rightarrow> ext2_fs \<Rightarrow> disk_data \<Rightarrow> u32 \<Rightarrow> bool" where
  "tree_ok 0 fs d b = blk_ok fs b"
| "tree_ok (Suc n) fs d b = (blk_ok fs b \<and> list_all (tree_ok n fs d) (ptrs fs d b))"

definition file_ok :: "ext2_fs \<Rightarrow> disk_data \<Rightarrow> ext2_inode \<Rightarrow> bool" where
  "file_ok fs d inode \<longleftrightarrow>
     list_all (blk_ok fs) (live (take 12 (i_block inode))) \<and>
     list_all (\<lambda>k. i_block inode ! (11 + k) = 0 \<or> tree_ok k fs d (i_block inode ! (11 + k))) [1, 2, 3]"

definition disk_fs :: "ext2_fs \<Rightarrow> driver_manager \<Rightarrow> bool" where
  "disk_fs fs dm \<longleftrightarrow> drivers dm (device_path fs) = Some AtaDriver \<and>
     0 < block_size fs \<and> block_size fs \<le> 65536"

text \<open>What reading a list of blocks does to the loop state.\<close>

definition consume :: "ext2_fs \<Rightarrow> disk_data \<Rightarrow> u32 list \<Rightarrow> reader \<Rightarrow> reader" where
  "consume fs d bs st = (fst st - length bs * unat (block_size fs),
     snd st @ take (fst st) (concat (map (blk fs d) bs)))"

lemma length_blk [simp]: "length (blk fs d b) = unat (block_size fs)"
  by (simp add: blk_def)

lemma consume_Nil [simp]: "consume fs d [] st = st"
  by (simp add: consume_def)

lemma consume_zero [simp]: "fst st = 0 \<Longrightarrow> consume fs d bs st = st"
  by (cases st) (simp add: consume_def)

lemma length_concat_blk: "length (concat (map (blk fs d) bs)) = length bs * unat (block_size fs)"
  by (induction bs) simp_all

lemma consume_append: "consume fs d (as @ bs) st = consume fs d bs (consume fs d as st)"
  by (simp add: consume_def length_concat_blk algebra_simps)

lemma read_block_exact:
  assumes "disk_fs fs dm" and "blk_ok fs b"
  shows "read_block fs dm d b = Ret (Some (blk fs d b))"
proof -
  define bs where "bs = unat (block_size fs)"
  have bs: "0 < bs" "bs \<le> 65536"
    using assms(1) by (auto simp: disk_fs_def bs_def word_le_nat_alt word_less_nat_alt unat_gt_0)
  have le: "unat b * bs + bs \<le> 2 ^ 37" using assms(2) by (simp add: blk_ok_def bs_def)
  have off: "unat (ucast b * block_size fs :: usize) = unat b * bs"
    using le by (simp add: unat_word_ariths bs_def del: unsigned_ucast_eq)
  have "512 * sectors (unat b * bs) bs < unat b * bs mod 512 + bs + 512" by (rule sectors_tight)
  also have "\<dots> \<le> 512 * 255" using bs(2) mod_less_divisor [of 512 "unat b * bs"] by linarith
  finally have "sectors (unat b * bs) bs \<le> 255" by simp
  moreover have "unat b * bs < 2 ^ 37" using le bs(1) by linarith
  ultimately show ?thesis
    using ata_read_nat [of "ucast b * block_size fs" "block_size fs" d] assms(1) le
    by (simp add: read_block_def read_device_def disk_fs_def off blk_def bs_def)
qed

lemma take_block_consume:
  assumes "disk_fs fs dm"
  shows "take_block fs (blk fs d b) st = Ret (consume fs d [b] st)"
  by (auto simp: take_block_def consume_def subslice_def Let_def min_def)

lemma block_pointers_blk:
  "block_pointers fs (blk fs d b) =
     Ret (map (\<lambda>k. le32 (blk fs d b) (4 * k)) [0..<unat (block_size fs) div 4])"
  using mult_div_mod_eq [of 4 "unat (block_size fs)"] by (simp add: block_pointers_def unat_div)

lemma scan_ptrs_consume:
  assumes "\<And>b st. b \<in> set (live ps) \<Longrightarrow> step b st = Ret (consume fs d (ls b) st)"
  shows "scan_ptrs step ps st = Ret (consume fs d (concat (map ls (live ps))) st)"
  using assms
proof (induction ps arbitrary: st)
  case (Cons b ps)
  then show ?case by (cases "fst st = 0") (simp_all add: consume_append)
qed simp

lemma read_levels_consume:
  assumes "disk_fs fs dm"
  shows "tree_ok 0 fs d b \<Longrightarrow> with_block fs dm d (take_block fs) b st = Ret (consume fs d (leaves 0 fs d b) st)"
    and "tree_ok 1 fs d b \<Longrightarrow> read_single fs dm d b st = Ret (consume fs d (leaves 1 fs d b) st)"
    and "tree_ok 2 fs d b \<Longrightarrow> read_double fs dm d b st = Ret (consume fs d (leaves 2 fs d b) st)"
    and "tree_ok 3 fs d b \<Longrightarrow> read_triple fs dm d b st = Ret (consume fs d (leaves 3 fs d b) st)"
proof -
  note rb = read_block_exact [OF assms]
  have lvl: "with_block fs dm d (\<lambda>blk st. obind (block_pointers fs blk) (\<lambda>ps. scan_ptrs step ps st)) b st =
      Ret (consume fs d (leaves (Suc n) fs d b) st)"
    if "tree_ok (Suc n) fs d b" and
      "\<And>b st. tree_ok n fs d b \<Longrightarrow> step b st = Ret (consume fs d (leaves n fs d b) st)" for step n b st
    using that scan_ptrs_consume [of _ step fs d "leaves n fs d"]
    by (simp add: with_block_def rb block_pointers_blk ptrs_def list_all_iff)
  have l0: "with_block fs dm d (take_block fs) b st = Ret (consume fs d (leaves 0 fs d b) st)"
    if "tree_ok 0 fs d b" for b st
    using that by (simp add: with_block_def rb take_block_consume [OF assms])
  have l1: "read_single fs dm d b st = Ret (consume fs d (leaves (Suc 0) fs d b) st)"
    if "tree_ok (Suc 0) fs d b" for b st
    unfolding read_single_def read_data_blocks_def using that l0 by (rule lvl)
  have l2: "read_double fs dm d b st = Ret (consume fs d (leaves (Suc (Suc 0)) fs d b) st)"
    if "tree_ok (Suc (Suc 0)) fs d b" for b st
    unfolding read_double_def using that l1 by (rule lvl)
  have l3: "read_triple fs dm d b st = Ret (consume fs d (leaves (Suc (Suc (Suc 0))) fs d b) st)"
    if "tree_ok (Suc (Suc (Suc 0))) fs d b" for b st
    unfolding read_triple_def using that l2 by (rule lvl)
  note num = One_nat_def numeral_2_eq_2 numeral_3_eq_3
  show "tree_ok 0 fs d b \<Longrightarrow> with_block fs dm d (take_block fs) b st = Ret (consume fs d (leaves 0 fs d b) st)"
    and "tree_ok 1 fs d b \<Longrightarrow> read_single fs dm d b st = Ret (consume fs d (leaves 1 fs d b) st)"
    and "tree_ok 2 fs d b \<Longrightarrow> read_double fs dm d b st = Ret (consume fs d (leaves 2 fs d b) st)"
    and "tree_ok 3 fs d b \<Longrightarrow> read_triple fs dm d b st = Ret (consume fs d (leaves 3 fs d b) st)"
    unfolding num by (rule l0 l1 l2 l3, assumption)+
qed

lemma read_direct_consume:
  assumes "disk_fs fs dm" and "list_all (blk_ok fs) (live ps)"
  shows "read_direct fs dm d ps st = Ret (consume fs d (live ps) st)"
  using assms(2)
proof (induction ps arbitrary: st)
  case (Cons b ps)
  show ?case
  proof (cases "b = 0 \<or> fst st = 0")
    case False
    with Cons.prems have "blk_ok fs b" "list_all (blk_ok fs) (live ps)" by simp_all
    moreover have "consume fs d (live ps) (consume fs d [b] st) = consume fs d (live (b # ps)) st"
      using False consume_append [of fs d "[b]" "live ps" st] by simp
    ultimately show ?thesis
      using False Cons.IH
      by (simp add: read_block_exact [OF assms(1)] take_block_consume [OF assms(1)])
  qed auto
qed simp

lemma when_wanted_consume:
  assumes "b = 0 \<or> tree_ok k fs d b"
    and "\<And>st. tree_ok k fs d b \<Longrightarrow> step b st = Ret (consume fs d (leaves k fs d b) st)"
  shows "when_wanted step b st = Ret (consume fs d (if b = 0 then [] else leaves k fs d b) st)"
  using assms(1) assms(2) [of st] by (auto simp: when_wanted_def)

lemma read_inode_data_contents:
  assumes "disk_fs fs dm" and "file_ok fs d inode"
  shows "read_inode_data fs dm d inode = Ret (file_contents fs d inode)"
proof -
  let ?b = "\<lambda>k. i_block inode ! (11 + k)"
  have ok: "list_all (blk_ok fs) (live (take 12 (i_block inode)))"
      "?b 1 = 0 \<or> tree_ok 1 fs d (?b 1)" "?b 2 = 0 \<or> tree_ok 2 fs d (?b 2)"
      "?b 3 = 0 \<or> tree_ok 3 fs d (?b 3)"
    using assms(2) unfolding file_ok_def by simp_all
  note lv = read_levels_consume [OF assms(1)]
  have "read_inode_data fs dm d inode =
      Ret (snd (consume fs d (file_blocks fs d inode) (unat (i_size inode), [])))"
    using read_direct_consume [OF assms(1) ok(1)]
      when_wanted_consume [OF ok(2), of "read_single fs dm d", OF lv(2)]
      when_wanted_consume [OF ok(3), of "read_double fs dm d", OF lv(3)]
      when_wanted_consume [OF ok(4), of "read_triple fs dm d", OF lv(4)]
    by (simp add: read_inode_data_def file_blocks_def consume_append)
  then show ?thesis by (simp add: consume_def file_contents_def)
qed

section \<open>Reference definition of a directory\<close>

text \<open>
  The on-disk form of a directory entry: inode number, record length, name length, file type,
  name and slack space.
\<close>

record dirent =
  de_ino :: u32
  de_type :: u8
  de_name :: bytes
  de_slack :: bytes

definition de_rec_len :: "dirent \<Rightarrow> nat" where
  "de_rec_len e = 8 + length (de_name e) + length (de_slack e)"

definition de_ok :: "dirent \<Rightarrow> bool" where
  "de_ok e \<longleftrightarrow> length (de_name e) < 256 \<and> de_rec_len e < 65536"

definition de_encode :: "dirent \<Rightarrow> bytes" where
  "de_encode e = to_le 4 (de_ino e) @ to_le 2 (of_nat (de_rec_len e) :: u16) @
     [of_nat (length (de_name e)), de_type e] @ de_name e @ de_slack e"

definition dir_encode :: "dirent list \<Rightarrow> bytes" where
  "dir_encode es = concat (map de_encode es)"

text \<open>What a lookup and a listing mean on the entries.\<close>

definition dir_lookup :: "dirent list \<Rightarrow> rstr \<Rightarrow> u32 option" where
  "dir_lookup es part =
     map_option de_ino (find (\<lambda>e. de_ino e \<noteq> 0 \<and> utf8_or (de_name e) [] = part) es)"

definition dir_names :: "dirent list \<Rightarrow> rstr list" where
  "dir_names es = filter (\<lambda>n. n \<noteq> lit ''.'' \<and> n \<noteq> lit ''..'')
     (map (\<lambda>e. utf8_or (de_name e) []) (filter (\<lambda>e. de_ino e \<noteq> 0) es))"

lemma length_de_encode [simp]: "length (de_encode e) = de_rec_len e"
  by (simp add: de_encode_def de_rec_len_def)

lemma de_rec_len_pos [simp]: "0 < de_rec_len e" "de_rec_len e \<noteq> 0"
  by (simp_all add: de_rec_len_def)

lemma dir_entry_encode:
  assumes "de_ok e"
  shows "dir_entry (pre @ de_encode e @ post) (length pre) =
    Ret (de_ino e, de_rec_len e, length (de_name e))"
proof -
  let ?dir = "pre @ de_encode e @ post"
  have "subslice ?dir (length pre) (length pre + 4) = Ret (to_le 4 (de_ino e))"
    by (simp add: subslice_def de_encode_def)
  moreover have "subslice ?dir (length pre + 4) (length pre + 6) = Ret (to_le 2 (of_nat (de_rec_len e) :: u16))"
    by (simp add: subslice_def de_encode_def)
  moreover have "index ?dir (length pre + 6) = Ret (of_nat (length (de_name e)))"
    by (simp add: index_def de_encode_def nth_append)
  ultimately show ?thesis
    using assms by (simp add: dir_entry_def from_le_to_le de_ok_def)
qed

lemma dir_name_encode:
  "dir_name (pre @ de_encode e @ post) (length pre) (length (de_name e)) = Ret (utf8_or (de_name e) [])"
  by (simp add: dir_name_def subslice_def de_encode_def)

lemma scan_dir_encode:
  assumes "\<forall>e\<in>set es. de_ok e"
  shows "scan_dir (pre @ dir_encode es) part (length pre) = Some (Ret (dir_lookup es part))"
  using assms
proof (induction es arbitrary: pre)
  case Nil
  then show ?case by (simp add: scan_dir.simps dir_encode_def dir_lookup_def)
next
  case (Cons e es)
  let ?dir = "pre @ de_encode e @ dir_encode es"
  have IH: "scan_dir ?dir part (length pre + de_rec_len e) = Some (Ret (dir_lookup es part))"
    using Cons.IH [of "pre @ de_encode e"] Cons.prems by simp
  have "dir_match ?dir part (length pre) =
      Ret (if de_ino e \<noteq> 0 \<and> utf8_or (de_name e) [] = part then Some (de_ino e) else None,
           length pre + de_rec_len e)"
    using Cons.prems by (simp add: dir_match_def dir_entry_encode dir_name_encode)
  with IH have "scan_dir ?dir part (length pre) = Some (Ret (dir_lookup (e # es) part))"
    by (subst scan_dir.simps) (simp add: dir_lookup_def)
  then show ?case by (simp add: dir_encode_def)
qed

lemma list_entries_encode:
  assumes "\<forall>e\<in>set es. de_ok e"
  shows "list_entries (pre @ dir_encode es) (length pre) acc = Ret (acc @ dir_names es)"
  using assms
proof (induction es arbitrary: pre acc)
  case Nil
  then show ?case by (simp add: list_entries.simps dir_encode_def dir_names_def)
next
  case (Cons e es)
  let ?dir = "pre @ de_encode e @ dir_encode es"
  have IH: "list_entries ?dir (length pre + de_rec_len e) acc = Ret (acc @ dir_names es)" for acc
    using Cons.IH [of "pre @ de_encode e"] Cons.prems by simp
  have "list_entries ?dir (length pre) acc = Ret (acc @ dir_names (e # es))"
    using Cons.prems IH
    by (subst list_entries.simps)
      (auto simp: dir_entry_encode dir_name_encode dir_names_def)
  then show ?case by (simp add: dir_encode_def)
qed

text \<open>A record length of zero in front of the searched name: the search never returns.\<close>

lemma scan_dir_stuck:
  assumes "off < length dir" and "dir_match dir part off = Ret (None, off)"
  shows "scan_dir dir part off = None"
proof (rule ccontr)
  assume "scan_dir dir part off \<noteq> None"
  then obtain r where "scan_dir dir part off = Some r" by blast
  then have "\<not> (off < length dir \<and> dir_match dir part off = Ret (None, off))"
    by (rule scan_dir.raw_induct [rotated]) (auto split: if_splits)
  with assms show False by blast
qed

lemma dir_match_zero_entry:
  assumes "de_ok e" and "dir = to_le 4 (de_ino e) @ [0, 0] @ [of_nat (length (de_name e)), de_type e] @
      de_name e @ post" and "utf8_or (de_name e) [] \<noteq> part"
  shows "dir_match dir part 0 = Ret (None, 0)"
proof -
  have "dir_entry dir 0 = Ret (de_ino e, 0, length (de_name e))"
    using assms(1,2) by (simp add: dir_entry_def subslice_def index_def nth_append from_le_to_le de_ok_def)
  moreover have "dir_name dir 0 (length (de_name e)) = Ret (utf8_or (de_name e) [])"
    using assms(2) by (simp add: dir_name_def subslice_def)
  ultimately show ?thesis using assms(3) by (simp add: dir_match_def)
qed

section \<open>Mounting\<close>

lemma ofold_collect_struct:
  assumes "\<And>i. i \<in> set is \<Longrightarrow> g i \<noteq> Undef"
  shows "ofold (\<lambda>i acc. obind (g i) (\<lambda>x. Ret (acc @ [x]))) is acc \<noteq> Undef"
  using assms by (induction "is" arbitrary: acc) (auto simp: obind_eq_Undef obind_assoc cong: obind_cong)

lemma ofold_collect_length:
  assumes "ofold (\<lambda>i acc. obind (g i) (\<lambda>x. Ret (acc @ [x]))) is acc = Ret r"
  shows "length r = length acc + length is"
  using assms by (induction "is" arbitrary: acc) (force simp: obind_eq_Ret)+

lemma pow2_word_le:
  "unat (push_bit k 1024 :: usize) \<le> 2 ^ 63"
proof -
  have "push_bit k (1024 :: usize) = 2 ^ (10 + k)" by (simp add: push_bit_eq_mult power_add)
  moreover have "unat (2 ^ (10 + k) :: usize) \<le> 2 ^ 63"
  proof (cases "10 + k < 64")
    case True
    then have "(2 :: nat) ^ (10 + k) < 2 ^ 64" by (intro power_strict_increasing) auto
    then have "unat (2 ^ (10 + k) :: usize) = 2 ^ (10 + k)"
      using unat_of_nat64 [of "2 ^ (10 + k)"] by (simp only: of_nat_power of_nat_numeral)
    also have "\<dots> \<le> 2 ^ 63" using True by (intro power_increasing) auto
    finally show ?thesis .
  next
    case False
    then have "(2 ^ (10 + k) :: usize) = 0" by (intro exp_eq_zero_iff [THEN iffD2]) simp
    then show ?thesis by (simp only: unsigned_0 zero_le)
  qed
  ultimately show ?thesis by simp
qed

text \<open>The superblock is the 1040 bytes at offset 1024 of the disk.\<close>

definition disk_superblock :: "disk_data \<Rightarrow> ext2_superblock" where
  "disk_superblock d = parse_superblock (map (\<lambda>i. d (1024 + i)) [0..<1040])"

lemma read_superblock_disk:
  assumes "drivers dm path = Some AtaDriver"
  shows "read_device dm d path 1024 (of_nat superblock_size) = Ret (Some (map (\<lambda>i. d (1024 + i)) [0..<1040]))"
  using ata_read_nat [of 1024 1040 d] assms
  by (simp add: read_device_def superblock_size_def sectors_def del: upt_rec_numeral)

lemma ext2_mount_success:
  assumes "drivers dm path = Some AtaDriver" and "ext2_mount path dm d = Ret (Inr fs)"
  shows "superblock fs = disk_superblock d" "magic (superblock fs) = EXT2_SIGNATURE"
    "blocks_per_group (superblock fs) \<noteq> 0"
    "block_size fs = push_bit (unat (log_block_size (superblock fs) AND 63)) 1024"
    "inode_size fs = (if rev_level (superblock fs) = 0 then 128 else ucast (sb_inode_size (superblock fs)))"
    "length (block_groups fs) = unat (groups_count fs)" "device_path fs = path" "on_disk fs dm"
proof -
  let ?sb = "disk_superblock d"
  have rs: "read_struct superblock_size parse_superblock (map (\<lambda>i. d (1024 + i)) [0..<1040]) 0 = Ret ?sb"
    by (simp add: read_struct_def superblock_size_def disk_superblock_def del: upt_rec_numeral)
  have sz: "\<not> length (map (\<lambda>i. d (1024 + i)) [0..<1040]) < superblock_size"
    by (simp add: superblock_size_def)
  note m = assms(2) [unfolded ext2_mount_def read_superblock_disk [OF assms(1)] obind.simps
      option.case if_not_P [OF sz] rs]
  from m have fs: "superblock fs = ?sb \<and> magic ?sb = EXT2_SIGNATURE \<and> blocks_per_group ?sb \<noteq> 0 \<and>
      block_size fs = push_bit (unat (log_block_size ?sb AND 63)) 1024 \<and>
      inode_size fs = (if rev_level ?sb = 0 then 128 else ucast (sb_inode_size ?sb)) \<and>
      length (block_groups fs) = unat (groups_count fs) \<and> device_path fs = path"
    by (auto simp: Let_def obind_eq_Ret ofold_collect_length [OF sym, OF sym]
        simp del: unsigned_ucast_eq split: if_splits option.splits)
  then show "superblock fs = ?sb" "magic (superblock fs) = EXT2_SIGNATURE"
    "blocks_per_group (superblock fs) \<noteq> 0"
    "block_size fs = push_bit (unat (log_block_size (superblock fs) AND 63)) 1024"
    "inode_size fs = (if rev_level (superblock fs) = 0 then 128 else ucast (sb_inode_size (superblock fs)))"
    "length (block_groups fs) = unat (groups_count fs)" "device_path fs = path"
    by (simp_all only: refl simp_thms)
  show "on_disk fs dm"
    using fs assms(1) pow2_word_le by (simp add: on_disk_def)
qed

lemma ext2_mount_not_Undef:
  assumes "drivers dm path = Some AtaDriver"
  shows "ext2_mount path dm d \<noteq> Undef"
proof -
  have full: "length bs = 32 * unat g"
    if "read_device dm d path off (ucast g * 32) = Ret (Some bs)" for off bs and g :: u32
  proof -
    have n: "unat (ucast g * 32 :: usize) = 32 * unat g"
      using unat_u32_less [of g] by (simp add: unat_word_ariths del: unsigned_ucast_eq)
    moreover from n have "unat (ucast g * 32 :: usize) \<le> 2 ^ 63"
      using unat_u32_less [of g] by simp
    ultimately show ?thesis using read_device_disk [OF assms that] by auto
  qed
  have groups: "ofold (\<lambda>i acc. obind (read_struct bgd_size parse_bgd bs (i * bgd_size))
      (\<lambda>bg. Ret (acc @ [bg]))) [0..<unat g] [] \<noteq> Undef"
    if "length bs = 32 * unat g" for bs and g :: u32
    by (rule ofold_collect_struct) (use that in \<open>simp add: read_struct_def bgd_size_def\<close>)
  show ?thesis
    by (auto simp: ext2_mount_def Let_def obind_eq_Undef bgd_size_def read_struct_def
        simp del: unsigned_ucast_eq split: option.splits
        dest!: full groups [unfolded bgd_size_def read_struct_def])
qed

lemma scan_dir_not_Undef: "scan_dir dir part off \<noteq> Some Undef"
proof
  assume "scan_dir dir part off = Some Undef"
  then have "Undef \<noteq> (Undef :: u32 option outcome)"
    by (rule scan_dir.raw_induct [rotated])
      (auto simp: dir_match_def dir_entry_def dir_name_def obind_eq_Undef obind_eq_Ret
        split: if_splits outcome.splits option.splits)
  then show False by simp
qed

lemma search_dir_not_Undef: "search_dir dir part \<noteq> Undef"
  using scan_dir_not_Undef [of dir part 0] by (auto simp: search_dir_def split: option.splits)

lemma resolve_parts_not_Undef:
  "on_disk fs dm \<Longrightarrow> resolve_parts fs dm d cur parts \<noteq> Undef"
proof (induction parts arbitrary: cur)
  case (Cons p ps)
  have "resolve_step fs dm d cur p \<noteq> Undef"
    using get_inode_not_Undef [OF Cons.prems] read_inode_data_not_Undef [OF Cons.prems]
    by (simp add: resolve_step_def search_dir_not_Undef obind_eq_Undef split: option.splits)
  with Cons show ?case by (simp add: obind_eq_Undef split: option.splits)
qed simp

lemma list_dir_not_Undef: "on_disk fs dm \<Longrightarrow> list_dir fs dm d n \<noteq> Undef"
  by (simp add: list_dir_def obind_eq_Undef get_inode_not_Undef read_inode_data_not_Undef
      list_entries_not_Undef split: option.splits)

section \<open>Properties\<close>

text \<open>
  C21. The file reader refines the Ext2 block tree: on the disk device, when every block of the
  file's direct, single, double and triple indirect trees lies in the LBA space, the result is
  exactly the first \<open>i_size\<close> bytes of the file's data blocks in order.
\<close>

theorem read_inode_data_refines:
  assumes "disk_fs fs dm" and "file_ok fs d inode"
  shows "read_inode_data fs dm d inode = Ret (file_contents fs d inode)"
  using assms by (rule read_inode_data_contents)

text \<open>A file system with blocks of 4 bytes, and an inode with one single indirect block.\<close>

definition fs_demo :: ext2_fs where
  "fs_demo = \<lparr>superblock = parse_superblock [], block_size = 4, inode_size = 128, groups_count = 1,
     block_groups = [parse_bgd []], device_path = lit ''/dev/hda''\<rparr>"

definition inode_demo :: ext2_inode where
  "inode_demo = (parse_inode [])\<lparr>i_size := 6, i_block := [3, 0, 0, 0, 0, 0, 0, 0, 0, 0, 0, 0, 4, 0, 0]\<rparr>"

theorem read_inode_data_refines_witness:
  "read_inode_data fs_demo driver_manager_new ((\<lambda>a. of_nat a)(16 := 5, 17 := 0, 18 := 0, 19 := 0)) inode_demo =
     Ret [12, 13, 14, 15, 20, 21]"
proof -
  let ?d = "(\<lambda>a. of_nat a)(16 := 5, 17 := 0, 18 := 0, 19 := 0) :: disk_data"
  have bl: "blk fs_demo ?d b = map (\<lambda>i. ?d (4 * unat b + i)) [0, 1, 2, 3]" for b
    by (simp add: blk_def fs_demo_def upt_rec mult.commute)
  have p: "ptrs fs_demo ?d 4 = [5]"
    unfolding ptrs_def bl by (simp add: fs_demo_def le32_def upt_rec)
  have dev: "disk_fs fs_demo driver_manager_new"
    by (simp add: disk_fs_def fs_demo_def driver_manager_new_def)
  have ok: "file_ok fs_demo ?d inode_demo"
    using p by (simp add: file_ok_def inode_demo_def blk_ok_def fs_demo_def [THEN arg_cong [where f = block_size]])
  have "file_contents fs_demo ?d inode_demo = [12, 13, 14, 15, 20, 21]"
    using p by (simp add: file_contents_def file_blocks_def inode_demo_def bl)
  with read_inode_data_refines [OF dev ok] show ?thesis by simp
qed

text \<open>
  C22. Directory round trip: on a directory block sequence that encodes a list of entries, the
  name search of \<open>resolve_path\<close> returns, and finds the inode of the first live entry with the
  name; the listing returns the names of the live entries in order, without dot and dot-dot.
\<close>

theorem directory_roundtrip:
  assumes "\<forall>e\<in>set es. de_ok e"
  shows "search_dir (dir_encode es) part = Ret (dir_lookup es part) \<and>
    list_entries (dir_encode es) 0 [] = Ret (dir_names es)"
  using scan_dir_encode [OF assms, of "[]"] list_entries_encode [OF assms, of "[]" "[]"]
  by (simp add: search_dir_def)

theorem directory_roundtrip_witness:
  "search_dir (dir_encode [\<lparr>de_ino = 2, de_type = 2, de_name = lit ''.'', de_slack = [0, 0, 0]\<rparr>,
      \<lparr>de_ino = 11, de_type = 1, de_name = lit ''a'', de_slack = [0, 0, 0]\<rparr>]) (lit ''a'') =
    Ret (Some 11)"
  using directory_roundtrip [of "[\<lparr>de_ino = 2, de_type = 2, de_name = lit ''.'', de_slack = [0, 0, 0]\<rparr>,
      \<lparr>de_ino = 11, de_type = 1, de_name = lit ''a'', de_slack = [0, 0, 0]\<rparr>]" "lit ''a''"]
  by (simp add: de_ok_def de_rec_len_def dir_lookup_def lit_def utf8_or_def from_utf8_def)

text \<open>
  C24. A directory whose first entry has record length zero and another name makes the search
  of \<open>resolve_path\<close> loop for ever, while the listing of the same directory returns.
\<close>

theorem resolve_loops_on_zero_rec_len:
  assumes "length name < 256" and "utf8_or name [] \<noteq> part"
    and "dir = to_le 4 (ino :: u32) @ [0, 0] @ [of_nat (length name), ft] @ name @ post"
  shows "search_dir dir part = Hang \<and> list_entries dir 0 [] = Ret []"
proof
  let ?e = "\<lparr>de_ino = ino, de_type = ft, de_name = name, de_slack = []\<rparr>"
  have ok: "de_ok ?e" using assms(1) by (simp add: de_ok_def de_rec_len_def)
  have "dir_match dir part 0 = Ret (None, 0)"
    using dir_match_zero_entry [OF ok, of dir post part] assms by simp
  then have "scan_dir dir part 0 = None" using assms(3) by (intro scan_dir_stuck) simp_all
  then show "search_dir dir part = Hang" by (simp add: search_dir_def)
  have "dir_entry dir 0 = Ret (ino, 0, length name)"
    using assms(1,3) by (simp add: dir_entry_def subslice_def index_def nth_append from_le_to_le)
  then show "list_entries dir 0 [] = Ret []"
    using assms(3) by (subst list_entries.simps) simp
qed

theorem resolve_loops_on_zero_rec_len_witness:
  "search_dir (to_le 4 (11 :: u32) @ [0, 0] @ [1, 1] @ lit ''a'') (lit ''b'') = Hang"
  using resolve_loops_on_zero_rec_len [of "lit ''a''" "lit ''b''" _ 11 1 "[]"]
  by (simp add: lit_def utf8_or_def from_utf8_def)

text \<open>
  What a successful mount of the disk establishes: the superblock is the one on the disk,
  its signature is right, the block size is 1024 shifted by the logarithm, there is one
  descriptor per block group, and the later reads go to the same device.
\<close>

theorem ext2_mount_sound:
  assumes "drivers dm path = Some AtaDriver" and "ext2_mount path dm d = Ret (Inr fs)"
  shows "superblock fs = disk_superblock d \<and> magic (superblock fs) = EXT2_SIGNATURE \<and>
    block_size fs = push_bit (unat (log_block_size (superblock fs) AND 63)) 1024 \<and>
    length (block_groups fs) = unat (groups_count fs) \<and> on_disk fs dm"
  using ext2_mount_success [OF assms] by blast

text \<open>A disk with an empty revision 0 file system of one block group.\<close>

definition disk_demo :: disk_data where
  "disk_demo = (\<lambda>_. 0)(1080 := 0x53, 1081 := 0xEF, 1056 := 1, 1028 := 1)"

lemma le_map_upt:
  "off + 4 \<le> n \<Longrightarrow> le32 (map f [0..<n]) off = from_le (map f [off, off + 1, off + 2, off + 3])"
  "off + 2 \<le> n \<Longrightarrow> le16 (map f [0..<n]) off = from_le (map f [off, off + 1])"
proof -
  have "take k (drop off (map f [0..<n])) = map f [off..<off + k]" if "off + k \<le> n" for k
    using that by (simp add: drop_map take_map take_upt)
  moreover have "[off..<off + 4] = [off, off + 1, off + 2, off + 3]" "[off..<off + 2] = [off, off + 1]"
    by (simp_all add: upt_rec)
  ultimately show "off + 4 \<le> n \<Longrightarrow> le32 (map f [0..<n]) off = from_le (map f [off, off + 1, off + 2, off + 3])"
      "off + 2 \<le> n \<Longrightarrow> le16 (map f [0..<n]) off = from_le (map f [off, off + 1])"
    unfolding le32_def le16_def by metis+
qed

lemma mount_demo: "\<exists>fs. ext2_mount (lit ''/dev/hda'') driver_manager_new disk_demo = Ret (Inr fs)"
proof -
  let ?p = "lit ''/dev/hda''"
  have dev: "drivers driver_manager_new ?p = Some AtaDriver" by (simp add: driver_manager_new_def)
  let ?sb = "parse_superblock (map (\<lambda>i. disk_demo (1024 + i)) [0..<1040])"
  have sb: "magic ?sb = EXT2_SIGNATURE" "blocks_per_group ?sb = 1" "log_block_size ?sb = 0"
      "blocks_count ?sb = 1" "first_data_block ?sb = 0"
    by (simp_all add: parse_superblock_def le_map_upt disk_demo_def EXT2_SIGNATURE_def
        del: upt_rec_numeral)
  have bg: "read_device driver_manager_new disk_demo ?p 2048 32 =
      Ret (Some (map (\<lambda>i. disk_demo (2048 + i)) [0..<32]))"
    using ata_read_nat [of 2048 32 disk_demo] dev
    by (simp add: read_device_def sectors_def del: upt_rec_numeral)
  show ?thesis
    using read_superblock_disk [OF dev, of disk_demo] sb bg
    by (simp add: ext2_mount_def read_struct_def superblock_size_def bgd_size_def Let_def
        del: upt_rec_numeral)
qed

theorem ext2_mount_sound_witness:
  "\<exists>fs. ext2_mount (lit ''/dev/hda'') driver_manager_new disk_demo = Ret (Inr fs) \<and>
     magic (superblock fs) = EXT2_SIGNATURE \<and> superblock fs = disk_superblock disk_demo"
proof -
  have dev: "drivers driver_manager_new (lit ''/dev/hda'') = Some AtaDriver"
    by (simp add: driver_manager_new_def)
  from mount_demo obtain fs where
    "ext2_mount (lit ''/dev/hda'') driver_manager_new disk_demo = Ret (Inr fs)" by blast
  with ext2_mount_sound [OF dev this] show ?thesis by blast
qed

text \<open>
  C23. Memory safety of the driver on the disk: mounting and, on a mounted file system,
  every inode read, file read, listing and path search stays inside its buffers, whatever the
  disk holds.
\<close>

theorem ext2_memory_safe:
  assumes "drivers dm path = Some AtaDriver"
  shows "ext2_mount path dm d \<noteq> Undef \<and>
    (\<forall>fs n inode p d'. ext2_mount path dm d = Ret (Inr fs) \<longrightarrow>
       get_inode fs dm d' n \<noteq> Undef \<and> read_inode_data fs dm d' inode \<noteq> Undef \<and>
       list_dir fs dm d' n \<noteq> Undef \<and> resolve_path fs dm d' p \<noteq> Undef)"
  using ext2_mount_not_Undef [OF assms] ext2_mount_success(8) [OF assms]
  by (auto simp: resolve_path_def get_inode_not_Undef read_inode_data_not_Undef list_dir_not_Undef
      resolve_parts_not_Undef)

theorem ext2_memory_safe_witness:
  "\<exists>fs. ext2_mount (lit ''/dev/hda'') driver_manager_new disk_demo = Ret (Inr fs) \<and>
     resolve_path fs driver_manager_new disk_demo (lit ''/a/b'') \<noteq> Undef"
proof -
  have dev: "drivers driver_manager_new (lit ''/dev/hda'') = Some AtaDriver"
    by (simp add: driver_manager_new_def)
  from mount_demo ext2_memory_safe [OF dev, of disk_demo] show ?thesis by blast
qed

end
