(* ===== verification/Vfs.thy ===== *)
theory Vfs
  imports Ext2
begin

text \<open>
  The virtual file system of \<open>kernel/src/vfs.rs\<close>: per-session descriptor tables, the RAM file
  system, the initramfs loader, and reads and writes that are routed to a device, to the mounted
  Ext2 volume or to a RAM file. Error strings are the constructors of \<open>vfs_error\<close>. A \<open>Vec\<close> cannot
  grow to \<open>2 ^ 63\<close> bytes (capacity overflow panics); the size of the kernel heap is no limit here.
\<close>

section \<open>State\<close>

record file_descriptor =
  fd_no :: u32
  fd_path :: rstr
  fd_writeable :: bool
  fd_offset :: usize

record ram_file =
  rf_path :: rstr
  content :: bytes

record vfs_state =
  fd_tables :: "u64 \<rightharpoonup> (u32 \<rightharpoonup> file_descriptor)"
  ramfs :: "rstr \<rightharpoonup> ram_file"
  ext2_vol :: "ext2_fs option"
  ext2_err :: "ext2_error option"
  next_fd :: u32

datatype vfs_error =
    InvalidPath
  | FileNotFound
  | InvalidFd
  | SessionNotFound
  | NotInRamfs
  | FdNotWritable
  | DeviceWriteFailed

definition vfs_new :: vfs_state where
  "vfs_new = \<lparr>fd_tables = Map.empty, ramfs = Map.empty, ext2_vol = None, ext2_err = None, next_fd = 3\<rparr>"

section \<open>The initramfs\<close>

definition insert_file :: "rstr \<Rightarrow> bytes \<Rightarrow> (rstr \<rightharpoonup> ram_file) \<Rightarrow> (rstr \<rightharpoonup> ram_file)" where
  "insert_file path c m = (if path \<noteq> [] then m(path \<mapsto> \<lparr>rf_path = path, content = c\<rparr>) else m)"

text \<open>The loop over the lines, with \<open>current_path\<close> and \<open>current_content\<close>.\<close>

fun initramfs_lines :: "rstr \<Rightarrow> rstr \<Rightarrow> rstr list \<Rightarrow> (rstr \<rightharpoonup> ram_file) \<Rightarrow> (rstr \<rightharpoonup> ram_file)" where
  "initramfs_lines cur_path cur_content [] m = insert_file cur_path cur_content m"
| "initramfs_lines cur_path cur_content (line # ls) m =
     (if starts_with line (lit ''FILE:'')
      then initramfs_lines (str_trim (drop 5 line)) [] ls (insert_file cur_path cur_content m)
      else initramfs_lines cur_path
             ((if cur_content \<noteq> [] then cur_content @ [10] else cur_content) @ line) ls m)"

definition populate_from_initramfs :: "vfs_state \<Rightarrow> bytes \<Rightarrow> vfs_state" where
  "populate_from_initramfs v decompressed_data =
     v\<lparr>ramfs := initramfs_lines [] [] (str_lines (utf8_or decompressed_data [])) (ramfs v)\<rparr>"

section \<open>Descriptors\<close>

definition dev_prefix :: rstr where "dev_prefix = lit ''/dev/''"
definition ext2_prefix :: rstr where "ext2_prefix = lit ''/mnt/ext2/''"

definition fd_table :: "vfs_state \<Rightarrow> u64 \<Rightarrow> (u32 \<rightharpoonup> file_descriptor)" where
  "fd_table v sid = (case fd_tables v sid of None \<Rightarrow> Map.empty | Some t \<Rightarrow> t)"

text \<open>\<open>fd_tables[sid][fd] = desc\<close>, through \<open>entry(sid).or_insert_with\<close> or \<open>get_mut\<close>.\<close>

definition put_fd :: "vfs_state \<Rightarrow> u64 \<Rightarrow> u32 \<Rightarrow> file_descriptor \<Rightarrow> vfs_state" where
  "put_fd v sid fd desc =
     v\<lparr>fd_tables := (fd_tables v)(sid \<mapsto> (fd_table v sid)(fd \<mapsto> desc))\<rparr>"

definition vfs_open :: "vfs_state \<Rightarrow> u64 \<Rightarrow> rstr \<Rightarrow> bool \<Rightarrow> (vfs_error + u32) \<times> vfs_state" where
  "vfs_open v session_id path is_write =
     (if contains_str path (lit ''..'') \<or> 0 \<in> set path then (Inl InvalidPath, v)
      else
        let v1 = (if is_write \<and> \<not> starts_with path dev_prefix \<and> ramfs v path = None
                  then v\<lparr>ramfs := (ramfs v)(path \<mapsto> \<lparr>rf_path = path, content = []\<rparr>)\<rparr> else v)
        in if \<not> starts_with path dev_prefix \<and> ramfs v1 path = None then (Inl FileNotFound, v1)
           else let fd = next_fd v1;
                    v2 = v1\<lparr>next_fd := next_fd v1 + 1\<rparr>
                in (Inr fd, put_fd v2 session_id fd
                      \<lparr>fd_no = fd, fd_path = path, fd_writeable = is_write, fd_offset = 0\<rparr>))"

definition vfs_close :: "vfs_state \<Rightarrow> u64 \<Rightarrow> u32 \<Rightarrow> (vfs_error + unit) \<times> vfs_state" where
  "vfs_close v session_id fd =
     (case fd_tables v session_id of
        Some t \<Rightarrow>
          if t fd \<noteq> None
          then (Inr (), v\<lparr>fd_tables := (fd_tables v)(session_id \<mapsto> t(fd := None))\<rparr>)
          else (Inl InvalidFd, v)
      | None \<Rightarrow> (Inl InvalidFd, v))"

definition check_fd_permission :: "vfs_state \<Rightarrow> u64 \<Rightarrow> u32 \<Rightarrow> bool \<Rightarrow> bool" where
  "check_fd_permission v session_id fd require_write =
     (case fd_tables v session_id of
        None \<Rightarrow> False
      | Some t \<Rightarrow> (case t fd of
                      None \<Rightarrow> False
                    | Some desc \<Rightarrow> \<not> (require_write \<and> \<not> fd_writeable desc)))"

section \<open>Reading\<close>

text \<open>The slice of a file at the descriptor's offset, with the empty result at end of file.\<close>

definition file_slice :: "bytes \<Rightarrow> usize \<Rightarrow> usize \<Rightarrow> bytes outcome" where
  "file_slice data offset sz =
     (if offset \<ge> len64 data then Ret []
      else let limit = min (offset + sz) (len64 data)
           in subslice data (unat offset) (unat limit))"

text \<open>The Ext2 branch; \<open>None\<close> falls through to the RAM file system.\<close>

definition read_ext2 ::
    "vfs_state \<Rightarrow> driver_manager \<Rightarrow> disk_data \<Rightarrow> file_descriptor \<Rightarrow> usize \<Rightarrow> bytes option outcome" where
  "read_ext2 v dm d desc sz =
     (if starts_with (fd_path desc) ext2_prefix
      then case ext2_vol v of
             None \<Rightarrow> Ret None
           | Some fs \<Rightarrow>
               obind (resolve_path fs dm d (drop 10 (fd_path desc))) (\<lambda>r.
               case r of None \<Rightarrow> Ret None | Some inode_num \<Rightarrow>
               obind (get_inode fs dm d inode_num) (\<lambda>i.
               case i of None \<Rightarrow> Ret None | Some inode \<Rightarrow>
               if is_dir inode then Ret None
               else obind (read_inode_data fs dm d inode) (\<lambda>file_data.
                    obind (file_slice file_data (fd_offset desc) sz) (\<lambda>data. Ret (Some data)))))
      else Ret None)"

definition advance :: "file_descriptor \<Rightarrow> usize \<Rightarrow> file_descriptor" where
  "advance desc n = desc\<lparr>fd_offset := fd_offset desc + n\<rparr>"

definition vfs_read ::
    "vfs_state \<Rightarrow> u64 \<Rightarrow> u32 \<Rightarrow> usize \<Rightarrow> driver_manager \<Rightarrow> disk_data
       \<Rightarrow> ((vfs_error + bytes) \<times> vfs_state) outcome" where
  "vfs_read v session_id fd sz dm d =
     (case fd_tables v session_id of
        None \<Rightarrow> Ret (Inl SessionNotFound, v)
      | Some t \<Rightarrow>
     (case t fd of
        None \<Rightarrow> Ret (Inl InvalidFd, v)
      | Some desc \<Rightarrow>
          let done = (\<lambda>data. Ret (Inr data, put_fd v session_id fd (advance desc (len64 data))))
          in obind (if starts_with (fd_path desc) dev_prefix
                    then read_device dm d (fd_path desc) (fd_offset desc) sz else Ret None) (\<lambda>r1.
             case r1 of Some data \<Rightarrow> done data | None \<Rightarrow>
             obind (read_ext2 v dm d desc sz) (\<lambda>r2.
             case r2 of Some data \<Rightarrow> done data | None \<Rightarrow>
             (case ramfs v (fd_path desc) of
                Some file \<Rightarrow> obind (file_slice (content file) (fd_offset desc) sz) done
              | None \<Rightarrow> Ret (Inl NotInRamfs, v))))))"

section \<open>Writing\<close>

definition file_write :: "bytes \<Rightarrow> usize \<Rightarrow> bytes \<Rightarrow> bytes outcome" where
  "file_write c offset data =
     (let end_pos = offset + len64 data
      in obind (if end_pos > len64 c
                then if unat end_pos < 2 ^ 63 then Ret (c @ replicate (unat end_pos - length c) 0)
                     else Panic
                else Ret c) (\<lambda>c1. copy_into c1 (unat offset) (unat end_pos) data))"

definition vfs_write ::
    "vfs_state \<Rightarrow> u64 \<Rightarrow> u32 \<Rightarrow> bytes \<Rightarrow> driver_manager \<Rightarrow> disk_data
       \<Rightarrow> ((vfs_error + usize) \<times> vfs_state \<times> driver_manager \<times> disk_data) outcome" where
  "vfs_write v session_id fd data dm d =
     (case fd_tables v session_id of
        None \<Rightarrow> Ret (Inl SessionNotFound, v, dm, d)
      | Some t \<Rightarrow>
     (case t fd of
        None \<Rightarrow> Ret (Inl InvalidFd, v, dm, d)
      | Some desc \<Rightarrow>
          if \<not> fd_writeable desc then Ret (Inl FdNotWritable, v, dm, d)
          else if starts_with (fd_path desc) dev_prefix
          then obind (write_device dm d (fd_path desc) (fd_offset desc) data) (\<lambda>(r, dm', d').
                 case r of
                   None \<Rightarrow> Ret (Inl DeviceWriteFailed, v, dm', d')
                 | Some written \<Rightarrow>
                     Ret (Inr written, put_fd v session_id fd (advance desc written), dm', d'))
          else case ramfs v (fd_path desc) of
                 None \<Rightarrow> Ret (Inl NotInRamfs, v, dm, d)
               | Some file \<Rightarrow>
                   obind (file_write (content file) (fd_offset desc) data) (\<lambda>c'.
                     let v1 = v\<lparr>ramfs := (ramfs v)(fd_path desc \<mapsto> file\<lparr>content := c'\<rparr>)\<rparr>
                     in Ret (Inr (len64 data),
                             put_fd v1 session_id fd (advance desc (len64 data)), dm, d))))"

section \<open>Files at the level of natural numbers\<close>

lemma file_slice_nat:
  assumes "length c < 2 ^ 64"
  shows "file_slice c offset sz =
    (if length c \<le> unat offset then Ret []
     else if unat offset + unat sz < 2 ^ 64 then Ret (take (unat sz) (drop (unat offset) c))
     else Panic)"
  using fb0_read_nat [OF assms, of offset sz] by (simp add: file_slice_def fb0_read_def)

text \<open>The contents after a write: the gap up to the offset is filled with zeros.\<close>

definition written :: "bytes \<Rightarrow> nat \<Rightarrow> bytes \<Rightarrow> bytes" where
  "written c off data = overwrite (c @ replicate (off + length data - length c) 0) off data"

lemma length_written: "length (written c off data) = max (length c) (off + length data)"
  by (simp add: written_def overwrite_def)

lemma nth_written:
  assumes "i < length (written c off data)"
  shows "written c off data ! i =
    (if off \<le> i \<and> i < off + length data then data ! (i - off)
     else if i < length c then c ! i else 0)"
proof -
  let ?p = "c @ replicate (off + length data - length c) 0"
  have len: "off + length data \<le> length ?p" "i < length ?p"
    using assms by (simp_all add: length_written)
  then have "written c off data ! i =
      (if off \<le> i \<and> i < off + length data then data ! (i - off) else ?p ! i)"
    unfolding written_def by (rule nth_overwrite)
  moreover have "?p ! i = (if i < length c then c ! i else 0)"
    using len(2) by (simp add: nth_append)
  ultimately show ?thesis by simp
qed

lemma take_drop_written [simp]: "take (length data) (drop off (written c off data)) = data"
  unfolding written_def by (rule take_drop_overwrite) simp

lemma file_write_nat:
  assumes "length c < 2 ^ 63" and "unat offset + length data < 2 ^ 63"
  shows "file_write c offset data = Ret (written c (unat offset) data)"
proof -
  have "unat (offset + len64 data) = unat offset + length data"
    using assms(2) by (subst unat_add64) simp_all
  with assms show ?thesis
    by (auto simp: file_write_def Let_def copy_into_def written_def word_less_nat_alt not_less)
qed

lemma file_write_Ret:
  assumes "file_write c offset data = Ret c'" and "length c < 2 ^ 63" and "length data < 2 ^ 63"
  shows "c' = written c (unat offset) data \<and> length c' < 2 ^ 63"
proof -
  let ?e = "unat (offset + len64 data)"
  from assms(1) have e: "unat offset \<le> ?e" "length data = ?e - unat offset"
    by (auto simp: file_write_def Let_def obind_eq_Ret copy_into_Ret_iff)
  have "?e < 2 ^ 63"
    using assms(1,2) by (auto simp: file_write_def Let_def obind_eq_Ret copy_into_Ret_iff
        word_less_nat_alt not_less split: if_splits)
  then have b: "unat offset + length data < 2 ^ 63" using e by linarith
  then show ?thesis
    using assms(1) file_write_nat [OF assms(2) b] assms(2) by (auto simp: length_written)
qed

section \<open>Well-formedness\<close>

definition safe_path :: "rstr \<Rightarrow> bool" where
  "safe_path p \<longleftrightarrow> \<not> contains_str p (lit ''..'') \<and> 0 \<notin> set p"

text \<open>One descriptor: its number is its key and was handed out, its path is safe and resolvable.\<close>

definition desc_ok :: "vfs_state \<Rightarrow> u32 \<Rightarrow> file_descriptor \<Rightarrow> bool" where
  "desc_ok v fd desc \<longleftrightarrow> fd_no desc = fd \<and> 3 \<le> fd \<and> fd < next_fd v \<and> safe_path (fd_path desc) \<and>
     (starts_with (fd_path desc) dev_prefix \<or> ramfs v (fd_path desc) \<noteq> None)"

text \<open>No two sessions share a descriptor number, and RAM files are stored under their own path.\<close>

definition fds_disjoint :: "vfs_state \<Rightarrow> bool" where
  "fds_disjoint v \<longleftrightarrow>
     (\<forall>fd s1 s2 d1 d2. fd_table v s1 fd = Some d1 \<longrightarrow> fd_table v s2 fd = Some d2 \<longrightarrow> s1 = s2)"

definition ramfs_ok :: "(rstr \<rightharpoonup> ram_file) \<Rightarrow> bool" where
  "ramfs_ok m \<longleftrightarrow> (\<forall>p f. m p = Some f \<longrightarrow> rf_path f = p \<and> length (content f) < 2 ^ 63)"

definition vfs_wf :: "vfs_state \<Rightarrow> bool" where
  "vfs_wf v \<longleftrightarrow> 3 \<le> next_fd v \<and>
     (\<forall>sid fd desc. fd_table v sid fd = Some desc \<longrightarrow> desc_ok v fd desc) \<and>
     fds_disjoint v \<and> ramfs_ok (ramfs v)"

lemma fd_table_put_fd [simp]:
  "fd_table (put_fd v sid fd desc) s = (if s = sid then (fd_table v sid)(fd \<mapsto> desc) else fd_table v s)"
  by (simp add: fd_table_def put_fd_def)

lemma put_fd_simps [simp]:
  "ramfs (put_fd v sid fd desc) = ramfs v" "next_fd (put_fd v sid fd desc) = next_fd v"
  "ext2_vol (put_fd v sid fd desc) = ext2_vol v" "ext2_err (put_fd v sid fd desc) = ext2_err v"
  by (simp_all add: put_fd_def)

lemma fd_table_upd [simp]:
  "fd_table (v\<lparr>ramfs := r\<rparr>) = fd_table v" "fd_table (v\<lparr>next_fd := n\<rparr>) = fd_table v"
  by (simp_all add: fd_table_def fun_eq_iff)

lemma fd_table_close:
  "fd_table (v\<lparr>fd_tables := (fd_tables v)(sid \<mapsto> t)\<rparr>) s = (if s = sid then t else fd_table v s)"
  by (simp add: fd_table_def)

lemma fd_table_lookup:
  "fd_tables v sid = Some t \<Longrightarrow> t fd = Some desc \<Longrightarrow> fd_table v sid fd = Some desc"
  by (simp add: fd_table_def)

lemma desc_ok_advance [simp]: "desc_ok v fd (advance desc n) = desc_ok v fd desc"
  by (simp add: desc_ok_def advance_def)

lemma desc_ok_put_fd [simp]: "desc_ok (put_fd v sid fd d) = desc_ok v"
  by (simp add: desc_ok_def fun_eq_iff)

lemma vfs_wf_new: "vfs_wf vfs_new"
  by (simp add: vfs_wf_def vfs_new_def fd_table_def fds_disjoint_def ramfs_ok_def)

lemma fds_disjoint_mono:
  assumes "fds_disjoint v" and "\<And>s fd d. fd_table v' s fd = Some d \<Longrightarrow> \<exists>d'. fd_table v s fd = Some d'"
  shows "fds_disjoint v'"
  using assms unfolding fds_disjoint_def by metis

text \<open>Updating an existing descriptor in place.\<close>

lemma vfs_wf_put_same:
  assumes "vfs_wf v" and "fd_table v sid fd = Some desc" and "desc_ok v fd desc'"
  shows "vfs_wf (put_fd v sid fd desc')"
proof -
  have "fds_disjoint (put_fd v sid fd desc')"
    by (rule fds_disjoint_mono [of v]) (use assms in \<open>auto simp: vfs_wf_def split: if_splits\<close>)
  with assms show ?thesis by (auto simp: vfs_wf_def split: if_splits)
qed

lemma vfs_wf_put_new:
  assumes "vfs_wf v" and "next_fd v \<noteq> - 1" and "safe_path p"
    and "starts_with p dev_prefix \<or> ramfs v p \<noteq> None"
  shows "vfs_wf (put_fd (v\<lparr>next_fd := next_fd v + 1\<rparr>) sid (next_fd v)
    \<lparr>fd_no = next_fd v, fd_path = p, fd_writeable = w, fd_offset = 0\<rparr>)"
proof -
  note lt = less_succ [OF assms(2)]
  have le: "3 \<le> next_fd v" using assms(1) by (simp add: vfs_wf_def)
  have old: "fd < next_fd v" if "fd_table v s fd = Some desc" for s fd desc
    using that assms(1) by (auto simp: vfs_wf_def desc_ok_def)
  then have fresh: "fd_table v s (next_fd v) = None" for s by (metis not_Some_eq order_less_irrefl)
  have disj: "fds_disjoint v" using assms(1) by (simp add: vfs_wf_def)
  have "fds_disjoint (put_fd (v\<lparr>next_fd := next_fd v + 1\<rparr>) sid (next_fd v) desc)" for desc
  proof -
    have "s1 = s2" if "fd_table (put_fd (v\<lparr>next_fd := next_fd v + 1\<rparr>) sid (next_fd v) desc) s1 fd = Some d1"
        and "fd_table (put_fd (v\<lparr>next_fd := next_fd v + 1\<rparr>) sid (next_fd v) desc) s2 fd = Some d2"
      for fd s1 s2 d1 d2
    proof (cases "fd = next_fd v")
      case True
      with that fresh show ?thesis by (auto split: if_splits)
    next
      case False
      with that have "fd_table v s1 fd = Some d1" "fd_table v s2 fd = Some d2" by (auto split: if_splits)
      with disj show ?thesis unfolding fds_disjoint_def by blast
    qed
    then show ?thesis unfolding fds_disjoint_def by blast
  qed
  moreover have "desc_ok (v\<lparr>next_fd := next_fd v + 1\<rparr>) fd desc" if "desc_ok v fd desc" for fd desc
    using that lt by (auto simp: desc_ok_def)
  moreover have "desc_ok (v\<lparr>next_fd := next_fd v + 1\<rparr>) (next_fd v)
      \<lparr>fd_no = next_fd v, fd_path = p, fd_writeable = w, fd_offset = 0\<rparr>"
    using assms(3,4) lt le by (simp add: desc_ok_def)
  moreover have "3 \<le> next_fd v + 1" using lt le by order
  ultimately show ?thesis
    using assms(1) unfolding vfs_wf_def by (auto split: if_splits)
qed

lemma vfs_wf_ramfs:
  assumes "vfs_wf v" and "dom (ramfs v) \<subseteq> dom r" and "ramfs_ok r"
  shows "vfs_wf (v\<lparr>ramfs := r\<rparr>)"
proof -
  have "fds_disjoint (v\<lparr>ramfs := r\<rparr>)"
    by (rule fds_disjoint_mono [of v]) (use assms in \<open>simp_all add: vfs_wf_def\<close>)
  moreover have "desc_ok (v\<lparr>ramfs := r\<rparr>) fd desc" if "desc_ok v fd desc" for fd desc
    using that assms(2) by (auto simp: desc_ok_def)
  ultimately show ?thesis using assms unfolding vfs_wf_def by auto
qed

lemma ramfs_ok_upd: "ramfs_ok m \<Longrightarrow> rf_path f = p \<Longrightarrow> length (content f) < 2 ^ 63 \<Longrightarrow> ramfs_ok (m(p \<mapsto> f))"
  by (simp add: ramfs_ok_def)

section \<open>Every operation keeps the state well formed\<close>

lemma vfs_open_wf:
  assumes "vfs_wf v" and "next_fd v \<noteq> - 1"
  shows "vfs_wf (snd (vfs_open v sid p w))"
proof -
  define v1 where "v1 = (if w \<and> \<not> starts_with p dev_prefix \<and> ramfs v p = None
      then v\<lparr>ramfs := (ramfs v)(p \<mapsto> \<lparr>rf_path = p, content = []\<rparr>)\<rparr> else v)"
  have wf: "vfs_wf v1"
    using assms(1) vfs_wf_ramfs [OF assms(1), of "(ramfs v)(p \<mapsto> \<lparr>rf_path = p, content = []\<rparr>)"]
      ramfs_ok_upd [of "ramfs v"] by (auto simp: v1_def vfs_wf_def [of v])
  have nf: "next_fd v1 \<noteq> - 1" using assms(2) by (simp add: v1_def)
  have "snd (vfs_open v sid p w) =
      (if \<not> safe_path p then v
       else if \<not> starts_with p dev_prefix \<and> ramfs v1 p = None then v1
       else put_fd (v1\<lparr>next_fd := next_fd v1 + 1\<rparr>) sid (next_fd v1)
          \<lparr>fd_no = next_fd v1, fd_path = p, fd_writeable = w, fd_offset = 0\<rparr>)"
    by (auto simp: vfs_open_def safe_path_def v1_def Let_def)
  with assms(1) wf vfs_wf_put_new [OF wf nf, of p sid w] show ?thesis by auto
qed

lemma vfs_close_wf:
  assumes "vfs_wf v" shows "vfs_wf (snd (vfs_close v sid fd))"
proof (cases "fd_tables v sid")
  case (Some t)
  let ?v = "v\<lparr>fd_tables := (fd_tables v)(sid \<mapsto> t(fd := None))\<rparr>"
  have tab: "fd_table ?v s = (if s = sid then (fd_table v sid)(fd := None) else fd_table v s)" for s
    using Some by (simp add: fd_table_def)
  have "fds_disjoint ?v"
    by (rule fds_disjoint_mono [of v]) (use assms in \<open>auto simp: tab vfs_wf_def split: if_splits\<close>)
  moreover have "desc_ok ?v = desc_ok v" by (simp add: desc_ok_def fun_eq_iff)
  ultimately have "vfs_wf ?v" using assms tab unfolding vfs_wf_def by (auto split: if_splits)
  with assms Some show ?thesis by (simp add: vfs_close_def)
qed (use assms in \<open>simp add: vfs_close_def\<close>)

text \<open>What a read or a write that returns leaves behind: the state up to the caller's descriptor.\<close>

lemma vfs_read_cases:
  assumes "vfs_read v sid fd sz dm d = Ret (r, v')"
  obtains "v' = v" | desc n where "fd_table v sid fd = Some desc" "v' = put_fd v sid fd (advance desc n)"
  using assms
  by (auto simp: vfs_read_def Let_def obind_eq_Ret fd_table_def split: option.splits)

lemma vfs_write_cases:
  assumes "vfs_write v sid fd data dm d = Ret (r, v', dm', d')"
  obtains "v' = v"
  | desc n where "fd_table v sid fd = Some desc" "v' = put_fd v sid fd (advance desc n)"
  | desc f c' where "fd_table v sid fd = Some desc" "ramfs v (fd_path desc) = Some f"
      "file_write (content f) (fd_offset desc) data = Ret c'"
      "v' = put_fd (v\<lparr>ramfs := (ramfs v)(fd_path desc \<mapsto> f\<lparr>content := c'\<rparr>)\<rparr>) sid fd
              (advance desc (len64 data))"
proof -
  consider "v' = v" | t desc where "fd_tables v sid = Some t" "t fd = Some desc" "fd_writeable desc"
    using assms by (auto simp: vfs_write_def split: option.splits if_splits)
  then show thesis
  proof cases
    case (2 t desc)
    note simps = vfs_write_def 2 option.case if_False not_True_eq_False
    have tab: "fd_table v sid fd = Some desc" using 2 by (rule_tac fd_table_lookup)
    show thesis
    proof (cases "starts_with (fd_path desc) dev_prefix")
      case True
      with assms have "v' = v \<or> (\<exists>n. v' = put_fd v sid fd (advance desc n))"
        by (auto simp: simps obind_eq_Ret split: option.splits)
      with that(1,2) tab show thesis by blast
    next
      case False
      with assms have "v' = v \<or> (\<exists>f c'. ramfs v (fd_path desc) = Some f \<and>
          file_write (content f) (fd_offset desc) data = Ret c' \<and>
          v' = put_fd (v\<lparr>ramfs := (ramfs v)(fd_path desc \<mapsto> f\<lparr>content := c'\<rparr>)\<rparr>) sid fd
              (advance desc (len64 data)))"
        by (cases "ramfs v (fd_path desc)") (auto simp: simps obind_eq_Ret Let_def)
      with that(1,3) tab show thesis by blast
    qed
  qed (use that in blast)
qed

lemma vfs_read_wf:
  assumes "vfs_wf v" and "vfs_read v sid fd sz dm d = Ret (r, v')"
  shows "vfs_wf v'"
  using assms(2)
proof (cases rule: vfs_read_cases)
  case (2 desc n)
  then have "desc_ok v fd desc" using assms(1) by (simp add: vfs_wf_def)
  with 2 assms(1) show ?thesis by (auto intro: vfs_wf_put_same)
qed (use assms in simp)

lemma vfs_write_wf:
  assumes "vfs_wf v" and "length data < 2 ^ 63" and "vfs_write v sid fd data dm d = Ret (r, v', dm', d')"
  shows "vfs_wf v'"
  using assms(3)
proof (cases rule: vfs_write_cases)
  case (2 desc n)
  then have "desc_ok v fd desc" using assms(1) by (simp add: vfs_wf_def)
  with 2 assms(1) show ?thesis by (auto intro: vfs_wf_put_same)
next
  case (3 desc f c')
  let ?v = "v\<lparr>ramfs := (ramfs v)(fd_path desc \<mapsto> f\<lparr>content := c'\<rparr>)\<rparr>"
  have f: "rf_path f = fd_path desc" "length (content f) < 2 ^ 63"
    using 3 assms(1) by (auto simp: vfs_wf_def ramfs_ok_def)
  then have "ramfs_ok ((ramfs v)(fd_path desc \<mapsto> f\<lparr>content := c'\<rparr>))"
    using file_write_Ret [OF 3(3)] assms(1,2) by (intro ramfs_ok_upd) (auto simp: vfs_wf_def)
  then have "vfs_wf ?v" using assms(1) by (intro vfs_wf_ramfs) auto
  moreover have "desc_ok ?v fd desc" using 3 assms(1) by (auto simp: vfs_wf_def desc_ok_def)
  ultimately show ?thesis using 3 by (auto intro: vfs_wf_put_same)
qed (use assms in simp)

section \<open>Operations as one step function\<close>

datatype vfs_op =
    OpOpen rstr bool
  | OpClose u32
  | OpRead u32 usize
  | OpWrite u32 bytes

type_synonym fs_state = "vfs_state \<times> driver_manager \<times> disk_data"

fun vfs_exec :: "u64 \<times> vfs_op \<Rightarrow> fs_state \<Rightarrow> fs_state outcome" where
  "vfs_exec (sid, OpOpen p w) (v, dm, d) = Ret (snd (vfs_open v sid p w), dm, d)"
| "vfs_exec (sid, OpClose fd) (v, dm, d) = Ret (snd (vfs_close v sid fd), dm, d)"
| "vfs_exec (sid, OpRead fd n) (v, dm, d) =
     obind (vfs_read v sid fd n dm d) (\<lambda>(r, v'). Ret (v', dm, d))"
| "vfs_exec (sid, OpWrite fd data) (v, dm, d) =
     obind (vfs_write v sid fd data dm d) (\<lambda>(r, v', dm', d'). Ret (v', dm', d'))"

text \<open>
  The contract the kernel relies on: an operation on behalf of one session leaves the view of
  every other session alone, and keeps the invariant.
\<close>

locale session_isolated =
  fixes exec :: "'sid \<times> 'op \<Rightarrow> 's \<Rightarrow> 's outcome"
    and view :: "'s \<Rightarrow> 'sid \<Rightarrow> 'v"
    and inv :: "'s \<Rightarrow> bool"
    and used :: "'s \<Rightarrow> nat"
    and ok :: "'op \<Rightarrow> bool"
    and bound :: nat
  assumes frame: "exec (sid, op) s = Ret s' \<Longrightarrow> sid' \<noteq> sid \<Longrightarrow> view s' sid' = view s sid'"
    and inv_step: "exec (sid, op) s = Ret s' \<Longrightarrow> inv s \<Longrightarrow> ok op \<Longrightarrow> used s < bound \<Longrightarrow> inv s'"
    and used_step: "exec (sid, op) s = Ret s' \<Longrightarrow> used s < bound \<Longrightarrow> used s' \<le> used s + 1"
begin

lemma trace_frame:
  assumes "ofold exec tr s = Ret s'" and "sid \<notin> fst ` set tr"
  shows "view s' sid = view s sid"
  using assms
proof (induction tr arbitrary: s)
  case (Cons x tr)
  then obtain s1 where s1: "exec x s = Ret s1" "ofold exec tr s1 = Ret s'"
    by (auto simp: obind_eq_Ret)
  with Cons have "view s' sid = view s1 sid" by simp
  also have "\<dots> = view s sid" using s1(1) Cons.prems(2) frame by (cases x) auto
  finally show ?case .
qed simp

lemma trace_inv:
  assumes "ofold exec tr s = Ret s'" and "inv s" and "\<forall>x\<in>set tr. ok (snd x)"
    and "used s + length tr \<le> bound"
  shows "inv s'"
  using assms
proof (induction tr arbitrary: s)
  case (Cons x tr)
  then obtain s1 where s1: "exec x s = Ret s1" "ofold exec tr s1 = Ret s'"
    by (auto simp: obind_eq_Ret)
  obtain sid op where x: "x = (sid, op)" by fastforce
  have lt: "used s < bound" using Cons.prems(4) by simp
  have "inv s1" using inv_step s1(1) Cons.prems lt by (simp add: x)
  moreover have "used s1 + length tr \<le> bound"
    using used_step [of sid op s s1] s1(1) lt Cons.prems(4) by (simp add: x)
  ultimately show ?case using Cons.IH s1(2) Cons.prems(3) by simp
qed simp

end

fun op_ok :: "vfs_op \<Rightarrow> bool" where
  "op_ok (OpWrite fd data) \<longleftrightarrow> length data < 2 ^ 63"
| "op_ok _ \<longleftrightarrow> True"

lemma vfs_open_frame: "s \<noteq> sid \<Longrightarrow> fd_table (snd (vfs_open v sid p w)) s = fd_table v s"
  by (simp add: vfs_open_def Let_def)

lemma vfs_close_frame: "s \<noteq> sid \<Longrightarrow> fd_table (snd (vfs_close v sid fd)) s = fd_table v s"
  by (simp add: vfs_close_def fd_table_close split: option.splits)

lemma vfs_exec_frame:
  assumes "vfs_exec (sid, op) st = Ret st'" and "s \<noteq> sid"
  shows "fd_table (fst st') s = fd_table (fst st) s"
proof (cases op)
  case (OpRead fd n)
  with assms show ?thesis
    by (cases st) (auto simp: obind_eq_Ret elim!: vfs_read_cases)
next
  case (OpWrite fd data)
  with assms show ?thesis
    by (cases st) (auto simp: obind_eq_Ret elim!: vfs_write_cases)
qed (use assms vfs_open_frame vfs_close_frame in \<open>cases st; auto\<close>)+

lemma vfs_exec_wf:
  assumes "vfs_exec (sid, op) st = Ret st'" and "vfs_wf (fst st)" and "op_ok op"
    and "unat (next_fd (fst st)) < 2 ^ 32 - 1"
  shows "vfs_wf (fst st')"
proof (cases op)
  case (OpOpen p w)
  have "next_fd (fst st) \<noteq> - 1"
    using assms(4) by (auto simp: unsigned_minus_1_eq_mask mask_eq_exp_minus_1)
  with OpOpen assms show ?thesis by (cases st) (auto intro: vfs_open_wf)
next
  case (OpRead fd n)
  with assms show ?thesis
    by (cases st) (auto simp: obind_eq_Ret intro: vfs_read_wf)
next
  case (OpWrite fd data)
  with assms show ?thesis
    by (cases st) (auto simp: obind_eq_Ret intro: vfs_write_wf)
qed (use assms vfs_close_wf in \<open>cases st; auto\<close>)

lemma vfs_exec_next_fd:
  assumes "vfs_exec (sid, op) st = Ret st'" and "unat (next_fd (fst st)) < 2 ^ 32 - 1"
  shows "unat (next_fd (fst st')) \<le> unat (next_fd (fst st)) + 1"
proof (cases op)
  case (OpOpen p w)
  have "next_fd (fst st) \<noteq> - 1"
    using assms(2) by (auto simp: unsigned_minus_1_eq_mask mask_eq_exp_minus_1)
  then have "unat (next_fd (fst st) + 1) = unat (next_fd (fst st)) + 1" by (rule unat_succ)
  with OpOpen assms show ?thesis by (cases st) (auto simp: vfs_open_def Let_def)
next
  case (OpRead fd n)
  with assms show ?thesis
    by (cases st) (auto simp: obind_eq_Ret elim!: vfs_read_cases)
next
  case (OpWrite fd data)
  with assms show ?thesis
    by (cases st) (auto simp: obind_eq_Ret elim!: vfs_write_cases)
qed (use assms in \<open>cases st; auto simp: vfs_close_def split: option.splits\<close>)

interpretation vfs: session_isolated vfs_exec "\<lambda>s. fd_table (fst s)" "\<lambda>s. vfs_wf (fst s)"
  "\<lambda>s. unat (next_fd (fst s))" op_ok "2 ^ 32 - 1"
  by unfold_locales (blast intro: vfs_exec_frame vfs_exec_wf vfs_exec_next_fd)+

section \<open>RAM files\<close>

text \<open>The descriptor is served by the RAM file system.\<close>

definition ram_backed :: "vfs_state \<Rightarrow> rstr \<Rightarrow> bool" where
  "ram_backed v p \<longleftrightarrow> \<not> starts_with p dev_prefix \<and> (starts_with p ext2_prefix \<longrightarrow> ext2_vol v = None) \<and>
     ramfs v p \<noteq> None"

lemma read_ext2_none: "ram_backed v (fd_path desc) \<Longrightarrow> read_ext2 v dm d desc sz = Ret None"
  by (auto simp: ram_backed_def read_ext2_def)

lemma fd_table_Some:
  "fd_table v sid fd = Some desc \<Longrightarrow> \<exists>t. fd_tables v sid = Some t \<and> t fd = Some desc"
  by (auto simp: fd_table_def split: option.splits)

lemma vfs_read_ram:
  assumes "vfs_wf v" and "fd_table v sid fd = Some desc" and "ram_backed v (fd_path desc)"
    and "ramfs v (fd_path desc) = Some f" and "unat (fd_offset desc) + unat n < 2 ^ 64"
  defines "data \<equiv> take (unat n) (drop (unat (fd_offset desc)) (content f))"
  shows "vfs_read v sid fd n dm d = Ret (Inr data, put_fd v sid fd (advance desc (len64 data)))"
proof -
  from fd_table_Some [OF assms(2)] obtain t where t: "fd_tables v sid = Some t" "t fd = Some desc"
    by blast
  have "length (content f) < 2 ^ 64" using assms(1,4) by (fastforce simp: vfs_wf_def ramfs_ok_def)
  then have "file_slice (content f) (fd_offset desc) n = Ret data"
    using assms(5) by (simp add: file_slice_nat data_def)
  with t assms(3,4) show ?thesis
    by (simp add: vfs_read_def read_ext2_none ram_backed_def [of v "fd_path desc"])
qed

lemma vfs_write_ram:
  assumes "vfs_wf v" and "fd_table v sid fd = Some desc" and "ram_backed v (fd_path desc)"
    and "fd_writeable desc" and "ramfs v (fd_path desc) = Some f"
    and "unat (fd_offset desc) + length data < 2 ^ 63"
  shows "vfs_write v sid fd data dm d = Ret (Inr (len64 data),
    put_fd (v\<lparr>ramfs := (ramfs v)(fd_path desc \<mapsto>
        f\<lparr>content := written (content f) (unat (fd_offset desc)) data\<rparr>)\<rparr>) sid fd
      (advance desc (len64 data)), dm, d)"
proof -
  from fd_table_Some [OF assms(2)] obtain t where t: "fd_tables v sid = Some t" "t fd = Some desc"
    by blast
  have "length (content f) < 2 ^ 63" using assms(1,5) by (auto simp: vfs_wf_def ramfs_ok_def)
  note fw = file_write_nat [OF this assms(6)]
  show ?thesis using t assms(3-5) fw by (simp add: vfs_write_def ram_backed_def)
qed

section \<open>Loading the initramfs\<close>

text \<open>
  The archive format the loader reads: a line \<open>FILE:path\<close> followed by the lines of the file.
  A listed file is well formed when its path survives trimming and its lines are plain.
\<close>

definition file_lines :: "rstr \<times> rstr list \<Rightarrow> rstr list" where
  "file_lines f = (lit ''FILE:'' @ fst f) # snd f"

definition archive_lines :: "(rstr \<times> rstr list) list \<Rightarrow> rstr list" where
  "archive_lines fs = concat (map file_lines fs)"

definition archive :: "(rstr \<times> rstr list) list \<Rightarrow> bytes" where
  "archive fs = concat (map (\<lambda>l. l @ [10]) (archive_lines fs))"

definition plain_line :: "rstr \<Rightarrow> bool" where
  "plain_line l \<longleftrightarrow> 10 \<notin> set l \<and> (l = [] \<or> last l \<noteq> 13) \<and> (\<forall>b\<in>set l. b < 0x80)"

definition archive_file_ok :: "rstr \<times> rstr list \<Rightarrow> bool" where
  "archive_file_ok f \<longleftrightarrow> fst f \<noteq> [] \<and> str_trim (fst f) = fst f \<and> plain_line (fst f) \<and>
     list_all (\<lambda>l. plain_line l \<and> l \<noteq> [] \<and> \<not> starts_with l (lit ''FILE:'')) (snd f)"

text \<open>The lines of a file joined by newlines.\<close>

fun join_lines :: "rstr list \<Rightarrow> bytes" where
  "join_lines [] = []"
| "join_lines [l] = l"
| "join_lines (l # m # ls) = l @ [10] @ join_lines (m # ls)"

lemma str_lines_archive:
  assumes "list_all plain_line ls"
  shows "str_lines (concat (map (\<lambda>l. l @ [10]) ls)) = ls"
  using assms
proof (induction ls)
  case Nil
  then show ?case by (simp add: str_lines_def)
next
  case (Cons l ls)
  then show ?case by (simp add: plain_line_def str_lines_line)
qed

lemma join_lines_snoc: "ls \<noteq> [] \<Longrightarrow> join_lines (ls @ [l]) = join_lines ls @ [10] @ l"
  by (induction ls rule: join_lines.induct) auto

lemma join_lines_Nil_iff: "\<forall>l\<in>set ls. l \<noteq> [] \<Longrightarrow> join_lines ls = [] \<longleftrightarrow> ls = []"
  by (cases ls rule: join_lines.cases) auto

lemma initramfs_body:
  assumes "\<forall>l\<in>set ls. \<not> starts_with l (lit ''FILE:'')" and "\<forall>l\<in>set (pre @ ls). l \<noteq> []"
  shows "initramfs_lines p (join_lines pre) (ls @ rest) m = initramfs_lines p (join_lines (pre @ ls)) rest m"
  using assms
proof (induction ls arbitrary: pre)
  case (Cons l ls)
  have "join_lines (pre @ [l]) = (if join_lines pre \<noteq> [] then join_lines pre @ [10] else join_lines pre) @ l"
    using Cons.prems join_lines_snoc [of pre l] join_lines_Nil_iff [of pre]
    by (cases "pre = []") auto
  with Cons.IH [of "pre @ [l]"] Cons.prems show ?case by simp
qed simp

lemma initramfs_files:
  assumes "list_all archive_file_ok fs"
  shows "initramfs_lines p (join_lines ls) (archive_lines fs) m =
    foldl (\<lambda>m f. insert_file (fst f) (join_lines (snd f)) m) (insert_file p (join_lines ls) m) fs"
  using assms
proof (induction fs arbitrary: p ls m)
  case Nil
  then show ?case by (simp add: archive_lines_def)
next
  case (Cons f fs)
  have drop5: "drop 5 (lit ''FILE:'' @ fst f) = fst f" by (simp add: lit_def)
  have "initramfs_lines p (join_lines ls) (archive_lines (f # fs)) m =
      initramfs_lines (fst f) (join_lines []) (snd f @ archive_lines fs) (insert_file p (join_lines ls) m)"
    using Cons.prems drop5 by (simp add: archive_lines_def file_lines_def archive_file_ok_def)
  also have "\<dots> = initramfs_lines (fst f) (join_lines (snd f)) (archive_lines fs) (insert_file p (join_lines ls) m)"
    using initramfs_body [of "snd f" "[]"] Cons.prems by (simp add: archive_file_ok_def list_all_iff)
  finally show ?case using Cons by simp
qed

lemma plain_header: "plain_line p \<Longrightarrow> p \<noteq> [] \<Longrightarrow> plain_line (lit ''FILE:'' @ p)"
  by (simp add: plain_line_def lit_def)

lemma plain_archive_lines:
  "list_all archive_file_ok fs \<Longrightarrow> list_all plain_line (archive_lines fs)"
proof (induction fs)
  case (Cons f fs)
  then have "list_all plain_line (snd f)" by (simp add: archive_file_ok_def list_all_iff)
  with Cons have "list_all plain_line (file_lines f)"
    by (simp add: file_lines_def archive_file_ok_def plain_header)
  with Cons show ?case by (simp add: archive_lines_def)
qed (simp add: archive_lines_def)

lemma archive_ascii:
  assumes "list_all plain_line ls" and "b \<in> set (concat (map (\<lambda>l. l @ [10]) ls))"
  shows "b < 0x80"
  using assms by (induction ls) (auto simp: plain_line_def)

lemma populate_archive:
  assumes "list_all archive_file_ok fs"
  shows "ramfs (populate_from_initramfs v (archive fs)) =
    foldl (\<lambda>m f. insert_file (fst f) (join_lines (snd f)) m) (ramfs v) fs"
proof -
  note pl = plain_archive_lines [OF assms]
  have "\<forall>b\<in>set (archive fs). b < 0x80"
    using archive_ascii [OF pl] unfolding archive_def by blast
  then have "utf8_or (archive fs) [] = archive fs" by (simp add: utf8_or_def from_utf8_ascii)
  moreover have "initramfs_lines [] [] (archive_lines fs) (ramfs v) =
      foldl (\<lambda>m f. insert_file (fst f) (join_lines (snd f)) m) (ramfs v) fs"
    using initramfs_files [OF assms, of "[]" "[]" "ramfs v"] by (simp add: insert_file_def)
  ultimately show ?thesis
    using str_lines_archive [OF pl] by (simp add: populate_from_initramfs_def archive_def)
qed

lemma foldl_insert_file:
  assumes "distinct (map fst fs)" and "f \<in> set fs" and "\<forall>g\<in>set fs. fst g \<noteq> []"
  shows "foldl (\<lambda>m f. insert_file (fst f) (join_lines (snd f)) m) m fs (fst f) =
    Some \<lparr>rf_path = fst f, content = join_lines (snd f)\<rparr>"
  using assms
proof (induction fs rule: rev_induct)
  case (snoc g gs)
  show ?case
  proof (cases "f = g")
    case False
    with snoc.prems have "f \<in> set gs" by simp
    moreover from this have "fst f \<noteq> fst g" using snoc.prems(1) by (auto simp: image_iff)
    ultimately have "f \<in> set gs" "fst f \<noteq> fst g" by blast+
    with snoc show ?thesis by (simp add: insert_file_def)
  qed (use snoc.prems in \<open>simp add: insert_file_def\<close>)
qed simp

lemma foldl_insert_other:
  assumes "p \<notin> fst ` set fs"
  shows "foldl (\<lambda>m f. insert_file (fst f) (join_lines (snd f)) m) m fs p = m p"
  using assms by (induction fs rule: rev_induct) (auto simp: insert_file_def)

section \<open>Properties\<close>

text \<open>
  C20. Session isolation: whatever sequence of opens, closes, reads and writes other sessions
  perform, the descriptor table of a session (paths, rights and offsets) does not change.
\<close>

theorem vfs_session_isolation:
  assumes "ofold vfs_exec tr (v, dm, d) = Ret (v', dm', d')" and "sid \<notin> fst ` set tr"
  shows "fd_table v' sid = fd_table v sid"
  using vfs.trace_frame [OF assms] by simp

text \<open>A state with two open descriptors of different sessions on one file.\<close>

definition vfs_demo :: vfs_state where
  "vfs_demo = \<lparr>fd_tables = [1 \<mapsto> [3 \<mapsto> \<lparr>fd_no = 3, fd_path = lit ''/a'', fd_writeable = True, fd_offset = 2\<rparr>],
       2 \<mapsto> [4 \<mapsto> \<lparr>fd_no = 4, fd_path = lit ''/a'', fd_writeable = False, fd_offset = 2\<rparr>]],
     ramfs = [lit ''/a'' \<mapsto> \<lparr>rf_path = lit ''/a'', content = [1, 2, 3]\<rparr>],
     ext2_vol = None, ext2_err = None, next_fd = 5\<rparr>"

lemma vfs_demo_wf: "vfs_wf vfs_demo"
  by (auto simp: vfs_wf_def vfs_demo_def fd_table_def desc_ok_def fds_disjoint_def ramfs_ok_def
      safe_path_def lit_def starts_with_def split: if_splits)

theorem vfs_session_isolation_witness:
  "fd_table (snd (vfs_open vfs_demo 1 (lit ''/b'') True)) 2 = fd_table vfs_demo 2"
  using vfs_session_isolation [where tr = "[(1, OpOpen (lit ''/b'') True)]" and v = vfs_demo and sid = 2
      and dm = driver_manager_new and d = disk_demo]
  by simp

text \<open>
  The descriptor discipline is an invariant of every run: starting from a well-formed
  state, as long as the 32-bit descriptor counter does not run out, descriptors are never
  shared between sessions, are below the counter, have traversal-free paths, and name a device
  path or an existing RAM file; RAM files stay below the allocation limit.
\<close>

theorem vfs_wf_trace:
  assumes "ofold vfs_exec tr (v, dm, d) = Ret (v', dm', d')" and "vfs_wf v"
    and "\<forall>x\<in>set tr. op_ok (snd x)" and "unat (next_fd v) + length tr < 2 ^ 32"
  shows "vfs_wf v'"
  using vfs.trace_inv [OF assms(1)] assms(2-4) by simp

theorem vfs_wf_trace_witness:
  "vfs_wf (snd (vfs_close (snd (vfs_open vfs_new 7 (lit ''/b'') True)) 7 3))"
  using vfs_wf_trace [where tr = "[(7, OpOpen (lit ''/b'') True), (7, OpClose 3)]" and v = vfs_new
      and dm = driver_manager_new and d = disk_demo, OF _ vfs_wf_new]
  by (simp add: vfs_new_def)

text \<open>
  Opening, on every branch: a path with dot-dot or a NUL byte is refused and changes
  nothing; reading a missing file is refused; otherwise a fresh descriptor at offset 0 with the
  requested right is installed for the session, and a RAM file exists for a non-device path
  (created empty exactly when opened for writing and missing).
\<close>

theorem vfs_open_correct:
  assumes "vfs_open v sid p w = (r, v')"
  shows "(\<not> safe_path p \<longrightarrow> r = Inl InvalidPath \<and> v' = v) \<and>
    (safe_path p \<and> \<not> starts_with p dev_prefix \<and> ramfs v p = None \<and> \<not> w \<longrightarrow>
       r = Inl FileNotFound \<and> v' = v) \<and>
    (safe_path p \<and> (starts_with p dev_prefix \<or> ramfs v p \<noteq> None \<or> w) \<longrightarrow>
       r = Inr (next_fd v) \<and> next_fd v' = next_fd v + 1 \<and>
       fd_table v' sid = (fd_table v sid)(next_fd v \<mapsto>
         \<lparr>fd_no = next_fd v, fd_path = p, fd_writeable = w, fd_offset = 0\<rparr>) \<and>
       ramfs v' = (if starts_with p dev_prefix \<or> ramfs v p \<noteq> None then ramfs v
         else (ramfs v)(p \<mapsto> \<lparr>rf_path = p, content = []\<rparr>)))"
  using assms by (auto simp: vfs_open_def safe_path_def Let_def split: if_splits)

theorem vfs_open_correct_witness:
  "fst (vfs_open vfs_demo 9 (lit ''/x/../y'') True) = Inl InvalidPath \<and>
   fst (vfs_open vfs_demo 9 (lit ''/a'') False) = Inr 5"
  using vfs_open_correct [where v = vfs_demo and sid = 9 and p = "lit ''/x/../y''" and w = True, OF prod.collapse [symmetric]]
    vfs_open_correct [where v = vfs_demo and sid = 9 and p = "lit ''/a''" and w = False, OF prod.collapse [symmetric]]
  by (simp add: safe_path_def lit_def starts_with_def vfs_demo_def dev_prefix_def)

text \<open>
  Write then read: a write through a writable descriptor of a RAM file succeeds, zero-fills
  any gap, stores the data at the offset, changes no other byte and no other file, advances the
  offset; and any descriptor of any session on that file at the old offset then reads the data back.
\<close>

theorem vfs_write_read:
  assumes "vfs_wf v" and "fd_table v sid fd = Some desc" and "ram_backed v (fd_path desc)"
    and "fd_writeable desc" and "ramfs v (fd_path desc) = Some f"
    and "unat (fd_offset desc) + length data < 2 ^ 63"
  shows "\<exists>v'. vfs_write v sid fd data dm d = Ret (Inr (len64 data), v', dm, d) \<and>
    fd_table v' sid fd = Some (desc\<lparr>fd_offset := fd_offset desc + len64 data\<rparr>) \<and>
    ramfs v' = (ramfs v)(fd_path desc \<mapsto> f\<lparr>content := written (content f) (unat (fd_offset desc)) data\<rparr>) \<and>
    (\<forall>s2 fd2 desc2. fd_table v' s2 fd2 = Some desc2 \<and> fd_path desc2 = fd_path desc \<and>
       fd_offset desc2 = fd_offset desc \<longrightarrow>
       (\<exists>v2. vfs_read v' s2 fd2 (len64 data) dm d = Ret (Inr data, v2)))"
proof -
  let ?f = "f\<lparr>content := written (content f) (unat (fd_offset desc)) data\<rparr>"
  let ?v = "put_fd (v\<lparr>ramfs := (ramfs v)(fd_path desc \<mapsto> ?f)\<rparr>) sid fd (advance desc (len64 data))"
  note wr = vfs_write_ram [OF assms, of dm d]
  have wf: "vfs_wf ?v" using vfs_write_wf [OF assms(1) _ wr] assms(6) by simp
  have rb: "ram_backed ?v (fd_path desc)" using assms(3) by (simp add: ram_backed_def)
  have n: "unat (len64 data) = length data" using assms(6) by simp
  have "\<exists>v2. vfs_read ?v s2 fd2 (len64 data) dm d = Ret (Inr data, v2)"
    if "fd_table ?v s2 fd2 = Some desc2" "fd_path desc2 = fd_path desc" "fd_offset desc2 = fd_offset desc"
    for s2 fd2 desc2
  proof -
    have "ram_backed ?v (fd_path desc2)" "ramfs ?v (fd_path desc2) = Some ?f"
        "unat (fd_offset desc2) + unat (len64 data) < 2 ^ 64"
      using rb that assms(6) n by simp_all
    from vfs_read_ram [OF wf that(1) this, of dm d] show ?thesis using that(3) by (simp add: n)
  qed
  with wr show ?thesis by (intro exI [of _ ?v]) (auto simp: advance_def)
qed

theorem vfs_write_read_witness:
  "\<exists>v'. vfs_write vfs_demo 1 3 [9, 8] driver_manager_new disk_demo =
      Ret (Inr 2, v', driver_manager_new, disk_demo) \<and>
    ramfs v' (lit ''/a'') = Some \<lparr>rf_path = lit ''/a'', content = [1, 2, 9, 8]\<rparr>"
proof -
  let ?desc = "\<lparr>fd_no = 3, fd_path = lit ''/a'', fd_writeable = True, fd_offset = 2\<rparr> :: file_descriptor"
  have "fd_table vfs_demo 1 3 = Some ?desc" by (simp add: fd_table_def vfs_demo_def)
  moreover have "ram_backed vfs_demo (fd_path ?desc)"
    by (simp add: ram_backed_def vfs_demo_def lit_def starts_with_def dev_prefix_def ext2_prefix_def)
  moreover have "ramfs vfs_demo (fd_path ?desc) = Some \<lparr>rf_path = lit ''/a'', content = [1, 2, 3]\<rparr>"
    by (simp add: vfs_demo_def)
  ultimately show ?thesis
    using vfs_write_read [OF vfs_demo_wf, of 1 3 ?desc "\<lparr>rf_path = lit ''/a'', content = [1, 2, 3]\<rparr>"
        "[9, 8]" driver_manager_new disk_demo]
    by (auto simp: written_def overwrite_def)
qed

text \<open>
  Reads are sequential: reading \<open>n\<close> bytes and then \<open>m\<close> bytes from a RAM file gives, put
  together, what one read of \<open>n + m\<close> bytes gives, and leaves the same state; no byte is skipped
  or repeated, also across end of file.
\<close>

theorem vfs_read_sequential:
  assumes "vfs_wf v" and "fd_table v sid fd = Some desc" and "ram_backed v (fd_path desc)"
    and "unat (fd_offset desc) + unat n + unat m < 2 ^ 64"
  shows "\<exists>a b v1 v2. vfs_read v sid fd n dm d = Ret (Inr a, v1) \<and>
    vfs_read v1 sid fd m dm d = Ret (Inr b, v2) \<and>
    vfs_read v sid fd (n + m) dm d = Ret (Inr (a @ b), v2)"
proof -
  from assms(3) obtain f where f: "ramfs v (fd_path desc) = Some f" by (auto simp: ram_backed_def)
  define a where "a = take (unat n) (drop (unat (fd_offset desc)) (content f))"
  define desc1 where "desc1 = advance desc (len64 a)"
  define v1 where "v1 = put_fd v sid fd desc1"
  define b where "b = take (unat m) (drop (unat (fd_offset desc1)) (content f))"
  have la: "length a \<le> unat n" by (simp add: a_def)
  have la64: "length a < 2 ^ 64" using la assms(4) by linarith
  have off1: "unat (fd_offset desc1) = unat (fd_offset desc) + length a"
    using la la64 assms(4) by (simp add: desc1_def advance_def unat_add64)
  have r1: "vfs_read v sid fd n dm d = Ret (Inr a, v1)"
    using vfs_read_ram [OF assms(1-3) f, of n dm d] assms(4) by (simp add: a_def v1_def desc1_def)
  have v1: "vfs_wf v1" "fd_table v1 sid fd = Some desc1" "ram_backed v1 (fd_path desc1)"
      "ramfs v1 (fd_path desc1) = Some f"
    using vfs_read_wf [OF assms(1) r1] assms(3) f
    by (simp_all add: v1_def desc1_def advance_def ram_backed_def)
  have r2: "vfs_read v1 sid fd m dm d = Ret (Inr b, put_fd v1 sid fd (advance desc1 (len64 b)))"
    using vfs_read_ram [OF v1, of m dm d] off1 la assms(4) by (simp add: b_def)
  have nm: "unat (n + m) = unat n + unat m" using assms(4) by (intro unat_add64) linarith
  have ab: "a @ b = take (unat (n + m)) (drop (unat (fd_offset desc)) (content f))"
    unfolding nm b_def off1 take_split_at [of "unat n"] a_def by (simp add: add.commute)
  have "put_fd v1 sid fd (advance desc1 (len64 b)) = put_fd v sid fd (advance desc (len64 (a @ b)))"
    by (simp add: v1_def desc1_def advance_def put_fd_def fd_table_def add.assoc)
  then have "vfs_read v sid fd (n + m) dm d =
      Ret (Inr (a @ b), put_fd v1 sid fd (advance desc1 (len64 b)))"
    using vfs_read_ram [OF assms(1-3) f, of "n + m" dm d] assms(4) ab nm by (simp add: add.assoc)
  with r1 r2 show ?thesis by blast
qed

theorem vfs_read_sequential_witness:
  "\<exists>a b v1 v2. vfs_read vfs_demo 2 4 1 driver_manager_new disk_demo = Ret (Inr a, v1) \<and>
    vfs_read v1 2 4 5 driver_manager_new disk_demo = Ret (Inr b, v2) \<and>
    vfs_read vfs_demo 2 4 (1 + 5) driver_manager_new disk_demo = Ret (Inr (a @ b), v2)"
proof (rule vfs_read_sequential [OF vfs_demo_wf])
  let ?desc = "\<lparr>fd_no = 4, fd_path = lit ''/a'', fd_writeable = False, fd_offset = 2\<rparr> :: file_descriptor"
  show "fd_table vfs_demo 2 4 = Some ?desc" by (simp add: fd_table_def vfs_demo_def)
  show "ram_backed vfs_demo (fd_path ?desc)"
    by (simp add: ram_backed_def vfs_demo_def lit_def starts_with_def dev_prefix_def ext2_prefix_def)
  show "unat (fd_offset ?desc) + unat (1 :: usize) + unat (5 :: usize) < 2 ^ 64" by simp
qed

text \<open>
  Loading an initramfs is faithful: from an archive of well-formed files with distinct
  paths, every file ends up in the RAM file system under its path with its lines joined by
  newlines, and every other path is left as it was.
\<close>

theorem populate_roundtrip:
  assumes "list_all archive_file_ok fs" and "distinct (map fst fs)"
  shows "(\<forall>f\<in>set fs. ramfs (populate_from_initramfs v (archive fs)) (fst f) =
      Some \<lparr>rf_path = fst f, content = join_lines (snd f)\<rparr>) \<and>
    (\<forall>p. p \<notin> fst ` set fs \<longrightarrow> ramfs (populate_from_initramfs v (archive fs)) p = ramfs v p)"
proof -
  have "\<forall>g\<in>set fs. fst g \<noteq> []" using assms(1) by (simp add: list_all_iff archive_file_ok_def)
  then show ?thesis
    unfolding populate_archive [OF assms(1)]
    using foldl_insert_file [OF assms(2)] foldl_insert_other by blast
qed

theorem populate_roundtrip_witness:
  "ramfs (populate_from_initramfs vfs_new (archive [(lit ''/a'', [lit ''x'', lit ''y''])])) (lit ''/a'') =
     Some \<lparr>rf_path = lit ''/a'', content = [120, 10, 121]\<rparr>"
proof -
  have "str_trim (lit ''/a'') = lit ''/a''"
    by (simp add: str_trim_def strip_ws.simps ws_prefix_len_def ws_encodings_def lit_def starts_with_def)
  then have "list_all archive_file_ok [(lit ''/a'', [lit ''x'', lit ''y''])]"
    by (simp add: archive_file_ok_def plain_line_def starts_with_def lit_def)
  from populate_roundtrip [OF this, of vfs_new] show ?thesis by (simp add: lit_def)
qed

end
