(* ===== verification/Token.thy ===== *)
theory Token
  imports Machine Rust_Str
begin

text \<open>
  Capabilities, privilege levels, tokens, sessions and the per-token part of the address space
  manager: \<open>kernel/src/capability.rs\<close>, \<open>token.rs\<close>, \<open>session.rs\<close> and \<open>mem_alloc\<close> of \<open>vasm.rs\<close>.
  The generated methods of the \<open>bitflags\<close> crate are the parameter \<open>bf\<close>; \<open>bitflags_spec\<close>
  states their documented behaviour. Tokens shared through \<open>Arc<Mutex<Token>>\<close> are referred to
  by their position in the kernel's token store.
\<close>

section \<open>Capabilities\<close>

type_synonym capability = u32

definition NONE :: capability where "NONE = 0"
definition MEM_ALLOC :: capability where "MEM_ALLOC = push_bit 0 1"
definition MEM_FREE :: capability where "MEM_FREE = push_bit 1 1"
definition FS_READ :: capability where "FS_READ = push_bit 2 1"
definition FS_WRITE :: capability where "FS_WRITE = push_bit 3 1"
definition NET_CONNECT :: capability where "NET_CONNECT = push_bit 4 1"
definition NET_BIND :: capability where "NET_BIND = push_bit 5 1"
definition SYS_ADMIN :: capability where "SYS_ADMIN = push_bit 6 1"
definition DRV_MMIO :: capability where "DRV_MMIO = push_bit 7 1"
definition WINE_BRIDGE :: capability where "WINE_BRIDGE = push_bit 8 1"

lemmas cap_defs = NONE_def MEM_ALLOC_def MEM_FREE_def FS_READ_def FS_WRITE_def NET_CONNECT_def
  NET_BIND_def SYS_ADMIN_def DRV_MMIO_def WINE_BRIDGE_def

text \<open>\<open>Capability::all()\<close>, \<open>from_bits_truncate\<close> and \<open>contains\<close>, generated by \<open>bitflags!\<close>.\<close>

record bitflags =
  bf_all :: capability
  bf_truncate :: "u32 \<Rightarrow> capability"
  bf_contains :: "capability \<Rightarrow> capability \<Rightarrow> bool"

definition declared_flags :: capability where
  "declared_flags = NONE OR MEM_ALLOC OR MEM_FREE OR FS_READ OR FS_WRITE OR NET_CONNECT OR
     NET_BIND OR SYS_ADMIN OR DRV_MMIO OR WINE_BRIDGE"

definition bitflags_spec :: "bitflags \<Rightarrow> bool" where
  "bitflags_spec bf \<longleftrightarrow>
     bf_all bf = declared_flags \<and>
     (\<forall>b. bf_truncate bf b = b AND declared_flags) \<and>
     (\<forall>a b. bf_contains bf a b \<longleftrightarrow> a AND b = b)"

definition bitflags_model :: bitflags where
  "bitflags_model = \<lparr>bf_all = declared_flags, bf_truncate = (\<lambda>b. b AND declared_flags),
     bf_contains = (\<lambda>a b. a AND b = b)\<rparr>"

lemma bitflags_model_spec: "bitflags_spec bitflags_model"
  by (simp add: bitflags_spec_def bitflags_model_def)

lemma declared_flags_val: "declared_flags = 0x1FF"
  by (simp add: declared_flags_def cap_defs)

section \<open>Privilege levels\<close>

datatype privilege_level = Root | Admin | User | Process

text \<open>The discriminant (\<open>as u32\<close>); a smaller value is more privileged.\<close>

fun priv_val :: "privilege_level \<Rightarrow> u32" where
  "priv_val Root = 0"
| "priv_val Admin = 1"
| "priv_val User = 2"
| "priv_val Process = 3"

lemma priv_val_inject: "priv_val a = priv_val b \<longleftrightarrow> a = b"
  by (cases a; cases b) simp_all

instantiation privilege_level :: linorder
begin

definition less_eq_privilege_level :: "privilege_level \<Rightarrow> privilege_level \<Rightarrow> bool" where
  "less_eq_privilege_level a b \<longleftrightarrow> priv_val a \<le> priv_val b"

definition less_privilege_level :: "privilege_level \<Rightarrow> privilege_level \<Rightarrow> bool" where
  "less_privilege_level a b \<longleftrightarrow> priv_val a < priv_val b"

instance
  by standard
    (auto simp: less_eq_privilege_level_def less_privilege_level_def order_less_le priv_val_inject)

end

section \<open>Virtual memory areas, tokens and sessions\<close>

record vma =
  vma_start :: usize
  vma_size :: usize
  vma_writeable :: bool
  vma_executable :: bool
  vma_phys :: u64

type_synonym tref = nat

record token =
  tok_id :: u64
  tok_name :: rstr
  privilege :: privilege_level
  parent :: "tref option"
  children :: "tref list"
  vmas :: "(usize, vma) btree"
  pml4_phys_addr :: usize
  memory_limit :: usize
  memory_used :: usize
  is_permanent :: bool
  tok_expiry_tick :: u64
  capabilities :: capability
  run_count :: u32
  is_deprecated :: bool

definition is_expired :: "token \<Rightarrow> u64 \<Rightarrow> bool" where
  "is_expired t current_tick =
     (if is_permanent t then False else current_tick > tok_expiry_tick t)"

definition saturating_add :: "usize \<Rightarrow> usize \<Rightarrow> usize" where
  "saturating_add a b = (if unat a + unat b < 2 ^ 64 then a + b else - 1)"

definition check_quota :: "token \<Rightarrow> usize \<Rightarrow> bool" where
  "check_quota t sz \<longleftrightarrow> saturating_add (memory_used t) sz \<le> memory_limit t"

text \<open>Rounding a byte count up to pages, with the wrap-around of the release build.\<close>

definition pages_of :: "usize \<Rightarrow> usize" where
  "pages_of sz = (sz + 4095) div 4096"

definition cleanup :: "token \<Rightarrow> machine \<Rightarrow> (token \<times> machine) outcome" where
  "cleanup t m =
     obind (ofold (\<lambda>(_, vma) m.
              if vma_phys vma \<noteq> 0 \<and> vma_size vma > 0
              then let pages = pages_of (vma_size vma)
                   in page_table_unmap (pfree m (vma_phys vma) pages) (vma_start vma)
              else Ret m) (vmas t) m)
       (\<lambda>m1. Ret (t\<lparr>vmas := [], memory_used := 0\<rparr>, m1))"

text \<open>\<open>vasm::mem_alloc\<close>: lazy allocation, which only registers the area.\<close>

definition mem_alloc ::
    "bitflags \<Rightarrow> token \<Rightarrow> capability \<Rightarrow> usize \<Rightarrow> usize \<Rightarrow> u64 option \<times> token" where
  "mem_alloc bf t req_cap sz vaddr =
     (if \<not> bf_contains bf (capabilities t) req_cap \<or> \<not> bf_contains bf (capabilities t) MEM_ALLOC
      then (None, t)
      else if \<not> check_quota t sz then (None, t)
      else let vma = \<lparr>vma_start = vaddr, vma_size = sz, vma_writeable = True,
                       vma_executable = False, vma_phys = 0\<rparr>
           in (Some vaddr, t\<lparr>vmas := bt_insert vaddr vma (vmas t),
                             memory_used := memory_used t + sz\<rparr>))"

record session =
  ses_id :: u64
  ses_token :: tref
  ses_expiry_tick :: u64
  is_active :: bool

text \<open>\<open>Session::activate\<close>, given the token its reference points to.\<close>

definition activate :: "session \<Rightarrow> token \<Rightarrow> machine \<Rightarrow> session \<times> machine" where
  "activate s t m =
     (s\<lparr>is_active := True\<rparr>,
      if pml4_phys_addr t \<noteq> 0 then switch_page_directory m (pml4_phys_addr t) else m)"

section \<open>Finding the area of an address\<close>

text \<open>Step 3 of \<open>vasm_handle_page_fault\<close>: the areas at or below the address, nearest first.\<close>

definition find_vma :: "usize \<Rightarrow> (usize, vma) btree \<Rightarrow> usize option" where
  "find_vma fault_addr m =
     map_option fst (find (\<lambda>(start_addr, vma). fault_addr < start_addr + vma_size vma)
       (bt_range_rev fault_addr m))"

text \<open>An area that does not wrap around the address space.\<close>

definition vma_no_wrap :: "usize \<times> vma \<Rightarrow> bool" where
  "vma_no_wrap p \<longleftrightarrow> unat (fst p) + unat (vma_size (snd p)) < 2 ^ 64"

definition in_vma :: "usize \<Rightarrow> usize \<times> vma \<Rightarrow> bool" where
  "in_vma a p \<longleftrightarrow> unat (fst p) \<le> unat a \<and> unat a < unat (fst p) + unat (vma_size (snd p))"

lemma find_vma_Some:
  assumes "find_vma a m = Some s" and "\<forall>p\<in>set m. vma_no_wrap p"
  shows "\<exists>v. (s, v) \<in> set m \<and> in_vma a (s, v)"
proof -
  from assms(1) obtain v where
    "find (\<lambda>(st, v). a < st + vma_size v) (bt_range_rev a m) = Some (s, v)"
    by (auto simp: find_vma_def)
  then have v: "(s, v) \<in> set (bt_range_rev a m)" "a < s + vma_size v"
    by (auto simp: find_Some_iff in_set_conv_nth)
  then have "(s, v) \<in> set m" "s \<le> a" by (auto simp: bt_range_rev_def)
  moreover from this have "unat (s + vma_size v) = unat s + unat (vma_size v)"
    using assms(2) by (intro unat_add64) (auto simp: vma_no_wrap_def)
  ultimately show ?thesis
    using v(2) by (auto simp: in_vma_def word_le_nat_alt word_less_nat_alt)
qed

lemma find_vma_None:
  assumes "find_vma a m = None" and "p \<in> set m" and "vma_no_wrap p"
  shows "\<not> in_vma a p"
proof
  assume in_v: "in_vma a p"
  then have "p \<in> set (bt_range_rev a m)"
    using assms(2) by (simp add: bt_range_rev_def in_vma_def word_le_nat_alt)
  with assms(1) have "\<not> a < fst p + vma_size (snd p)"
    by (auto simp: find_vma_def find_None_iff split: prod.splits)
  moreover have "unat (fst p + vma_size (snd p)) = unat (fst p) + unat (vma_size (snd p))"
    using assms(3) by (intro unat_add64) (simp add: vma_no_wrap_def)
  ultimately show False using in_v by (simp add: in_vma_def word_less_nat_alt)
qed

section \<open>Invariants of a token\<close>

text \<open>The map of areas is ordered, and no area is both writable and executable.\<close>

definition wx_ok :: "token \<Rightarrow> bool" where
  "wx_ok t \<longleftrightarrow> bt_wf (vmas t) \<and>
     (\<forall>p\<in>set (vmas t). \<not> (vma_writeable (snd p) \<and> vma_executable (snd p)))"

lemma wx_ok_insert:
  "wx_ok t \<Longrightarrow> \<not> (vma_writeable v \<and> vma_executable v) \<Longrightarrow> wx_ok (t\<lparr>vmas := bt_insert a v (vmas t)\<rparr>)"
  by (auto simp: wx_ok_def set_bt_insert)

lemma mem_alloc_wx_ok: "wx_ok t \<Longrightarrow> wx_ok (snd (mem_alloc bf t c sz a))"
  by (auto simp: mem_alloc_def wx_ok_def set_bt_insert)

lemma check_quota_iff:
  "check_quota t sz \<longleftrightarrow>
     unat (memory_used t) + unat sz \<le> unat (memory_limit t) \<or> memory_limit t = - 1"
proof (cases "unat (memory_used t) + unat sz < 2 ^ 64")
  case True
  then have "unat (memory_used t + sz) = unat (memory_used t) + unat sz" by (rule unat_add64)
  moreover have "unat (memory_limit t) = 2 ^ 64 - 1" if "memory_limit t = - 1"
    using that by (simp add: unsigned_minus_1_eq_mask mask_eq_exp_minus_1)
  ultimately show ?thesis using True by (auto simp: check_quota_def saturating_add_def word_le_nat_alt)
next
  case False
  then have "\<not> unat (memory_used t) + unat sz \<le> unat (memory_limit t)"
    using unat_u64_less [of "memory_limit t"] by linarith
  with False show ?thesis
    by (simp add: check_quota_def saturating_add_def word_order.extremum_unique)
qed

lemma cleanup_returns:
  assumes "machine_fast m"
  shows "\<exists>m1. cleanup t m = Ret (t\<lparr>vmas := [], memory_used := 0\<rparr>, m1) \<and> machine_fast m1"
proof -
  let ?body = "\<lambda>(_ :: usize, vma) m. if vma_phys vma \<noteq> 0 \<and> vma_size vma > 0
      then let pages = pages_of (vma_size vma)
           in page_table_unmap (pfree m (vma_phys vma) pages) (vma_start vma)
      else Ret m"
  have "\<exists>m1. ofold ?body (vmas t) m = Ret m1 \<and> machine_fast m1"
    using assms
  proof (rule ofold_Ret [where I = machine_fast])
    fix p s assume ok: "machine_fast s"
    show "\<exists>m1. ?body p s = Ret m1 \<and> machine_fast m1"
      using ok page_table_unmap_returns [OF pfree_fast [OF ok]]
      by (cases p) (auto simp: Let_def)
  qed
  then show ?thesis by (auto simp: cleanup_def)
qed

section \<open>Properties\<close>

text \<open>
  \<open>mem_alloc\<close> enforces authority and quota: it succeeds exactly when the token holds both
  the requested capability and \<open>MEM_ALLOC\<close> and the quota admits the size; then the area is
  registered, writable and not executable, and unless the limit is \<open>usize::MAX\<close> the accounted
  memory grows by the size without wrapping and stays within the limit. A refusal changes nothing.
\<close>

theorem mem_alloc_enforces:
  assumes "bitflags_spec bf" and "mem_alloc bf t c sz a = (r, t')" and "bt_wf (vmas t)"
  shows "(r = Some a \<longleftrightarrow> capabilities t AND c = c \<and> capabilities t AND MEM_ALLOC = MEM_ALLOC \<and>
       (unat (memory_used t) + unat sz \<le> unat (memory_limit t) \<or> memory_limit t = - 1)) \<and>
    (r = None \<longrightarrow> t' = t) \<and>
    (r \<noteq> None \<longrightarrow> map_of (vmas t') a = Some \<lparr>vma_start = a, vma_size = sz, vma_writeable = True,
         vma_executable = False, vma_phys = 0\<rparr> \<and>
       (memory_limit t \<noteq> - 1 \<longrightarrow> unat (memory_used t') = unat (memory_used t) + unat sz \<and>
         memory_used t' \<le> memory_limit t'))"
proof -
  have used: "unat (memory_used t + sz) = unat (memory_used t) + unat sz"
    if "unat (memory_used t) + unat sz \<le> unat (memory_limit t)"
    using that unat_u64_less [of "memory_limit t"] by (intro unat_add64) linarith
  show ?thesis
    using assms used
    by (auto simp: mem_alloc_def bitflags_spec_def check_quota_iff word_le_nat_alt split: if_splits)
qed

definition token_demo :: token where
  "token_demo = \<lparr>tok_id = 2, tok_name = [], privilege = Process, parent = None, children = [],
     vmas = [], pml4_phys_addr = 0, memory_limit = 8192, memory_used = 4096, is_permanent = False,
     tok_expiry_tick = 10, capabilities = 5, run_count = 0, is_deprecated = False\<rparr>"

theorem mem_alloc_enforces_witness:
  "fst (mem_alloc bitflags_model token_demo FS_READ 4096 0x5000) = Some 0x5000 \<and>
   fst (mem_alloc bitflags_model token_demo FS_READ 4097 0x5000) \<noteq> Some 0x5000"
proof -
  have spec: "bitflags_spec bitflags_model" by (rule bitflags_model_spec)
  have wf: "bt_wf (vmas token_demo)" by (simp add: token_demo_def)
  have split: "mem_alloc bitflags_model token_demo FS_READ n 0x5000 =
      (fst (mem_alloc bitflags_model token_demo FS_READ n 0x5000),
       snd (mem_alloc bitflags_model token_demo FS_READ n 0x5000))" for n by simp
  from mem_alloc_enforces [OF spec split [of 4096] wf] mem_alloc_enforces [OF spec split [of 4097] wf]
  show ?thesis by (simp add: token_demo_def cap_defs)
qed

text \<open>
  The search of the page-fault handler is exact: for areas that do not wrap around, an
  area is found if and only if some area contains the fault address, and the one found does.
\<close>

theorem find_vma_exact:
  assumes "\<forall>p\<in>set m. vma_no_wrap p"
  shows "(find_vma a m \<noteq> None \<longleftrightarrow> (\<exists>p\<in>set m. in_vma a p)) \<and>
    (\<forall>s. find_vma a m = Some s \<longrightarrow> (\<exists>v. (s, v) \<in> set m \<and> in_vma a (s, v)))"
proof (intro conjI allI impI iffI)
  show "\<exists>p\<in>set m. in_vma a p" if "find_vma a m \<noteq> None"
    using that find_vma_Some [OF _ assms] by blast
  show "find_vma a m \<noteq> None" if "\<exists>p\<in>set m. in_vma a p"
    using that find_vma_None assms by blast
  show "\<exists>v. (s, v) \<in> set m \<and> in_vma a (s, v)" if "find_vma a m = Some s" for s
    using that assms by (rule find_vma_Some)
qed

theorem find_vma_exact_witness:
  "find_vma 0x2FFF [(0x1000, \<lparr>vma_start = 0x1000, vma_size = 0x2000, vma_writeable = True,
     vma_executable = False, vma_phys = 0\<rparr>)] \<noteq> None"
  using find_vma_exact [where a = "0x2FFF" and m = "[(0x1000, \<lparr>vma_start = 0x1000, vma_size = 0x2000, vma_writeable = True,
     vma_executable = False, vma_phys = 0\<rparr>)]"]
  by (simp add: vma_no_wrap_def in_vma_def)

text \<open>
  \<open>Token::cleanup\<close> always returns on a machine with paging up and no runtime checks in the Zig
  code, empties the token's areas, resets its accounted memory, changes no other field and keeps
  the machine well formed.
\<close>

theorem cleanup_total:
  assumes "machine_fast m"
  shows "\<exists>m1. cleanup t m = Ret (t\<lparr>vmas := [], memory_used := 0\<rparr>, m1) \<and> machine_fast m1"
  using assms by (rule cleanup_returns)

theorem cleanup_total_witness:
  "\<exists>m1. cleanup token_demo machine_demo = Ret (token_demo\<lparr>vmas := [], memory_used := 0\<rparr>, m1)"
  using cleanup_total [OF machine_demo_fast, of token_demo] by blast

end
