(* ===== verification/Elf.thy ===== *)
theory Elf
  imports Token
begin

text \<open>
  The ELF64 loaders of \<open>kernel/src/elf_loader.rs\<close> and \<open>compat/linux/src/elf_loader.rs\<close>. The two
  files differ in two places only: the second checks the result of \<open>page_table_map\<close>, and maps
  the stack with other flags; \<open>loader_cfg\<close> carries the difference. A raw slice over the pages
  of a segment is \<open>Undef\<close> when it would not fit them.
\<close>

section \<open>Headers\<close>

definition ELF_MAGIC :: bytes where "ELF_MAGIC = [0x7F, 69, 76, 70]"
definition ELFCLASS64 :: u8 where "ELFCLASS64 = 2"
definition ELFDATA2LSB :: u8 where "ELFDATA2LSB = 1"
definition ET_EXEC :: u16 where "ET_EXEC = 2"
definition ET_DYN :: u16 where "ET_DYN = 3"
definition EM_X86_64 :: u16 where "EM_X86_64 = 62"
definition PT_LOAD :: u32 where "PT_LOAD = 1"
definition PF_EXEC :: u32 where "PF_EXEC = 1"
definition PF_WRITE :: u32 where "PF_WRITE = 2"

text \<open>\<open>size_of::<Elf64Header>()\<close>.\<close>

definition elf_header_size :: nat where "elf_header_size = 64"

record elf64_header =
  e_type :: u16
  e_machine :: u16
  e_entry :: u64
  e_phoff :: usize
  e_phentsize :: usize
  e_phnum :: usize

record elf64_phdr =
  p_type :: u32
  p_flags :: u32
  p_offset :: usize
  p_vaddr :: u64
  p_filesz :: usize
  p_memsz :: usize

datatype elf_error =
    TooShort
  | BadMagic
  | NotElf64
  | NotLittleEndian
  | NotExecutable
  | WrongArch
  | BadProgramHeader
  | AllocFailed
  | MapFailed

record loaded_process =
  entry_point :: u64
  load_base :: u64
  initial_rsp :: u64

text \<open>The byte readers: indexing past the end panics.\<close>

definition read_le :: "nat \<Rightarrow> bytes \<Rightarrow> usize \<Rightarrow> 'a::len word outcome" where
  "read_le n data off = obind (subslice data (unat off) (unat off + n)) (\<lambda>bs. Ret (from_le bs))"

definition read_u16_le :: "bytes \<Rightarrow> usize \<Rightarrow> u16 outcome" where
  "read_u16_le = read_le 2"

definition read_u32_le :: "bytes \<Rightarrow> usize \<Rightarrow> u32 outcome" where
  "read_u32_le = read_le 4"

definition read_u64_le :: "bytes \<Rightarrow> usize \<Rightarrow> u64 outcome" where
  "read_u64_le = read_le 8"

text \<open>Step 1: the identification bytes and the header fields, in the order of the checks.\<close>

definition read_header :: "bytes \<Rightarrow> elf64_header outcome" where
  "read_header d =
     obind (read_u16_le d 16) (\<lambda>ty.
     obind (read_u16_le d 18) (\<lambda>mach.
     obind (read_u64_le d 24) (\<lambda>entry.
     obind (read_u64_le d 32) (\<lambda>phoff.
     obind (read_u16_le d 54) (\<lambda>phentsize.
     obind (read_u16_le d 56) (\<lambda>phnum.
       Ret \<lparr>e_type = ty, e_machine = mach, e_entry = entry, e_phoff = phoff,
             e_phentsize = ucast phentsize, e_phnum = ucast phnum\<rparr>))))))"

definition validate_header :: "bytes \<Rightarrow> (elf_error + elf64_header) outcome" where
  "validate_header d =
     (if length d < elf_header_size then Ret (Inl TooShort)
      else obind (subslice d 0 4) (\<lambda>mag.
        if mag \<noteq> ELF_MAGIC then Ret (Inl BadMagic)
      else obind (index d 4) (\<lambda>cls.
        if cls \<noteq> ELFCLASS64 then Ret (Inl NotElf64)
      else obind (index d 5) (\<lambda>endian.
        if endian \<noteq> ELFDATA2LSB then Ret (Inl NotLittleEndian)
      else obind (read_header d) (\<lambda>h.
        if e_type h \<noteq> ET_EXEC \<and> e_type h \<noteq> ET_DYN then Ret (Inl NotExecutable)
        else if e_machine h \<noteq> EM_X86_64 then Ret (Inl WrongArch)
        else Ret (Inr h))))))"

section \<open>First pass\<close>

definition ph_off :: "elf64_header \<Rightarrow> nat \<Rightarrow> usize" where
  "ph_off h i = e_phoff h + of_nat i * e_phentsize h"

text \<open>The address range of the loadable segments; \<open>Inl\<close> stops the pass.\<close>

fun scan_phdrs ::
    "bytes \<Rightarrow> elf64_header \<Rightarrow> nat list \<Rightarrow> u64 \<times> u64 \<Rightarrow> (elf_error + u64 \<times> u64) outcome" where
  "scan_phdrs d h [] (min_vaddr, max_vaddr) = Ret (Inr (min_vaddr, max_vaddr))"
| "scan_phdrs d h (i # is) (min_vaddr, max_vaddr) =
     (if ph_off h i + e_phentsize h > of_nat (length d) then Ret (Inl BadProgramHeader)
      else obind (read_u32_le d (ph_off h i)) (\<lambda>ty.
           obind (read_u64_le d (ph_off h i + 16)) (\<lambda>vaddr.
           obind (read_u64_le d (ph_off h i + 40)) (\<lambda>memsz.
             scan_phdrs d h is
               (if ty = PT_LOAD
                then (if vaddr < min_vaddr then vaddr else min_vaddr,
                      if vaddr + memsz > max_vaddr then vaddr + memsz else max_vaddr)
                else (min_vaddr, max_vaddr))))))"

definition base_of :: "elf64_header \<Rightarrow> u64 \<Rightarrow> u64" where
  "base_of h min_vaddr = (if e_type h = ET_DYN \<and> min_vaddr = 0 then 0x40000000 else 0)"

section \<open>Second pass\<close>

record loader_cfg =
  check_map :: bool
  stack_flags :: u32

definition kernel_loader :: loader_cfg where
  "kernel_loader = \<lparr>check_map = False, stack_flags = 7\<rparr>"

definition compat_loader :: loader_cfg where
  "compat_loader = \<lparr>check_map = True, stack_flags = 3\<rparr>"

definition read_phdr :: "bytes \<Rightarrow> usize \<Rightarrow> elf64_phdr outcome" where
  "read_phdr d off =
     obind (read_u32_le d (off + 4)) (\<lambda>fl.
     obind (read_u64_le d (off + 8)) (\<lambda>offs.
     obind (read_u64_le d (off + 16)) (\<lambda>va.
     obind (read_u64_le d (off + 32)) (\<lambda>fsz.
     obind (read_u64_le d (off + 40)) (\<lambda>msz.
       Ret \<lparr>p_type = PT_LOAD, p_flags = fl, p_offset = offs, p_vaddr = va, p_filesz = fsz,
             p_memsz = msz\<rparr>)))))"

text \<open>Copying the file bytes into the physical pages and zeroing the rest.\<close>

definition copy_segment :: "bytes \<Rightarrow> elf64_phdr \<Rightarrow> u64 \<Rightarrow> usize \<Rightarrow> machine \<Rightarrow> machine outcome" where
  "copy_segment d ph phys_ptr pages m =
     (if unat (p_memsz ph) \<le> 4096 * unat pages
      then let file_end = min (p_offset ph + p_filesz ph) (of_nat (length d));
               copy_len = file_end - p_offset ph
           in if copy_len > p_memsz ph then Panic
              else obind (subslice d (unat (p_offset ph)) (unat file_end)) (\<lambda>src.
                Ret (m\<lparr>mem := mem_write (mem m) phys_ptr
                         (src @ replicate (unat (p_memsz ph) - unat copy_len) 0)\<rparr>))
      else Undef)"

definition seg_flags :: "elf64_phdr \<Rightarrow> u32" where
  "seg_flags ph = push_bit 1 1 OR (if p_flags ph AND PF_WRITE \<noteq> 0 then push_bit 0 1 else 0) OR
     (if p_flags ph AND PF_EXEC \<noteq> 0 then push_bit 2 1 else 0)"

text \<open>The mapping loop; with \<open>check_map\<close> the first failure ends it.\<close>

fun map_checked :: "usize \<Rightarrow> usize \<Rightarrow> u32 \<Rightarrow> nat list \<Rightarrow> machine \<Rightarrow> (bool \<times> machine) outcome" where
  "map_checked v p flags [] m = Ret (True, m)"
| "map_checked v p flags (i # is) m =
     obind (page_table_map m (v + of_nat i * 4096) (p + of_nat i * 4096) flags) (\<lambda>(rc, m1).
       if rc \<noteq> 0 then Ret (False, m1) else map_checked v p flags is m1)"

definition map_segment ::
    "loader_cfg \<Rightarrow> usize \<Rightarrow> usize \<Rightarrow> u32 \<Rightarrow> usize \<Rightarrow> machine \<Rightarrow> (bool \<times> machine) outcome" where
  "map_segment cfg v p flags pages m =
     (if check_map cfg then map_checked v p flags [0..<unat pages] m
      else obind (map_pages v p flags (unat pages) m) (\<lambda>m1. Ret (True, m1)))"

definition load_segment ::
    "loader_cfg \<Rightarrow> bytes \<Rightarrow> u64 \<Rightarrow> elf64_phdr \<Rightarrow> machine \<Rightarrow> ((elf_error + unit) \<times> machine) outcome" where
  "load_segment cfg d base ph m =
     (let virt_base = base + p_vaddr ph;
          pages = pages_of (p_memsz ph);
          (phys_ptr, m1) = palloc m pages
      in if phys_ptr = 0 then Ret (Inl AllocFailed, m1)
         else obind (copy_segment d ph phys_ptr pages m1) (\<lambda>m2.
              obind (map_segment cfg virt_base phys_ptr (seg_flags ph) pages m2) (\<lambda>(ok, m3).
                Ret (if ok then Inr () else Inl MapFailed, m3))))"

fun load_segments ::
    "loader_cfg \<Rightarrow> bytes \<Rightarrow> elf64_header \<Rightarrow> u64 \<Rightarrow> nat list \<Rightarrow> machine
       \<Rightarrow> ((elf_error + unit) \<times> machine) outcome" where
  "load_segments cfg d h base [] m = Ret (Inr (), m)"
| "load_segments cfg d h base (i # is) m =
     obind (read_u32_le d (ph_off h i)) (\<lambda>ty.
       if ty \<noteq> PT_LOAD then load_segments cfg d h base is m
       else obind (read_phdr d (ph_off h i)) (\<lambda>ph.
            obind (load_segment cfg d base ph m) (\<lambda>(r, m1).
              case r of
                Inl e \<Rightarrow> Ret (Inl e, m1)
              | Inr _ \<Rightarrow> load_segments cfg d h base is m1)))"

section \<open>The loader\<close>

definition stack_pages :: usize where "stack_pages = 2"

definition stack_virt :: u64 where "stack_virt = 0x7FFFF000 - stack_pages * 4096"

definition map_stack :: "loader_cfg \<Rightarrow> machine \<Rightarrow> machine outcome" where
  "map_stack cfg m =
     (let (stack_phys, m1) = palloc m stack_pages
      in map_pages stack_virt stack_phys (stack_flags cfg) (unat stack_pages) m1)"

definition load_elf ::
    "loader_cfg \<Rightarrow> bytes \<Rightarrow> machine \<Rightarrow> ((elf_error + loaded_process) \<times> machine) outcome" where
  "load_elf cfg d m =
     obind (validate_header d) (\<lambda>v.
     case v of Inl e \<Rightarrow> Ret (Inl e, m) | Inr h \<Rightarrow>
     obind (scan_phdrs d h [0..<unat (e_phnum h)] (- 1, 0)) (\<lambda>r.
     case r of Inl e \<Rightarrow> Ret (Inl e, m) | Inr (min_vaddr, max_vaddr) \<Rightarrow>
     let base = base_of h min_vaddr
     in obind (load_segments cfg d h base [0..<unat (e_phnum h)] m) (\<lambda>(s, m1).
        case s of Inl e \<Rightarrow> Ret (Inl e, m1) | Inr _ \<Rightarrow>
        obind (map_stack cfg m1) (\<lambda>m2.
          Ret (Inr \<lparr>entry_point = base + e_entry h, load_base = base,
                     initial_rsp = stack_virt + stack_pages * 4096 - 8\<rparr>, m2)))))"

section \<open>Header validation as a specification\<close>

definition hdr :: "bytes \<Rightarrow> elf64_header" where
  "hdr d = \<lparr>e_type = from_le (take 2 (drop 16 d)), e_machine = from_le (take 2 (drop 18 d)),
     e_entry = from_le (take 8 (drop 24 d)), e_phoff = from_le (take 8 (drop 32 d)),
     e_phentsize = ucast (from_le (take 2 (drop 54 d)) :: u16),
     e_phnum = ucast (from_le (take 2 (drop 56 d)) :: u16)\<rparr>"

text \<open>The first thing wrong with a header, if anything.\<close>

definition header_fault :: "bytes \<Rightarrow> elf_error option" where
  "header_fault d =
     (if length d < 64 then Some TooShort
      else if take 4 d \<noteq> ELF_MAGIC then Some BadMagic
      else if d ! 4 \<noteq> ELFCLASS64 then Some NotElf64
      else if d ! 5 \<noteq> ELFDATA2LSB then Some NotLittleEndian
      else if e_type (hdr d) \<notin> {ET_EXEC, ET_DYN} then Some NotExecutable
      else if e_machine (hdr d) \<noteq> EM_X86_64 then Some WrongArch
      else None)"

lemma read_header_hdr: "64 \<le> length d \<Longrightarrow> read_header d = Ret (hdr d)"
  by (simp add: read_header_def read_u16_le_def read_u64_le_def read_le_def subslice_def hdr_def)

lemma validate_header_spec:
  "validate_header d = Ret (case header_fault d of Some e \<Rightarrow> Inl e | None \<Rightarrow> Inr (hdr d))"
  by (simp add: validate_header_def header_fault_def elf_header_size_def subslice_def index_def
      read_header_hdr)

section \<open>Copying a segment\<close>

text \<open>The bytes the file provides for a segment.\<close>

definition seg_bytes :: "bytes \<Rightarrow> elf64_phdr \<Rightarrow> bytes" where
  "seg_bytes d ph = take (unat (p_filesz ph)) (drop (unat (p_offset ph)) d)"

definition seg_range_ok :: "bytes \<Rightarrow> elf64_phdr \<Rightarrow> bool" where
  "seg_range_ok d ph \<longleftrightarrow> length d < 2 ^ 64 \<and> unat (p_offset ph) + unat (p_filesz ph) < 2 ^ 64"

lemma copy_segment_spec:
  assumes "seg_range_ok d ph" and "unat (p_memsz ph) \<le> 4096 * unat pages"
  shows "copy_segment d ph a pages m =
    (if unat (p_offset ph) \<le> length d \<and> length (seg_bytes d ph) \<le> unat (p_memsz ph)
     then Ret (m\<lparr>mem := mem_write (mem m) a
       (seg_bytes d ph @ replicate (unat (p_memsz ph) - length (seg_bytes d ph)) 0)\<rparr>)
     else Panic)"
proof -
  define off fsz msz where "off = unat (p_offset ph)" and "fsz = unat (p_filesz ph)"
    and "msz = unat (p_memsz ph)"
  define fe where "fe = min (p_offset ph + p_filesz ph) (of_nat (length d))"
  have r: "length d < 2 ^ 64" "off + fsz < 2 ^ 64"
    using assms(1) by (simp_all add: seg_range_ok_def off_def fsz_def)
  have fe: "unat fe = min (off + fsz) (length d)"
    using r by (simp add: fe_def min_def word_le_nat_alt unat_add64 off_def fsz_def)
  have len: "length (seg_bytes d ph) = min fsz (length d - off)"
    by (simp add: seg_bytes_def off_def fsz_def)
  show ?thesis
  proof (cases "off \<le> length d")
    case True
    then have cl: "unat (fe - p_offset ph) = min fsz (length d - off)"
      using fe by (subst unat_sub) (auto simp: word_le_nat_alt off_def)
    have "take (unat fe - off) (drop off d) = seg_bytes d ph"
      using True by (auto simp: fe seg_bytes_def off_def fsz_def min_def)
    with True cl fe len assms(2) show ?thesis
      by (auto simp: copy_segment_def Let_def fe_def [symmetric] word_less_nat_alt subslice_def
          off_def [symmetric] msz_def)
  next
    case False
    then have "unat fe < off" using fe by simp
    with False assms(2) show ?thesis
      by (auto simp: copy_segment_def Let_def fe_def [symmetric] subslice_def off_def [symmetric])
  qed
qed

lemma copy_segment_not_Undef:
  "unat (p_memsz ph) \<le> 4096 * unat pages \<Longrightarrow> copy_segment d ph a pages m \<noteq> Undef"
  by (simp add: copy_segment_def Let_def obind_eq_Undef)

lemma copy_segment_ok: "copy_segment d ph a pages m = Ret m1 \<Longrightarrow> machine_ok m1 = machine_ok m"
  by (auto simp: copy_segment_def Let_def obind_eq_Ret split: if_splits)

section \<open>Totality and memory safety\<close>

text \<open>An allocation that succeeds is large enough for the segment it was sized for.\<close>

lemma pages_of_covers:
  assumes "machine_ok m" and "palloc m (pages_of sz) = (p, m1)" and "p \<noteq> 0"
  shows "unat sz \<le> 4096 * unat (pages_of sz)"
proof -
  obtain s where "phys_alloc (phys m) (pages_of sz) = (p, s)"
    using assms(2) by (auto simp: palloc_def split: prod.splits)
  moreover have "pool_ok (phys m)" using assms(1) by (simp add: machine_ok_def)
  ultimately have "0 < pages_of sz" using ppa.alloc_region assms(3) by blast
  then have pos: "0 < unat (sz + 4095) div 4096"
    by (simp add: pages_of_def word_less_nat_alt unat_div)
  have nowrap: "unat sz + 4095 < 2 ^ 64"
  proof (rule ccontr)
    assume "\<not> unat sz + 4095 < 2 ^ 64"
    then have "unat (sz + 4095) = unat sz + 4095 - 2 ^ 64"
      using unat_u64_less [of sz] by (simp add: unat_word_ariths le_mod_geq)
    then have "unat (sz + 4095) < 4096" using unat_u64_less [of sz] by linarith
    with pos show False by simp
  qed
  then have "unat (sz + 4095) = unat sz + 4095" by (subst unat_add64) simp_all
  then have "unat (pages_of sz) = (unat sz + 4095) div 4096" by (simp add: pages_of_def unat_div)
  moreover have "(unat sz + 4095) div 4096 * 4096 + (unat sz + 4095) mod 4096 = unat sz + 4095"
    by (rule div_mult_mod_eq)
  moreover have "(unat sz + 4095) mod 4096 < 4096" by simp
  ultimately show ?thesis by linarith
qed

lemma map_checked_cases:
  "machine_ok m \<Longrightarrow> map_checked v p f is m = Panic \<or>
     (\<exists>ok m1. map_checked v p f is m = Ret (ok, m1) \<and> machine_ok m1)"
proof (induction "is" arbitrary: m)
  case (Cons i "is")
  from page_table_map_cases [OF Cons.prems, of "v + of_nat i * 4096" "p + of_nat i * 4096" f]
  consider "page_table_map m (v + of_nat i * 4096) (p + of_nat i * 4096) f = Panic"
    | rc m1 where "page_table_map m (v + of_nat i * 4096) (p + of_nat i * 4096) f = Ret (rc, m1)"
      "machine_ok m1" by blast
  then show ?case
  proof cases
    case (2 rc m1)
    with Cons.IH [of m1] show ?thesis by (cases "rc = 0") auto
  qed simp
next
  case Nil
  then show ?case by (intro disjI2 exI [of _ True] exI [of _ m]) simp
qed

lemma map_segment_cases:
  assumes "machine_ok m"
  shows "map_segment cfg v p f n m = Panic \<or>
    (\<exists>ok m1. map_segment cfg v p f n m = Ret (ok, m1) \<and> machine_ok m1)"
proof (cases "check_map cfg")
  case True
  then show ?thesis using map_checked_cases [OF assms] by (simp add: map_segment_def)
next
  case False
  then show ?thesis using map_pages_cases [OF assms, of v p f "unat n"] by (auto simp: map_segment_def)
qed

lemma load_segment_safe:
  assumes "machine_ok m"
  shows "load_segment cfg d base ph m = Panic \<or>
    (\<exists>r m1. load_segment cfg d base ph m = Ret (r, m1) \<and> machine_ok m1)"
proof -
  obtain a m1 where a: "palloc m (pages_of (p_memsz ph)) = (a, m1)" by fastforce
  have ok1: "machine_ok m1" using assms a by (rule palloc_ok)
  consider "a = 0" | "a \<noteq> 0" "copy_segment d ph a (pages_of (p_memsz ph)) m1 = Panic"
    | m2 where "a \<noteq> 0" "copy_segment d ph a (pages_of (p_memsz ph)) m1 = Ret m2"
    using copy_segment_not_Undef [OF pages_of_covers [OF assms a]]
    by (cases "copy_segment d ph a (pages_of (p_memsz ph)) m1")
      (auto simp: copy_segment_def Let_def obind_eq_Hang subslice_def split: if_splits)
  then show ?thesis
  proof cases
    case (3 m2)
    then have ok2: "machine_ok m2" using copy_segment_ok ok1 by blast
    from map_segment_cases [OF ok2, of cfg "base + p_vaddr ph" a "seg_flags ph" "pages_of (p_memsz ph)"]
    show ?thesis using 3 a by (auto simp: load_segment_def)
  qed (use a ok1 in \<open>simp_all add: load_segment_def\<close>)
qed

lemma read_le_cases: "read_le n d off = Panic \<or> (\<exists>w. read_le n d off = Ret w)"
  by (simp add: read_le_def subslice_def)

lemma read_phdr_cases: "read_phdr d off = Panic \<or> (\<exists>ph. read_phdr d off = Ret ph)"
  by (simp add: read_phdr_def read_u32_le_def read_u64_le_def read_le_def subslice_def)

lemma load_segments_safe:
  assumes "machine_ok m"
  shows "load_segments cfg d h base is m = Panic \<or>
    (\<exists>r m1. load_segments cfg d h base is m = Ret (r, m1) \<and> machine_ok m1)"
  using assms
proof (induction "is" arbitrary: m)
  case (Cons i "is")
  consider "read_u32_le d (ph_off h i) = Panic" | ty where "read_u32_le d (ph_off h i) = Ret ty" "ty \<noteq> PT_LOAD"
    | "read_u32_le d (ph_off h i) = Ret PT_LOAD" "read_phdr d (ph_off h i) = Panic"
    | ph where "read_u32_le d (ph_off h i) = Ret PT_LOAD" "read_phdr d (ph_off h i) = Ret ph"
    using read_le_cases [of 4 d "ph_off h i"] read_phdr_cases [of d "ph_off h i"]
    unfolding read_u32_le_def by metis
  then show ?case
  proof cases
    case (4 ph)
    from load_segment_safe [OF Cons.prems, of cfg d base ph] show ?thesis
    proof
      assume "\<exists>r m1. load_segment cfg d base ph m = Ret (r, m1) \<and> machine_ok m1"
      then obtain r m1 where "load_segment cfg d base ph m = Ret (r, m1)" "machine_ok m1" by blast
      with 4 Cons.IH [of m1] show ?thesis by (cases r) simp_all
    qed (use 4 in simp)
  qed (use Cons in simp_all)
qed simp

lemma scan_phdrs_cases:
  "scan_phdrs d h is r = Panic \<or> (\<exists>x. scan_phdrs d h is r = Ret x)"
proof (induction d h "is" r rule: scan_phdrs.induct)
  case (2 d h i "is" lo hi)
  then show ?case
    by (auto simp: read_u32_le_def read_u64_le_def read_le_def subslice_def)
qed simp

lemma map_stack_cases:
  "machine_ok m \<Longrightarrow> map_stack cfg m = Panic \<or> (\<exists>m1. map_stack cfg m = Ret m1 \<and> machine_ok m1)"
  by (cases "palloc m stack_pages") (auto simp: map_stack_def intro!: map_pages_cases)

text \<open>Loading returns with a well-formed machine or panics.\<close>

lemma load_elf_total:
  assumes "machine_ok m"
  shows "load_elf cfg d m = Panic \<or> (\<exists>r m1. load_elf cfg d m = Ret (r, m1) \<and> machine_ok m1)"
proof (cases "header_fault d")
  case None
  define h ix where "h = hdr d" and "ix = [0..<unat (e_phnum (hdr d))]"
  note v = validate_header_spec [of d, unfolded None option.case]
  from scan_phdrs_cases [of d h ix "(- 1, 0)"] consider
    "scan_phdrs d h ix (- 1, 0) = Panic" | e where "scan_phdrs d h ix (- 1, 0) = Ret (Inl e)"
    | lo hi where "scan_phdrs d h ix (- 1, 0) = Ret (Inr (lo, hi))" by (metis surj_pair sum.exhaust)
  then show ?thesis
  proof cases
    case (3 lo hi)
    from load_segments_safe [OF assms, of cfg d h "base_of h lo" ix] show ?thesis
    proof
      assume "\<exists>r m1. load_segments cfg d h (base_of h lo) ix m = Ret (r, m1) \<and> machine_ok m1"
      then obtain r m1 where ls: "load_segments cfg d h (base_of h lo) ix m = Ret (r, m1)"
          "machine_ok m1" by blast
      from map_stack_cases [OF ls(2), of cfg] show ?thesis
        using 3 v ls by (cases r) (auto simp: load_elf_def h_def ix_def Let_def)
    qed (use 3 v in \<open>simp add: load_elf_def h_def ix_def Let_def\<close>)
  qed (use v assms in \<open>simp_all add: load_elf_def h_def ix_def\<close>)
qed (use assms in \<open>simp add: load_elf_def validate_header_spec\<close>)

lemma load_elf_ok: "machine_ok m \<Longrightarrow> load_elf cfg d m = Ret (r, m1) \<Longrightarrow> machine_ok m1"
  using load_elf_total [of m cfg d] by auto

section \<open>Properties\<close>

text \<open>
  Header validation: the loader reports exactly the first fault of the header, in the order
  length, magic, class, byte order, type, machine, and then leaves the machine untouched; and a
  load that succeeds had no fault, enters at the base plus the header's entry, uses the 1 GB base
  only for position-independent files, and starts the stack 8 bytes below \<open>0x7FFFF000\<close>.
\<close>

theorem load_elf_validates:
  "(\<forall>e. header_fault d = Some e \<longrightarrow> load_elf cfg d m = Ret (Inl e, m)) \<and>
   (\<forall>p m1. load_elf cfg d m = Ret (Inr p, m1) \<longrightarrow>
      header_fault d = None \<and> entry_point p = load_base p + e_entry (hdr d) \<and>
      load_base p \<in> {0, 0x40000000} \<and> (load_base p \<noteq> 0 \<longrightarrow> e_type (hdr d) = ET_DYN) \<and>
      initial_rsp p = 0x7FFFF000 - 8)"
proof (intro conjI allI impI)
  fix e assume "header_fault d = Some e"
  then show "load_elf cfg d m = Ret (Inl e, m)" by (simp add: load_elf_def validate_header_spec)
next
  fix p m1 assume ld: "load_elf cfg d m = Ret (Inr p, m1)"
  then have none: "header_fault d = None"
    by (auto simp: load_elf_def validate_header_spec split: option.splits)
  let ?ix = "[0..<unat (e_phnum (hdr d))]"
  from ld none obtain lo hi where scan: "scan_phdrs d (hdr d) ?ix (- 1, 0) = Ret (Inr (lo, hi))"
    by (cases "scan_phdrs d (hdr d) ?ix (- 1, 0)" rule: outcome.exhaust)
      (auto simp: load_elf_def validate_header_spec split: sum.split_asm)
  from ld none scan obtain s m2 where seg: "load_segments cfg d (hdr d) (base_of (hdr d) lo) ?ix m = Ret (s, m2)"
    by (auto simp: load_elf_def validate_header_spec obind_eq_Ret Let_def)
  with ld none scan have "\<exists>mv. p = \<lparr>entry_point = base_of (hdr d) mv + e_entry (hdr d),
      load_base = base_of (hdr d) mv, initial_rsp = stack_virt + stack_pages * 4096 - 8\<rparr>"
    by (cases s) (auto simp: load_elf_def validate_header_spec obind_eq_Ret Let_def)
  then obtain mv where p: "p = \<lparr>entry_point = base_of (hdr d) mv + e_entry (hdr d),
      load_base = base_of (hdr d) mv, initial_rsp = stack_virt + stack_pages * 4096 - 8\<rparr>" ..
  show "header_fault d = None" by (rule none)
  show "entry_point p = load_base p + e_entry (hdr d)" "load_base p \<in> {0, 0x40000000}"
      "initial_rsp p = 0x7FFFF000 - 8" "load_base p \<noteq> 0 \<Longrightarrow> e_type (hdr d) = ET_DYN"
    by (auto simp: p base_of_def stack_virt_def stack_pages_def split: if_splits)
qed

theorem load_elf_validates_witness:
  "load_elf kernel_loader (0x7F # replicate 80 0) machine_demo = Ret (Inl BadMagic, machine_demo)"
proof -
  have "replicate 3 (0 :: u8) = [0, 0, 0]" by (simp add: numeral_3_eq_3)
  then have "header_fault (0x7F # replicate 80 0) = Some BadMagic"
    by (simp add: header_fault_def ELF_MAGIC_def)
  with load_elf_validates [of "0x7F # replicate 80 0" kernel_loader machine_demo] show ?thesis by blast
qed

text \<open>
  Copying a segment, on every branch: for a segment that fits its pages and whose file range
  does not wrap, the copy panics if the file offset is past the end or the available file
  bytes exceed the memory size; otherwise the memory of the segment holds those bytes followed
  by zeros up to the memory size, and no byte outside the segment changes.
\<close>

theorem copy_segment_exact:
  assumes "seg_range_ok d ph" and "unat (p_memsz ph) \<le> 4096 * unat pages"
  shows "if unat (p_offset ph) \<le> length d \<and> length (seg_bytes d ph) \<le> unat (p_memsz ph)
    then \<exists>m1. copy_segment d ph a pages m = Ret m1 \<and>
      mem_read (mem m1) a (unat (p_memsz ph)) =
        seg_bytes d ph @ replicate (unat (p_memsz ph) - length (seg_bytes d ph)) 0 \<and>
      (\<forall>x. unat (p_memsz ph) \<le> unat (x - a) \<longrightarrow> mem m1 x = mem m x) \<and> phys m1 = phys m
    else copy_segment d ph a pages m = Panic"
proof (cases "unat (p_offset ph) \<le> length d \<and> length (seg_bytes d ph) \<le> unat (p_memsz ph)")
  case True
  let ?bs = "seg_bytes d ph @ replicate (unat (p_memsz ph) - length (seg_bytes d ph)) 0"
  have len: "length ?bs = unat (p_memsz ph)" using True by simp
  then have "length ?bs \<le> 2 ^ 64" using unat_u64_less [of "p_memsz ph"] by simp
  then have "mem_read (mem_write (mem m) a ?bs) a (unat (p_memsz ph)) = ?bs"
    using mem_read_write_same [of ?bs] len by metis
  moreover have "mem_write (mem m) a ?bs x = mem m x" if "unat (p_memsz ph) \<le> unat (x - a)" for x
    using that len by (intro mem_write_other) simp
  ultimately show ?thesis using True copy_segment_spec [OF assms, of a m] by simp
next
  case False
  show ?thesis unfolding if_not_P [OF False] copy_segment_spec [OF assms] by (rule refl)
qed

theorem copy_segment_exact_witness:
  "\<exists>m1. copy_segment [7, 8, 9] \<lparr>p_type = 1, p_flags = 5, p_offset = 1, p_vaddr = 0x1000, p_filesz = 2,
      p_memsz = 3\<rparr> 0x300000 1 machine_demo = Ret m1 \<and> mem_read (mem m1) 0x300000 3 = [8, 9, 0]"
  using copy_segment_exact [of "[7, 8, 9]" "\<lparr>p_type = 1, p_flags = 5, p_offset = 1, p_vaddr = 0x1000,
      p_filesz = 2, p_memsz = 3\<rparr>" 1 "0x300000" machine_demo]
  by (auto simp: seg_range_ok_def seg_bytes_def)



text \<open>
  The page permissions of a segment are those of its program header: user accessible,
  writable exactly with \<open>PF_W\<close>, and executable exactly with \<open>PF_X\<close>. The stack is writable with both
  loaders, not executable with the compatibility loader, but executable with the kernel's.
\<close>

theorem segment_permissions:
  "(pte_flags_of (seg_flags ph) AND PF_USER \<noteq> 0) \<and>
   (pte_flags_of (seg_flags ph) AND PF_WRITABLE \<noteq> 0 \<longleftrightarrow> p_flags ph AND PF_WRITE \<noteq> 0) \<and>
   (pte_flags_of (seg_flags ph) AND PF_NO_EXECUTE = 0 \<longleftrightarrow> p_flags ph AND PF_EXEC \<noteq> 0) \<and>
   pte_flags_of (stack_flags kernel_loader) AND (PF_WRITABLE OR PF_NO_EXECUTE) = PF_WRITABLE \<and>
   pte_flags_of (stack_flags compat_loader) AND (PF_WRITABLE OR PF_NO_EXECUTE) = PF_WRITABLE OR PF_NO_EXECUTE"
  by (cases "p_flags ph AND PF_WRITE \<noteq> 0"; cases "p_flags ph AND PF_EXEC \<noteq> 0")
    (simp_all add: seg_flags_def pte_flags_of_def kernel_loader_def compat_loader_def pf_defs)

end
