(* ===== verification/Kernel.thy ===== *)
theory Kernel
  imports Compress Sched Ipc Vfs Elf
begin

text \<open>
  The kernel's global state and its C exports: \<open>kernel/src/lib.rs\<close> and the page-fault handler of
  \<open>kernel/src/vasm.rs\<close>. \<open>KernelState\<close> is one record; the tokens that \<open>Arc<Mutex<Token>>\<close> shares
  live in \<open>tok_store\<close>, and the machine below is \<open>hw\<close>. Every export takes and returns the whole
  state. The exports run one at a time (each holds the global lock while it works); the lock
  itself, and with it a deadlock by an interrupt inside a locked section, is not modelled.
  The iteration order of a hash map is an argument, any list of the keys. Messages printed on
  the screen are dropped, except in the two shell commands whose purpose they are.
\<close>

section \<open>State\<close>

record world =
  k_tokens :: "u64 \<rightharpoonup> tref"
  k_sessions :: "u64 \<rightharpoonup> session"
  k_sched :: scheduler
  k_vfs :: vfs_state
  k_ipc :: ipc_subsystem
  k_driver :: driver_manager
  next_token_id :: u64
  next_session_id :: u64
  tick_count :: u64
  tok_store :: "token list"
  hw :: machine

definition kernel_new :: "machine \<Rightarrow> world" where
  "kernel_new m = \<lparr>k_tokens = Map.empty, k_sessions = Map.empty, k_sched = scheduler_new,
     k_vfs = vfs_new, k_ipc = ipc_new, k_driver = driver_manager_new, next_token_id = 1,
     next_session_id = 1, tick_count = 0, tok_store = [], hw = m\<rparr>"

abbreviation token_at :: "world \<Rightarrow> tref \<Rightarrow> token" where
  "token_at w r \<equiv> tok_store w ! r"

definition modify_token :: "tref \<Rightarrow> (token \<Rightarrow> token) \<Rightarrow> world \<Rightarrow> world" where
  "modify_token r f w = w\<lparr>tok_store := (tok_store w)[r := f (token_at w r)]\<rparr>"

text \<open>
  \<open>core::slice::from_raw_parts(p, n)\<close>: the pointer must not be null and the range must lie in
  the address space; which addresses are mapped is not modelled.
\<close>

definition raw_slice :: "world \<Rightarrow> u64 \<Rightarrow> usize \<Rightarrow> bytes outcome" where
  "raw_slice w p n =
     (if p = 0 \<or> 2 ^ 63 \<le> unat n \<or> 2 ^ 64 < unat p + unat n then Undef
      else Ret (mem_read (mem (hw w)) p (unat n)))"

section \<open>Start-up\<close>

text \<open>\<open>INITRAMFS_COMPRESSED\<close>: the pairs of a count 1 and a byte of this text.\<close>

definition INITRAMFS_TEXT :: rstr where
  "INITRAMFS_TEXT =
     lit ''FILE:/etc/version'' @ [10] @ lit ''Lorifa Monolithic Kernel v1.0.0'' @ [10] @
     lit ''FILE:/etc/motd'' @ [10] @ lit ''Welcome to Lorifa OS!'' @ [10] @
     lit ''FILE:/etc/hosts'' @ [10] @ lit ''127.0.0.1 localhost'' @ [10]"

definition INITRAMFS_COMPRESSED :: bytes where
  "INITRAMFS_COMPRESSED = concat (map (\<lambda>b. [1, b]) INITRAMFS_TEXT)"

definition root_token :: "bitflags \<Rightarrow> u64 \<Rightarrow> token" where
  "root_token bf tid = \<lparr>tok_id = tid, tok_name = lit ''RootSystem'', privilege = Root, parent = None,
     children = [], vmas = [], pml4_phys_addr = 0, memory_limit = - 1, memory_used = 0,
     is_permanent = True, tok_expiry_tick = - 1, capabilities = bf_all bf, run_count = 0,
     is_deprecated = False\<rparr>"

definition rust_kernel_init :: "bitflags \<Rightarrow> world \<Rightarrow> world outcome" where
  "rust_kernel_init bf w =
     (let root_id = next_token_id w;
          w1 = w\<lparr>tok_store := tok_store w @ [root_token bf root_id],
                 k_tokens := (k_tokens w)(root_id \<mapsto> length (tok_store w)),
                 next_token_id := next_token_id w + 1\<rparr>
      in obind (decompress INITRAMFS_COMPRESSED) (\<lambda>r.
         let w2 = (case r of
                     Inr decompressed \<Rightarrow> w1\<lparr>k_vfs := populate_from_initramfs (k_vfs w1) decompressed\<rparr>
                   | Inl e \<Rightarrow> w1)
         in obind (ext2_mount (lit ''/dev/hda'') (k_driver w2) (disk (hw w2))) (\<lambda>mt.
            Ret (case mt of
                   Inr ext2 \<Rightarrow> w2\<lparr>k_vfs := (k_vfs w2)\<lparr>ext2_vol := Some ext2\<rparr>\<rparr>
                 | Inl e \<Rightarrow> w2\<lparr>k_vfs := (k_vfs w2)\<lparr>ext2_err := Some e\<rparr>\<rparr>))))"

section \<open>Tokens and sessions\<close>

definition privilege_of :: "u32 \<Rightarrow> privilege_level" where
  "privilege_of v = (if v = 0 then Root else if v = 1 then Admin else if v = 2 then User else Process)"

definition caller_valid :: "world \<Rightarrow> u64 \<Rightarrow> u64 \<Rightarrow> bool" where
  "caller_valid w caller_session_id parent_id =
     (case k_sessions w caller_session_id of
        None \<Rightarrow> False
      | Some s \<Rightarrow> tok_id (token_at w (ses_token s)) = parent_id)"

text \<open>The two inheritance checks, made only when the parent token is still registered.\<close>

definition inherit_ok :: "world \<Rightarrow> u64 \<Rightarrow> u32 \<Rightarrow> u32 \<Rightarrow> bool" where
  "inherit_ok w parent_id privilege_val cap_flags =
     (case k_tokens w parent_id of
        None \<Rightarrow> True
      | Some r \<Rightarrow>
          \<not> priv_val (privilege (token_at w r)) > privilege_val \<and>
          capabilities (token_at w r) AND cap_flags = cap_flags)"

text \<open>The \<open>Token\<close> built for a child.\<close>

definition child_token ::
    "bitflags \<Rightarrow> world \<Rightarrow> rstr \<Rightarrow> u32 \<Rightarrow> u64 \<Rightarrow> usize \<Rightarrow> u32 \<Rightarrow> u64 \<Rightarrow> token" where
  "child_token bf w name privilege_val parent_id mem_limit cap_flags lifetime_ticks =
     \<lparr>tok_id = next_token_id w, tok_name = name, privilege = privilege_of privilege_val,
      parent = k_tokens w parent_id, children = [], vmas = [], pml4_phys_addr = 0,
      memory_limit = mem_limit, memory_used = 0, is_permanent = False,
      tok_expiry_tick = tick_count w + lifetime_ticks, capabilities = bf_truncate bf cap_flags,
      run_count = 0, is_deprecated = False\<rparr>"

definition rust_create_child_token ::
    "bitflags \<Rightarrow> world \<Rightarrow> u64 \<Rightarrow> u64 \<Rightarrow> usize \<Rightarrow> u32 \<Rightarrow> u64 \<Rightarrow> usize \<Rightarrow> u32 \<Rightarrow> u64
       \<Rightarrow> (u64 \<times> world) outcome" where
  "rust_create_child_token bf w caller_session_id name_ptr name_len privilege_val parent_id
       mem_limit cap_flags lifetime_ticks =
     obind (raw_slice w name_ptr name_len) (\<lambda>name_slice.
       let name = utf8_or name_slice (lit ''unknown'')
       in if \<not> caller_valid w caller_session_id parent_id then Ret (0, w)
          else if \<not> inherit_ok w parent_id privilege_val cap_flags then Ret (0, w)
          else
            let token_id = next_token_id w;
                new_ref = length (tok_store w);
                new_token = child_token bf w name privilege_val parent_id mem_limit cap_flags lifetime_ticks;
                w1 = w\<lparr>tok_store := tok_store w @ [new_token]\<rparr>;
                w2 = (case k_tokens w1 parent_id of
                        None \<Rightarrow> w1
                      | Some r \<Rightarrow> modify_token r (\<lambda>t. t\<lparr>children := children t @ [new_ref]\<rparr>) w1)
            in Ret (token_id, w2\<lparr>k_tokens := (k_tokens w2)(token_id \<mapsto> new_ref),
                                 next_token_id := next_token_id w2 + 1\<rparr>))"

definition rust_run_process :: "world \<Rightarrow> u64 \<Rightarrow> u64 \<Rightarrow> u64 \<times> world" where
  "rust_run_process w token_id session_ticks =
     (case k_tokens w token_id of
        None \<Rightarrow> (0, w)
      | Some r \<Rightarrow>
          if run_count (token_at w r) \<ge> 2 then (0, w)
          else
            let w1 = modify_token r (\<lambda>t. t\<lparr>run_count := run_count t + 1\<rparr>) w;
                s_id = next_session_id w1;
                session = \<lparr>ses_id = s_id, ses_token = r, ses_expiry_tick = tick_count w1 + session_ticks,
                            is_active = True\<rparr>;
                (t_id, sched') = spawn (k_sched w1) s_id (tok_name (token_at w1 r)) 0x10000000
            in (s_id, w1\<lparr>next_session_id := next_session_id w1 + 1,
                         k_sessions := (k_sessions w1)(s_id \<mapsto> session), k_sched := sched'\<rparr>))"

definition rust_check_capability :: "bitflags \<Rightarrow> world \<Rightarrow> u64 \<Rightarrow> u32 \<Rightarrow> bool" where
  "rust_check_capability bf w session_id cap_val =
     (case k_sessions w session_id of
        None \<Rightarrow> False
      | Some s \<Rightarrow>
          if \<not> is_active s \<or> tick_count w > ses_expiry_tick s then False
          else bf_contains bf (capabilities (token_at w (ses_token s))) (bf_truncate bf cap_val))"

section \<open>Memory\<close>

definition get_aslr_offset :: "usize \<Rightarrow> usize" where
  "get_aslr_offset seed =
     (let a = 1103515245; c = 12345; m = push_bit 31 1;
          rand = (a * seed + c) mod m
      in (rand mod 1024) * 4096)"

definition alloc_flags :: "bool \<Rightarrow> bool \<Rightarrow> u32" where
  "alloc_flags is_writeable is_executable =
     1 OR (if is_writeable then 2 else 0) OR (if is_executable then 4 else 0)"

definition rust_allocate_memory ::
    "world \<Rightarrow> u64 \<Rightarrow> usize \<Rightarrow> bool \<Rightarrow> bool \<Rightarrow> (usize \<times> world) outcome" where
  "rust_allocate_memory w token_id sz is_writeable is_executable =
     (case k_tokens w token_id of
        None \<Rightarrow> Ret (0, w)
      | Some r \<Rightarrow>
          let token = token_at w r;
              pages = pages_of sz;
              actual_size = pages * 4096
          in if is_writeable \<and> is_executable then Ret (0, w)
             else let (phys_ptr, m1) = palloc (hw w) pages
             in if phys_ptr = 0 then Ret (0, w\<lparr>hw := m1\<rparr>)
             else let aslr_offset = get_aslr_offset (tok_id token XOR memory_used token);
                      virtual_addr = 0x20000000 + tok_id token * 0x1000000 + memory_used token + aslr_offset
             in obind (map_pages virtual_addr phys_ptr (alloc_flags is_writeable is_executable)
                         (unat pages) m1) (\<lambda>m2.
                Ret (virtual_addr, modify_token r (\<lambda>t. t\<lparr>
                    vmas := bt_insert virtual_addr \<lparr>vma_start = virtual_addr, vma_size = actual_size,
                       vma_writeable = is_writeable, vma_executable = is_executable,
                       vma_phys = phys_ptr\<rparr> (vmas t),
                    memory_used := memory_used t + actual_size\<rparr>) (w\<lparr>hw := m2\<rparr>))))"

definition fault_flags :: "bool \<Rightarrow> u32" where
  "fault_flags is_writeable = 1 OR 4 OR (if is_writeable then 2 else 0)"

definition vasm_handle_page_fault :: "world \<Rightarrow> usize \<Rightarrow> (bool \<times> world) outcome" where
  "vasm_handle_page_fault w fault_addr =
     (case active_thread (k_sched w) of
        None \<Rightarrow> Ret (False, w)
      | Some th \<Rightarrow>
     (case k_sessions w (th_session_id (thread_at (k_sched w) th)) of
        None \<Rightarrow> Ret (False, w)
      | Some ses \<Rightarrow>
          let r = ses_token ses; token = token_at w r
          in case find_vma fault_addr (vmas token) of
               None \<Rightarrow> Ret (False, w)
             | Some start_addr \<Rightarrow>
                 (case map_of (vmas token) start_addr of
                    None \<Rightarrow> Panic
                  | Some vma \<Rightarrow>
                      if vma_phys vma \<noteq> 0 then Ret (False, w)
                      else let pages = pages_of (vma_size vma);
                               (phys_ptr, m1) = palloc (hw w) pages
                      in if phys_ptr = 0 then Ret (False, w\<lparr>hw := m1\<rparr>)
                      else obind (map_pages (vma_start vma) phys_ptr (fault_flags (vma_writeable vma)) (unat pages) m1) (\<lambda>m2.
                         Ret (True, modify_token r (\<lambda>t. t\<lparr>vmas :=
                            bt_insert start_addr (vma\<lparr>vma_phys := phys_ptr\<rparr>) (vmas t)\<rparr>)
                            (w\<lparr>hw := m2\<rparr>))))))"

section \<open>Files\<close>

definition rust_vfs_open ::
    "bitflags \<Rightarrow> world \<Rightarrow> u64 \<Rightarrow> u64 \<Rightarrow> usize \<Rightarrow> u32 \<Rightarrow> (u32 \<times> world) outcome" where
  "rust_vfs_open bf w session_id path_ptr path_len write_val =
     obind (raw_slice w path_ptr path_len) (\<lambda>path_slice.
       let path = utf8_or path_slice (lit ''unknown'');
           is_write = (write_val \<noteq> 0);
           required_cap = (if is_write then FS_WRITE else FS_READ)
       in if \<not> rust_check_capability bf w session_id required_cap then Ret (0, w)
          else case vfs_open (k_vfs w) session_id path is_write of
                 (Inr fd, v) \<Rightarrow> Ret (fd, w\<lparr>k_vfs := v\<rparr>)
               | (Inl e, v) \<Rightarrow> Ret (0, w\<lparr>k_vfs := v\<rparr>))"

definition rust_vfs_close :: "world \<Rightarrow> u64 \<Rightarrow> u32 \<Rightarrow> i32 \<times> world" where
  "rust_vfs_close w session_id fd =
     (case vfs_close (k_vfs w) session_id fd of
        (Inr u, v) \<Rightarrow> (0, w\<lparr>k_vfs := v\<rparr>)
      | (Inl e, v) \<Rightarrow> (-1, w\<lparr>k_vfs := v\<rparr>))"

text \<open>The bounds check on a user buffer; \<open>checked_add\<close> fails when the end wraps.\<close>

definition user_buffer_bad :: "u64 \<Rightarrow> usize \<Rightarrow> bool" where
  "user_buffer_bad p n \<longleftrightarrow>
     p = 0 \<or> p < 0x20000000 \<or> 2 ^ 64 \<le> unat p + unat n \<or> p + n > 0x80000000"

definition rust_vfs_read ::
    "bitflags \<Rightarrow> world \<Rightarrow> u64 \<Rightarrow> u32 \<Rightarrow> u64 \<Rightarrow> usize \<Rightarrow> (i32 \<times> world) outcome" where
  "rust_vfs_read bf w session_id fd buf_ptr buf_len =
     (if \<not> rust_check_capability bf w session_id FS_READ then Ret (-13, w)
      else if user_buffer_bad buf_ptr buf_len then Ret (-14, w)
      else obind (vfs_read (k_vfs w) session_id fd buf_len (k_driver w) (disk (hw w))) (\<lambda>(r, v).
        case r of
          Inl e \<Rightarrow> Ret (-1, w\<lparr>k_vfs := v\<rparr>)
        | Inr data \<Rightarrow>
            let copy_len = min (len64 data) buf_len
            in Ret (ucast copy_len,
                    w\<lparr>k_vfs := v,
                      hw := (hw w)\<lparr>mem := mem_write (mem (hw w)) buf_ptr (take (unat copy_len) data)\<rparr>\<rparr>)))"

definition rust_vfs_write ::
    "bitflags \<Rightarrow> world \<Rightarrow> u64 \<Rightarrow> u32 \<Rightarrow> u64 \<Rightarrow> usize \<Rightarrow> (i32 \<times> world) outcome" where
  "rust_vfs_write bf w session_id fd data_ptr data_len =
     (if \<not> rust_check_capability bf w session_id FS_WRITE then Ret (-13, w)
      else if user_buffer_bad data_ptr data_len then Ret (-14, w)
      else obind (raw_slice w data_ptr data_len) (\<lambda>data.
           obind (vfs_write (k_vfs w) session_id fd data (k_driver w) (disk (hw w))) (\<lambda>(r, v, dm, d).
             Ret (case r of Inr n \<Rightarrow> ucast n | Inl e \<Rightarrow> -1,
                  w\<lparr>k_vfs := v, k_driver := dm, hw := (hw w)\<lparr>disk := d\<rparr>\<rparr>))))"

section \<open>Messages\<close>

definition rust_ipc_send :: "world \<Rightarrow> u32 \<Rightarrow> u64 \<Rightarrow> u64 \<Rightarrow> usize \<Rightarrow> (u32 \<times> world) outcome" where
  "rust_ipc_send w port_id session_id msg_ptr msg_len =
     obind (raw_slice w msg_ptr msg_len) (\<lambda>msg_slice.
       case ipc_send (k_ipc w) port_id session_id (utf8_or msg_slice []) of
         (Some tid, i) \<Rightarrow> Ret (tid, w\<lparr>k_ipc := i, k_sched := mark_threads tid Ready (k_sched w)\<rparr>)
       | (None, i) \<Rightarrow> Ret (0, w\<lparr>k_ipc := i\<rparr>))"

definition rust_ipc_recv :: "world \<Rightarrow> u32 \<Rightarrow> u32 \<Rightarrow> i32 \<times> world" where
  "rust_ipc_recv w port_id receiver_thread_id =
     (case ipc_recv (k_ipc w) port_id receiver_thread_id of
        (Some msg, i) \<Rightarrow> (1, w\<lparr>k_ipc := i\<rparr>)
      | (None, i) \<Rightarrow>
          (0, w\<lparr>k_ipc := i, k_sched := mark_threads receiver_thread_id Blocked (k_sched w)\<rparr>))"

section \<open>The timer\<close>

record trap_frame =
  tf_r15 :: u64  tf_r14 :: u64  tf_r13 :: u64  tf_r12 :: u64
  tf_r11 :: u64  tf_r10 :: u64  tf_r9 :: u64  tf_r8 :: u64
  tf_rbp :: u64  tf_rdi :: u64  tf_rsi :: u64  tf_rdx :: u64
  tf_rcx :: u64  tf_rbx :: u64  tf_rax :: u64
  tf_error_code :: u64
  tf_rip :: u64  tf_cs :: u64  tf_rflags :: u64  tf_rsp :: u64  tf_ss :: u64

text \<open>Releasing the areas of an expired token, in map order.\<close>

definition release_vmas :: "(usize, vma) btree \<Rightarrow> machine \<Rightarrow> machine outcome" where
  "release_vmas = ofold (\<lambda>(_, vma) m.
     let pages = vma_size vma div 4096
     in obind (unmap_pages (vma_start vma) (unat pages) m) (\<lambda>m1.
          Ret (pfree m1 (vma_phys vma) pages)))"

definition expire_token :: "u64 \<Rightarrow> world \<Rightarrow> world outcome" where
  "expire_token t_id w =
     (case k_tokens w t_id of
        None \<Rightarrow> Ret w
      | Some r \<Rightarrow>
          obind (release_vmas (vmas (token_at w r)) (hw w)) (\<lambda>m1.
            Ret (modify_token r (\<lambda>t. t\<lparr>vmas := []\<rparr>)
                   (w\<lparr>k_tokens := (k_tokens w)(t_id := None), hw := m1\<rparr>))))"

definition expired_ids :: "u64 list \<Rightarrow> world \<Rightarrow> u64 list" where
  "expired_ids key_order w =
     filter (\<lambda>t_id. case k_tokens w t_id of
                      None \<Rightarrow> False
                    | Some r \<Rightarrow> is_expired (token_at w r) (tick_count w)) key_order"

definition activate_session :: "u64 \<Rightarrow> world \<Rightarrow> world" where
  "activate_session sid w =
     (case k_sessions w sid of
        None \<Rightarrow> w
      | Some s \<Rightarrow>
          let (s', m') = activate s (token_at w (ses_token s)) (hw w)
          in w\<lparr>k_sessions := (k_sessions w)(sid \<mapsto> s'), hw := m'\<rparr>)"

definition load_frame :: "registers_context \<Rightarrow> trap_frame \<Rightarrow> trap_frame" where
  "load_frame c f = f\<lparr>tf_rip := ctx_rip c, tf_rsp := ctx_rsp c, tf_cs := ctx_cs c,
     tf_ss := ctx_ss c, tf_rflags := ctx_rflags c\<rparr>"

definition rust_kernel_tick ::
    "u64 list \<Rightarrow> trap_frame option \<Rightarrow> world \<Rightarrow> (trap_frame option \<times> world) outcome" where
  "rust_kernel_tick key_order frame w =
     (let w1 = w\<lparr>tick_count := tick_count w + 1\<rparr>
      in obind (ofold expire_token (expired_ids key_order w1) w1) (\<lambda>w2.
         case schedule_next (k_sched w2) of
           (None, s) \<Rightarrow> Ret (frame, w2\<lparr>k_sched := s\<rparr>)
         | (Some th, s) \<Rightarrow>
             let thread = thread_at s th;
                 w3 = activate_session (th_session_id thread) (w2\<lparr>k_sched := s\<rparr>)
             in Ret (map_option (load_frame (th_context thread)) frame, w3)))"

section \<open>System calls\<close>

definition rust_syscall_dispatch ::
    "bitflags \<Rightarrow> world \<Rightarrow> u64 \<Rightarrow> u64 \<Rightarrow> u64 \<Rightarrow> u64 \<Rightarrow> u64 \<Rightarrow> u64 \<Rightarrow> u64 \<Rightarrow> (i64 \<times> world) outcome" where
  "rust_syscall_dispatch bf w nr a1 a2 a3 a4 a5 a6 =
     (if nr = 0 then obind (rust_vfs_read bf w a1 (ucast a2) a3 a4) (\<lambda>(r, w'). Ret (scast r, w'))
      else if nr = 1 then obind (rust_vfs_write bf w a1 (ucast a2) a3 a4) (\<lambda>(r, w'). Ret (scast r, w'))
      else if nr = 2 then obind (rust_vfs_open bf w 0 a1 a2 (ucast a3)) (\<lambda>(r, w'). Ret (ucast r, w'))
      else if nr = 3 then (let (r, w') = rust_vfs_close w a1 (ucast a2) in Ret (scast r, w'))
      else if nr = 60 \<or> nr = 231 then Ret (-1, w)
      else if nr = 59 then Ret (-38, w)
      else Ret (-38, w))"

section \<open>Processes\<close>

text \<open>The bytes of an executable on the Ext2 volume; empty when it cannot be read.\<close>

definition read_executable :: "world \<Rightarrow> rstr \<Rightarrow> bytes outcome" where
  "read_executable w path =
     (case ext2_vol (k_vfs w) of
        None \<Rightarrow> Ret []
      | Some fs \<Rightarrow>
          obind (resolve_path fs (k_driver w) (disk (hw w)) path) (\<lambda>r.
          case r of None \<Rightarrow> Ret [] | Some inode_idx \<Rightarrow>
          obind (get_inode fs (k_driver w) (disk (hw w)) inode_idx) (\<lambda>i.
          case i of None \<Rightarrow> Ret [] | Some inode \<Rightarrow>
            read_inode_data fs (k_driver w) (disk (hw w)) inode)))"

text \<open>The token and session of the first process, created when session 1 is missing.\<close>

definition first_session :: "bitflags \<Rightarrow> rstr \<Rightarrow> world \<Rightarrow> world outcome" where
  "first_session bf path w =
     (case k_tokens w 0 of
        None \<Rightarrow> Panic
      | Some r0 \<Rightarrow>
          let (pml4, m1) = palloc (hw w) 1;
              src = pml4_phys_addr (token_at w r0)
          in if pml4 = 0 \<or> src = 0 then Undef
             else
               let token = \<lparr>tok_id = 1, tok_name = path, privilege = Process, parent = Some r0,
                      children = [], vmas = [], pml4_phys_addr = pml4, memory_limit = 64 * 1024 * 1024,
                      memory_used = 0, is_permanent = False,
                      tok_expiry_tick = tick_count w + 1000000,
                      capabilities = MEM_ALLOC OR FS_READ, run_count = 0, is_deprecated = False\<rparr>;
                   m2 = m1\<lparr>mem := mem_write (mem m1) pml4 (mem_read (mem m1) src 4096)\<rparr>;
                   r = length (tok_store w)
               in Ret (w\<lparr>hw := m2, tok_store := tok_store w @ [token],
                         k_tokens := (k_tokens w)(1 \<mapsto> r),
                         k_sessions := (k_sessions w)(1 \<mapsto> \<lparr>ses_id = 1, ses_token = r,
                            ses_expiry_tick = tick_count w + 1000000, is_active = False\<rparr>)\<rparr>))"

definition rust_spawn_process :: "bitflags \<Rightarrow> world \<Rightarrow> u64 \<Rightarrow> usize \<Rightarrow> world outcome" where
  "rust_spawn_process bf w path_ptr path_len =
     obind (raw_slice w path_ptr path_len) (\<lambda>path.
     obind (read_executable w path) (\<lambda>data.
       if data = [] then Ret w
       else obind (if k_sessions w 1 = None then first_session bf path w else Ret w) (\<lambda>w1.
            let w2 = activate_session 1 w1
            in obind (load_elf kernel_loader data (hw w2)) (\<lambda>(res, m).
               let w3 = w2\<lparr>hw := m\<rparr>
               in case res of
                    Inl e \<Rightarrow> Ret w3
                  | Inr proc \<Rightarrow>
                      let (t_id, s) = spawn (k_sched w3) 1 path (entry_point proc)
                      in Ret (w3\<lparr>k_sched := modify_thread (last (threads s))
                               (\<lambda>t. t\<lparr>th_context := (th_context t)\<lparr>ctx_rsp := initial_rsp proc\<rparr>\<rparr>) s\<rparr>)))))"

section \<open>Shell commands\<close>

text \<open>The strings of the mount errors, and the decimal form of a number.\<close>

fun ext2_error_msg :: "ext2_error \<Rightarrow> rstr" where
  "ext2_error_msg SuperblockReadFailed = lit ''Failed to read superblock''"
| "ext2_error_msg IncompleteSuperblock = lit ''Incomplete superblock read''"
| "ext2_error_msg InvalidSignature = lit ''Invalid Ext2 signature''"
| "ext2_error_msg BgdtReadFailed = lit ''Failed to read BGDT''"

fun fmt_dec :: "nat \<Rightarrow> rstr" where
  "fmt_dec n = (if n < 10 then [of_nat (48 + n)] else fmt_dec (n div 10) @ [of_nat (48 + n mod 10)])"

declare fmt_dec.simps [simp del]

text \<open>The closure \<open>add_entry\<close>: the direct child of \<open>dir_path\<close> on the way to \<open>full_path\<close>.\<close>

definition entry_name :: "rstr \<Rightarrow> rstr \<Rightarrow> rstr" where
  "entry_name dir_path full_path =
     (let remainder = drop (length dir_path) full_path
      in case find_byte 47 remainder of
           Some idx \<Rightarrow> take idx remainder @ [47]
         | None \<Rightarrow> remainder)"

definition add_entry :: "rstr \<Rightarrow> rstr \<Rightarrow> rstr list \<Rightarrow> rstr list" where
  "add_entry dir_path full_path printed =
     (if starts_with full_path dir_path
      then let name = entry_name dir_path full_path
           in if name \<noteq> [] \<and> name \<notin> set printed then printed @ [name] else printed
      else printed)"

definition print_line :: "rstr \<Rightarrow> rstr" where
  "print_line s = lit ''  '' @ s @ [10]"

definition rust_vfs_list_print ::
    "rstr list \<Rightarrow> rstr list \<Rightarrow> world \<Rightarrow> u64 \<Rightarrow> usize \<Rightarrow> rstr list outcome" where
  "rust_vfs_list_print ramfs_keys driver_keys w path_ptr path_len =
     obind (raw_slice w path_ptr path_len) (\<lambda>path_slice.
       let req_path = utf8_or path_slice (lit ''/'');
           dir_path = (if ends_with req_path (lit ''/'') then req_path else req_path @ lit ''/'');
           printed = fold (add_entry dir_path) (ramfs_keys @ driver_keys) []
       in obind (case ext2_vol (k_vfs w) of
             Some fs \<Rightarrow>
               if dir_path = lit ''/'' then Ret (add_entry dir_path (lit ''/mnt/'') printed, [])
               else if dir_path = lit ''/mnt/'' then Ret (add_entry dir_path (lit ''/mnt/ext2/'') printed, [])
               else if starts_with dir_path ext2_prefix
               then let rel_path = drop 10 dir_path
                    in obind (if rel_path = [] then Ret EXT2_ROOT_INODE
                              else obind (resolve_path fs (k_driver w) (disk (hw w)) (trim_end_byte 47 rel_path))
                                     (\<lambda>r. Ret (case r of Some n \<Rightarrow> n | None \<Rightarrow> 0))) (\<lambda>inode_num.
                       if inode_num \<noteq> 0
                       then obind (list_dir fs (k_driver w) (disk (hw w)) inode_num) (\<lambda>es. Ret (printed, es))
                       else Ret (printed, []))
               else Ret (printed, [])
           | None \<Rightarrow>
               Ret (printed,
                 if starts_with dir_path ext2_prefix
                 then (case ext2_err (k_vfs w) of
                         Some e \<Rightarrow> [lit ''(Ext2 not mounted: '' @ ext2_error_msg e @ lit '')'']
                       | None \<Rightarrow> [])
                 else [])) (\<lambda>(names, extra).
         Ret (if names @ extra = [] then [print_line (lit ''(empty or directory not found)'')]
              else map print_line (names @ extra))))"

definition print_content :: "bytes \<Rightarrow> rstr" where
  "print_content data =
     (case from_utf8 data of
        Some text \<Rightarrow> text @ [10]
      | None \<Rightarrow> lit ''[Binary File - '' @ fmt_dec (length data) @ lit '' bytes]'' @ [10])"

definition rust_vfs_cat_print :: "world \<Rightarrow> u64 \<Rightarrow> usize \<Rightarrow> rstr outcome" where
  "rust_vfs_cat_print w path_ptr path_len =
     obind (raw_slice w path_ptr path_len) (\<lambda>path_slice.
       let path = utf8_or path_slice [];
           missing = lit ''cat: '' @ path @ lit '': No such file or directory'' @ [10]
       in case ramfs (k_vfs w) path of
            Some file \<Rightarrow> Ret (print_content (content file))
          | None \<Rightarrow>
              if drivers (k_driver w) path \<noteq> None
              then Ret (lit ''[Device File - use dd or specialized tools to read]'' @ [10])
              else if starts_with path ext2_prefix
              then (case ext2_vol (k_vfs w) of
                      None \<Rightarrow> Ret missing
                    | Some fs \<Rightarrow>
                        obind (resolve_path fs (k_driver w) (disk (hw w)) (drop 10 path)) (\<lambda>r.
                        case r of None \<Rightarrow> Ret missing | Some inode_num \<Rightarrow>
                        obind (get_inode fs (k_driver w) (disk (hw w)) inode_num) (\<lambda>i.
                        case i of None \<Rightarrow> Ret missing | Some inode \<Rightarrow>
                          if is_dir inode
                          then Ret (lit ''cat: '' @ path @ lit '': Is a directory'' @ [10])
                          else obind (read_inode_data fs (k_driver w) (disk (hw w)) inode) (\<lambda>data.
                                 Ret (print_content data)))))
              else Ret missing)"

section \<open>Frame lemmas\<close>

lemma modify_token_simps [simp, frame_simps]:
  "k_tokens (modify_token r f w) = k_tokens w" "k_sessions (modify_token r f w) = k_sessions w"
  "k_sched (modify_token r f w) = k_sched w" "k_vfs (modify_token r f w) = k_vfs w"
  "k_ipc (modify_token r f w) = k_ipc w" "k_driver (modify_token r f w) = k_driver w"
  "next_token_id (modify_token r f w) = next_token_id w"
  "next_session_id (modify_token r f w) = next_session_id w"
  "tick_count (modify_token r f w) = tick_count w" "hw (modify_token r f w) = hw w"
  "length (tok_store (modify_token r f w)) = length (tok_store w)"
  by (simp_all add: modify_token_def)

lemma token_at_modify:
  "q < length (tok_store w) \<Longrightarrow>
     token_at (modify_token r f w) q = (if q = r then f (token_at w r) else token_at w q)"
  by (auto simp: modify_token_def)

lemma activate_session_simps [simp, frame_simps]:
  "k_tokens (activate_session sid w) = k_tokens w" "k_sched (activate_session sid w) = k_sched w"
  "k_vfs (activate_session sid w) = k_vfs w" "tok_store (activate_session sid w) = tok_store w"
  "next_token_id (activate_session sid w) = next_token_id w"
  "next_session_id (activate_session sid w) = next_session_id w"
  "tick_count (activate_session sid w) = tick_count w" "k_ipc (activate_session sid w) = k_ipc w"
  "k_driver (activate_session sid w) = k_driver w"
  by (auto simp: activate_session_def activate_def Let_def split: option.splits)

lemma activate_session_sessions:
  "k_sessions (activate_session sid w) =
     (case k_sessions w sid of None \<Rightarrow> k_sessions w
      | Some s \<Rightarrow> (k_sessions w)(sid \<mapsto> s\<lparr>is_active := True\<rparr>))"
  by (auto simp: activate_session_def activate_def split: option.splits)

lemma activate_session_ok [simp]: "machine_ok (hw (activate_session sid w)) = machine_ok (hw w)"
  by (auto simp: activate_session_def activate_def split: option.splits)

end
