(* ===== verification/Kernel_Inv.thy ===== *)
theory Kernel_Inv
  imports Kernel
begin

text \<open>
  The invariant of the kernel state and the step relation of its exports. \<open>auth_wf\<close> is the part
  on tokens and sessions, stated on the components it depends on; \<open>world_wf\<close> adds the machine, the
  scheduler and the file system. Each export keeps it, so it holds in every reachable state.
\<close>

section \<open>The invariant\<close>

text \<open>A token has no more authority than another.\<close>

definition authority_le :: "token \<Rightarrow> token \<Rightarrow> bool" where
  "authority_le t p \<longleftrightarrow> privilege p \<le> privilege t \<and> capabilities t AND capabilities p = capabilities t"

definition token_ok :: "token list \<Rightarrow> token \<Rightarrow> bool" where
  "token_ok st t \<longleftrightarrow> wx_ok t \<and> unat (run_count t) \<le> 2 \<and>
     (\<forall>p. parent t = Some p \<longrightarrow> p < length st \<and> authority_le t (st ! p))"

definition sessions_of :: "(u64 \<rightharpoonup> session) \<Rightarrow> tref \<Rightarrow> u64 set" where
  "sessions_of sm r = {sid. \<exists>s. sm sid = Some s \<and> ses_token s = r}"

definition tokens_ok :: "token list \<Rightarrow> bool" where
  "tokens_ok st \<longleftrightarrow> (\<forall>r<length st. token_ok st (st ! r))"

definition runs_ok :: "(u64 \<rightharpoonup> session) \<Rightarrow> token list \<Rightarrow> bool" where
  "runs_ok sm st \<longleftrightarrow> (\<forall>r<length st. card (sessions_of sm r) \<le> unat (run_count (st ! r)))"

definition ids_ok :: "(u64 \<rightharpoonup> tref) \<Rightarrow> token list \<Rightarrow> u64 \<Rightarrow> bool" where
  "ids_ok tm st nt \<longleftrightarrow> 0 < nt \<and>
     (\<forall>tid r. tm tid = Some r \<longrightarrow> r < length st \<and> tok_id (st ! r) = tid \<and> 0 < tid \<and> tid < nt)"

definition sess_ok :: "(u64 \<rightharpoonup> session) \<Rightarrow> nat \<Rightarrow> u64 \<Rightarrow> bool" where
  "sess_ok sm n ns \<longleftrightarrow> 0 < ns \<and>
     (\<forall>sid s. sm sid = Some s \<longrightarrow> ses_token s < n \<and> ses_id s = sid \<and> 0 < sid \<and> sid < ns)"

definition auth_wf ::
    "(u64 \<rightharpoonup> tref) \<Rightarrow> (u64 \<rightharpoonup> session) \<Rightarrow> token list \<Rightarrow> u64 \<Rightarrow> u64 \<Rightarrow> bool" where
  "auth_wf tm sm st nt ns \<longleftrightarrow>
     ids_ok tm st nt \<and> sess_ok sm (length st) ns \<and> tokens_ok st \<and> runs_ok sm st"

definition world_wf :: "world \<Rightarrow> bool" where
  "world_wf w \<longleftrightarrow> machine_ok (hw w) \<and> sched_wf (k_sched w) \<and> vfs_wf (k_vfs w) \<and>
     auth_wf (k_tokens w) (k_sessions w) (tok_store w) (next_token_id w) (next_session_id w)"

text \<open>None of the three id counters is at its last value.\<close>

definition counters_ok :: "world \<Rightarrow> bool" where
  "counters_ok w \<longleftrightarrow> next_token_id w \<noteq> - 1 \<and> next_session_id w \<noteq> - 1 \<and> next_fd (k_vfs w) \<noteq> - 1"

section \<open>Lemmas on the token store\<close>

lemma ids_ok_lookup:
  "ids_ok tm st nt \<Longrightarrow> tm tid = Some r \<Longrightarrow> r < length st \<and> tok_id (st ! r) = tid \<and> 0 < tid \<and> tid < nt"
  unfolding ids_ok_def by blast

lemma sess_ok_lookup:
  "sess_ok sm n ns \<Longrightarrow> sm sid = Some s \<Longrightarrow> ses_token s < n \<and> ses_id s = sid \<and> 0 < sid \<and> sid < ns"
  unfolding sess_ok_def by blast

lemma ids_ok_drop: "ids_ok tm st nt \<Longrightarrow> ids_ok (tm(tid := None)) st nt"
  unfolding ids_ok_def by (metis fun_upd_apply option.distinct(1))

lemma tokens_okD:
  assumes "tokens_ok st" and "r < length st"
  shows "token_ok st (st ! r)" "wx_ok (st ! r)" "unat (run_count (st ! r)) \<le> 2"
  using assms unfolding tokens_ok_def token_ok_def by blast+

lemma ids_ok_update:
  assumes "ids_ok tm st nt" and "tok_id t = tok_id (st ! r)"
  shows "ids_ok tm (st[r := t]) nt"
proof -
  have eq: "tok_id (st[r := t] ! q) = tok_id (st ! q)" for q
    using assms(2) by (rule list_update_field)
  show ?thesis using assms(1) unfolding ids_ok_def length_list_update eq .
qed

lemma ids_ok_new:
  assumes "ids_ok tm st nt" and "nt \<noteq> - 1" and "tok_id t = nt"
  shows "ids_ok (tm(nt \<mapsto> length st)) (st @ [t]) (nt + 1)"
proof -
  note lt = less_succ [OF assms(2)]
  have nt: "0 < nt" using assms(1) unfolding ids_ok_def by blast
  have "r < Suc (length st) \<and> tok_id ((st @ [t]) ! r) = tid \<and> 0 < tid \<and> tid < nt + 1"
    if "(tm(nt \<mapsto> length st)) tid = Some r" for tid r
  proof (cases "tid = nt")
    case True
    with that have "r = length st" by simp
    with True assms(3) lt nt show ?thesis by simp
  next
    case False
    with that have "tm tid = Some r" by simp
    note l = ids_ok_lookup [OF assms(1) this]
    then have "tid < nt" by blast
    then have "tid < nt + 1" using lt by (rule order_less_trans)
    with l show ?thesis by (simp add: nth_append)
  qed
  moreover have "0 < nt + 1" using nt lt by (rule order_less_trans)
  ultimately show ?thesis unfolding ids_ok_def length_append_singleton by blast
qed

lemma sess_ok_new:
  assumes "sess_ok sm n ns" and "ns \<noteq> - 1" and "ses_id s = ns" and "ses_token s < n"
  shows "sess_ok (sm(ns \<mapsto> s)) n (ns + 1)"
proof -
  note lt = less_succ [OF assms(2)]
  have ns: "0 < ns" using assms(1) unfolding sess_ok_def by blast
  have "ses_token u < n \<and> ses_id u = sid \<and> 0 < sid \<and> sid < ns + 1"
    if "(sm(ns \<mapsto> s)) sid = Some u" for sid u
  proof (cases "sid = ns")
    case True
    with that assms(3,4) lt ns show ?thesis by simp
  next
    case False
    with that have "sm sid = Some u" by simp
    note l = sess_ok_lookup [OF assms(1) this]
    then have "sid < ns" by blast
    then have "sid < ns + 1" using lt by (rule order_less_trans)
    with l show ?thesis by blast
  qed
  moreover have "0 < ns + 1" using ns lt by (rule order_less_trans)
  ultimately show ?thesis unfolding sess_ok_def by blast
qed

text \<open>An update of a token that keeps its authority.\<close>

lemma authority_update:
  assumes "privilege t = privilege (st ! r)" and "capabilities t = capabilities (st ! r)"
  shows "authority_le a (st[r := t] ! p) = authority_le a (st ! p)"
    and "authority_le t a = authority_le (st ! r) a"
proof -
  have "st[r := t] ! p = (if p = r \<and> r < length st then t else st ! p)"
    by (cases "r < length st"; cases "p = r") (simp_all add: list_update_beyond)
  then show "authority_le a (st[r := t] ! p) = authority_le a (st ! p)"
    unfolding authority_le_def using assms by simp
  show "authority_le t a = authority_le (st ! r) a"
    unfolding authority_le_def assms by (rule refl)
qed

lemma tokens_ok_update:
  assumes "tokens_ok st" and "r < length st"
    and "privilege t = privilege (st ! r)" "capabilities t = capabilities (st ! r)"
      "parent t = parent (st ! r)"
    and "wx_ok t" and "unat (run_count t) \<le> 2"
  shows "tokens_ok (st[r := t])"
proof -
  note same = authority_update [OF assms(3,4)]
  have "token_ok (st[r := t]) (st[r := t] ! q)" if "q < length st" for q
  proof (cases "q = r")
    case True
    have "token_ok st (st ! r)" using assms(1,2) by (rule tokens_okD)
    with True assms(2,5-7) show ?thesis by (simp add: token_ok_def same)
  next
    case False
    have "token_ok st (st ! q)" using assms(1) that by (rule tokens_okD)
    with False show ?thesis by (simp add: token_ok_def same)
  qed
  then show ?thesis by (simp add: tokens_ok_def)
qed

lemma tokens_ok_new:
  assumes "tokens_ok st" and "token_ok st t"
  shows "tokens_ok (st @ [t])"
proof -
  have ext: "token_ok (st @ [t]) u" if "token_ok st u" for u
    using that by (auto simp: token_ok_def nth_append)
  have "token_ok (st @ [t]) ((st @ [t]) ! q)" if "q < Suc (length st)" for q
    using that ext assms by (cases "q = length st") (simp_all add: nth_append tokens_ok_def)
  then show ?thesis by (simp add: tokens_ok_def)
qed

lemma runs_ok_update:
  "runs_ok sm st \<Longrightarrow> run_count t = run_count (st ! r) \<Longrightarrow> runs_ok sm (st[r := t])"
  unfolding runs_ok_def length_list_update by (simp only: list_update_field [of run_count])

lemma auth_wf_update:
  assumes "auth_wf tm sm st nt ns" and "r < length st"
    and "tok_id t = tok_id (st ! r)" "privilege t = privilege (st ! r)"
      "capabilities t = capabilities (st ! r)" "parent t = parent (st ! r)" "run_count t = run_count (st ! r)"
    and "wx_ok t"
  shows "auth_wf tm sm (st[r := t]) nt ns"
proof -
  have "unat (run_count t) \<le> 2"
    using assms(1,2,7) tokens_okD(3) unfolding auth_wf_def by metis
  then have "tokens_ok (st[r := t])" using assms by (intro tokens_ok_update) (simp_all add: auth_wf_def)
  moreover have "ids_ok tm (st[r := t]) nt" "runs_ok sm (st[r := t])"
    using assms(1,3,7) ids_ok_update runs_ok_update unfolding auth_wf_def by blast+
  ultimately show ?thesis using assms(1) unfolding auth_wf_def length_list_update by blast
qed

lemma auth_wf_new_token:
  assumes "auth_wf tm sm st nt ns" and "nt \<noteq> - 1" and "tok_id t = nt" and "token_ok st t"
  shows "auth_wf (tm(nt \<mapsto> length st)) sm (st @ [t]) (nt + 1) ns"
proof -
  have s: "sess_ok sm (length st) ns" using assms(1) by (simp add: auth_wf_def)
  have "sessions_of sm (length st) = {}"
    using sess_ok_lookup [OF s] by (force simp: sessions_of_def)
  then have "runs_ok sm (st @ [t])"
    using assms(1) by (auto simp: auth_wf_def runs_ok_def nth_append less_Suc_eq)
  moreover have "sess_ok sm (length (st @ [t])) ns"
    using s unfolding sess_ok_def length_append_singleton using less_SucI by blast
  moreover have "ids_ok (tm(nt \<mapsto> length st)) (st @ [t]) (nt + 1)" "tokens_ok (st @ [t])"
    using assms ids_ok_new tokens_ok_new unfolding auth_wf_def by blast+
  ultimately show ?thesis unfolding auth_wf_def by blast
qed

text \<open>A new session of a token that has not used up its runs.\<close>

lemma auth_wf_new_session:
  assumes "auth_wf tm sm st nt ns" and "ns \<noteq> - 1" and "r < length st"
    and "run_count (st ! r) < 2" and "ses_id s = ns" and "ses_token s = r"
  defines "t \<equiv> (st ! r)\<lparr>run_count := run_count (st ! r) + 1\<rparr>"
  shows "auth_wf tm (sm(ns \<mapsto> s)) (st[r := t]) nt (ns + 1)"
proof -
  have s: "sess_ok sm (length st) ns" using assms(1) by (simp add: auth_wf_def)
  have rc2: "unat (run_count (st ! r)) < 2" using assms(4) by (simp add: word_less_nat_alt)
  have "run_count (st ! r) \<noteq> - 1"
    using rc2 by (auto simp: unsigned_minus_1_eq_mask mask_eq_exp_minus_1)
  then have rc: "unat (run_count t) = unat (run_count (st ! r)) + 1"
    unfolding t_def by (simp add: unat_succ)
  have fresh: "sm ns = None"
    using sess_ok_lookup [OF s] by (metis not_Some_eq order_less_irrefl)
  have so: "sessions_of (sm(ns \<mapsto> s)) q = (if q = r then insert ns (sessions_of sm r) else sessions_of sm q)" for q
    using fresh assms(6) by (auto simp: sessions_of_def)
  have notin: "ns \<notin> sessions_of sm r" using fresh by (simp add: sessions_of_def)
  have old: "card (sessions_of sm q) \<le> unat (run_count (st ! q))" if "q < length st" for q
    using assms(1) that by (simp add: auth_wf_def runs_ok_def)
  have "card (sessions_of (sm(ns \<mapsto> s)) q) \<le> unat (run_count (st[r := t] ! q))" if "q < length st" for q
    using old [OF that] rc notin that by (cases "q = r") (simp_all add: so)
  then have "runs_ok (sm(ns \<mapsto> s)) (st[r := t])" by (simp add: runs_ok_def)
  moreover have "wx_ok (st ! r)" using assms(1,3) tokens_okD(2) unfolding auth_wf_def by blast
  then have "wx_ok t" by (simp add: wx_ok_def t_def)
  then have "tokens_ok (st[r := t])"
    using assms(1,3) rc rc2 by (intro tokens_ok_update) (simp_all add: auth_wf_def t_def)
  moreover have "sess_ok (sm(ns \<mapsto> s)) (length st) (ns + 1)"
    using s assms by (intro sess_ok_new) simp_all
  moreover have "ids_ok tm (st[r := t]) nt"
    using assms(1) by (intro ids_ok_update) (simp_all add: auth_wf_def t_def)
  ultimately show ?thesis by (simp add: auth_wf_def)
qed

section \<open>Every export keeps the invariant\<close>

lemma privilege_of_le:
  assumes "\<not> priv_val p > v" shows "p \<le> privilege_of v"
proof -
  have le: "unat (priv_val p) \<le> unat v" using assms by (simp add: word_less_nat_alt)
  consider "v = 0" | "v = 1" | "v = 2" | "v \<noteq> 0" "v \<noteq> 1" "v \<noteq> 2" by blast
  then show ?thesis
    using le by cases (cases p; simp add: privilege_of_def less_eq_privilege_level_def word_le_nat_alt)+
qed

lemma inherit_authority:
  assumes "bitflags_spec bf" and "\<not> priv_val (privilege p) > v" and "capabilities p AND c = c"
    and "privilege t = privilege_of v" and "capabilities t = bf_truncate bf c"
  shows "authority_le t p"
proof -
  have "(c AND declared_flags) AND capabilities p = c AND declared_flags"
    using assms(3) by (metis and.assoc and.commute)
  then show ?thesis
    using assms privilege_of_le by (simp add: authority_le_def bitflags_spec_def)
qed

lemma create_child_cases:
  assumes "rust_create_child_token bf w cs np nl pv pid ml cf lt = Ret (i, w')"
  obtains "i = 0" "w' = w"
  | t name where "i = next_token_id w" "caller_valid w cs pid" "inherit_ok w pid pv cf"
      "t = child_token bf w name pv pid ml cf lt"
      "w' = (case k_tokens w pid of
               None \<Rightarrow> w\<lparr>tok_store := tok_store w @ [t]\<rparr>
             | Some r \<Rightarrow> modify_token r (\<lambda>u. u\<lparr>children := children u @ [length (tok_store w)]\<rparr>)
                 (w\<lparr>tok_store := tok_store w @ [t]\<rparr>))
           \<lparr>k_tokens := (k_tokens w)(next_token_id w \<mapsto> length (tok_store w)),
             next_token_id := next_token_id w + 1\<rparr>"
proof -
  from assms obtain ns where "raw_slice w np nl = Ret ns"
    by (auto simp: rust_create_child_token_def obind_eq_Ret)
  note def = assms [unfolded rust_create_child_token_def this obind.simps Let_def]
  show thesis
  proof (cases "caller_valid w cs pid \<and> inherit_ok w pid pv cf")
    case False
    with def that(1) show thesis by (auto split: if_splits)
  next
    case True
    with def have "i = next_token_id w" by (auto split: option.splits)
    moreover from True def have "w' = (case k_tokens w pid of
               None \<Rightarrow> w\<lparr>tok_store := tok_store w @ [child_token bf w (utf8_or ns (lit ''unknown'')) pv pid ml cf lt]\<rparr>
             | Some r \<Rightarrow> modify_token r (\<lambda>u. u\<lparr>children := children u @ [length (tok_store w)]\<rparr>)
                 (w\<lparr>tok_store := tok_store w @ [child_token bf w (utf8_or ns (lit ''unknown'')) pv pid ml cf lt]\<rparr>))
           \<lparr>k_tokens := (k_tokens w)(next_token_id w \<mapsto> length (tok_store w)),
             next_token_id := next_token_id w + 1\<rparr>"
      by (cases "k_tokens w pid") auto
    ultimately show thesis using that(2) True by blast
  qed
qed

lemma auth_wf_children:
  assumes "auth_wf tm sm st nt ns" and "r < length st"
  shows "auth_wf tm sm (st[r := (st ! r)\<lparr>children := cs\<rparr>]) nt ns"
proof -
  have "wx_ok (st ! r)" using assms tokens_okD(2) unfolding auth_wf_def by blast
  then show ?thesis using assms by (intro auth_wf_update) (simp_all add: wx_ok_def)
qed

lemma auth_wf_lookup:
  "auth_wf tm sm st nt ns \<Longrightarrow> tm tid = Some r \<Longrightarrow> r < length st \<and> tok_id (st ! r) = tid \<and> 0 < tid \<and> tid < nt"
  unfolding auth_wf_def using ids_ok_lookup by blast

lemma create_child_wf:
  assumes "bitflags_spec bf" and "world_wf w" and "counters_ok w"
    and "rust_create_child_token bf w cs np nl pv pid ml cf lt = Ret (i, w')"
  shows "world_wf w'"
  using assms(4)
proof (cases rule: create_child_cases)
  case (2 t name)
  have aw: "auth_wf (k_tokens w) (k_sessions w) (tok_store w) (next_token_id w) (next_session_id w)"
    using assms(2) by (simp add: world_wf_def)
  have "p < length (tok_store w) \<and> authority_le t (tok_store w ! p)" if "k_tokens w pid = Some p" for p
    using 2(3,4) that auth_wf_lookup [OF aw that]
      inherit_authority [OF assms(1), of pv "tok_store w ! p" cf t]
    by (simp add: inherit_ok_def child_token_def)
  then have "token_ok (tok_store w) t" using 2(4) by (simp add: token_ok_def wx_ok_def child_token_def)
  then have new: "auth_wf ((k_tokens w)(next_token_id w \<mapsto> length (tok_store w))) (k_sessions w)
      (tok_store w @ [t]) (next_token_id w + 1) (next_session_id w)"
    using aw assms(3) 2(4) by (intro auth_wf_new_token) (simp_all add: counters_ok_def child_token_def)
  show ?thesis
  proof (cases "k_tokens w pid")
    case None
    with new 2 assms(2) show ?thesis by (simp add: world_wf_def)
  next
    case (Some r)
    then have "r < length (tok_store w @ [t])" using auth_wf_lookup [OF aw Some] by simp
    from auth_wf_children [OF new this] Some 2 assms(2) show ?thesis
      by (simp add: world_wf_def modify_token_def)
  qed
qed (use assms in simp)

lemma run_process_wf:
  assumes "world_wf w" and "counters_ok w" and "rust_run_process w tid n = (i, w')"
  shows "world_wf w'"
proof (cases "k_tokens w tid")
  case None
  with assms show ?thesis by (simp add: rust_run_process_def)
next
  case (Some r)
  have aw: "auth_wf (k_tokens w) (k_sessions w) (tok_store w) (next_token_id w) (next_session_id w)"
    using assms(1) by (simp add: world_wf_def)
  note r = auth_wf_lookup [OF aw Some]
  show ?thesis
  proof (cases "run_count (token_at w r) \<ge> 2")
    case True
    with Some assms show ?thesis by (simp add: rust_run_process_def)
  next
    case False
    define s where "s = \<lparr>ses_id = next_session_id w, ses_token = r,
        ses_expiry_tick = tick_count w + n, is_active = True\<rparr>"
    have "auth_wf (k_tokens w) ((k_sessions w)(next_session_id w \<mapsto> s))
        ((tok_store w)[r := (token_at w r)\<lparr>run_count := run_count (token_at w r) + 1\<rparr>])
        (next_token_id w) (next_session_id w + 1)"
      using aw assms(2) r False by (intro auth_wf_new_session) (simp_all add: counters_ok_def s_def)
    moreover obtain t sc where sp: "spawn (k_sched w) (next_session_id w)
        (tok_name (token_at (modify_token r (\<lambda>t. t\<lparr>run_count := run_count t + 1\<rparr>) w) r)) 0x10000000 = (t, sc)"
      by fastforce
    moreover from sp assms(1) have "sched_wf sc" by (auto simp: world_wf_def intro: sched_wf_spawn)
    ultimately show ?thesis
      using assms(1,3) Some False
      by (auto simp: rust_run_process_def world_wf_def Let_def modify_token_def s_def)
  qed
qed

text \<open>
  The rest change parts of the state that the invariant treats one by one: a change of the
  machine, the scheduler or the file system alone, and the registration of an area.
\<close>

lemma world_wf_hw: "world_wf w \<Longrightarrow> machine_ok m \<Longrightarrow> world_wf (w\<lparr>hw := m\<rparr>)"
  by (simp add: world_wf_def)

lemma world_wf_vfs: "world_wf w \<Longrightarrow> vfs_wf v \<Longrightarrow> world_wf (w\<lparr>k_vfs := v\<rparr>)"
  by (simp add: world_wf_def)

lemma world_wf_sched: "world_wf w \<Longrightarrow> sched_wf s \<Longrightarrow> world_wf (w\<lparr>k_sched := s\<rparr>)"
  by (simp add: world_wf_def)

lemma world_wf_free [simp]:
  "world_wf (w\<lparr>k_ipc := i\<rparr>) = world_wf w" "world_wf (w\<lparr>k_driver := dm\<rparr>) = world_wf w"
  "world_wf (w\<lparr>tick_count := n\<rparr>) = world_wf w"
  by (simp_all add: world_wf_def)

lemma world_wf_auth:
  "world_wf w \<Longrightarrow> auth_wf (k_tokens w) (k_sessions w) (tok_store w) (next_token_id w) (next_session_id w)"
  by (simp add: world_wf_def)

lemma world_wf_token:
  assumes "world_wf w" and "k_tokens w tid = Some r"
  shows "r < length (tok_store w)" "tok_id (token_at w r) = tid" "tid \<noteq> 0" "wx_ok (token_at w r)"
    "bt_wf (vmas (token_at w r))"
proof -
  note aw = world_wf_auth [OF assms(1)]
  show r: "r < length (tok_store w)" "tok_id (token_at w r) = tid" "tid \<noteq> 0"
    using auth_wf_lookup [OF aw assms(2)] by auto
  show "wx_ok (token_at w r)" using tokens_okD(2) aw r(1) unfolding auth_wf_def by blast
  then show "bt_wf (vmas (token_at w r))" by (simp add: wx_ok_def)
qed

lemma world_wf_session:
  assumes "world_wf w" and "k_sessions w sid = Some s"
  shows "ses_token s < length (tok_store w)" "ses_id s = sid" "sid \<noteq> 0"
    "wx_ok (token_at w (ses_token s))"
proof -
  note aw = world_wf_auth [OF assms(1)]
  show r: "ses_token s < length (tok_store w)" "ses_id s = sid" "sid \<noteq> 0"
    using sess_ok_lookup [of "k_sessions w" "length (tok_store w)" "next_session_id w" sid s] aw assms(2)
    unfolding auth_wf_def by auto
  show "wx_ok (token_at w (ses_token s))" using tokens_okD(2) aw r(1) unfolding auth_wf_def by blast
qed

lemma world_wf_modify:
  assumes "world_wf w" and "r < length (tok_store w)" and "wx_ok (f (token_at w r))"
    and "\<And>t. tok_id (f t) = tok_id t" "\<And>t. privilege (f t) = privilege t"
      "\<And>t. capabilities (f t) = capabilities t" "\<And>t. parent (f t) = parent t"
      "\<And>t. run_count (f t) = run_count t"
  shows "world_wf (modify_token r f w)"
proof -
  have "auth_wf (k_tokens w) (k_sessions w) ((tok_store w)[r := f (token_at w r)]) (next_token_id w) (next_session_id w)"
    using world_wf_auth [OF assms(1)] assms by (intro auth_wf_update) simp_all
  then show ?thesis using assms(1) by (simp add: world_wf_def modify_token_def)
qed

text \<open>The outcomes of an allocation: refused, out of memory, or an area after the token's last.\<close>

definition alloc_addr :: "token \<Rightarrow> usize" where
  "alloc_addr t = 0x20000000 + tok_id t * 0x1000000 + memory_used t + get_aslr_offset (tok_id t XOR memory_used t)"

definition add_area :: "usize \<Rightarrow> usize \<Rightarrow> bool \<Rightarrow> bool \<Rightarrow> u64 \<Rightarrow> token \<Rightarrow> token" where
  "add_area a pages wr ex p t = t\<lparr>vmas := bt_insert a \<lparr>vma_start = a, vma_size = pages * 4096,
     vma_writeable = wr, vma_executable = ex, vma_phys = p\<rparr> (vmas t),
     memory_used := memory_used t + pages * 4096\<rparr>"

lemma allocate_memory_cases:
  assumes "rust_allocate_memory w tid sz wr ex = Ret (a, w')"
  obtains "a = 0" "w' = w" "k_tokens w tid = None \<or> wr \<and> ex"
  | m where "a = 0" "palloc (hw w) (pages_of sz) = (0, m)" "w' = w\<lparr>hw := m\<rparr>"
  | r p m1 m2 where "k_tokens w tid = Some r" "\<not> (wr \<and> ex)" "palloc (hw w) (pages_of sz) = (p, m1)" "p \<noteq> 0"
      "a = alloc_addr (token_at w r)" "map_pages a p (alloc_flags wr ex) (unat (pages_of sz)) m1 = Ret m2"
      "w' = modify_token r (add_area a (pages_of sz) wr ex p) (w\<lparr>hw := m2\<rparr>)"
proof (cases "k_tokens w tid")
  case None
  with assms that(1) show thesis by (simp add: rust_allocate_memory_def)
next
  case (Some r)
  obtain p m1 where pa: "palloc (hw w) (pages_of sz) = (p, m1)" by fastforce
  have eq: "rust_allocate_memory w tid sz wr ex =
      (if wr \<and> ex then Ret (0, w) else if p = 0 then Ret (0, w\<lparr>hw := m1\<rparr>)
       else obind (map_pages (alloc_addr (token_at w r)) p (alloc_flags wr ex) (unat (pages_of sz)) m1) (\<lambda>m2.
         Ret (alloc_addr (token_at w r),
              modify_token r (add_area (alloc_addr (token_at w r)) (pages_of sz) wr ex p) (w\<lparr>hw := m2\<rparr>))))"
    by (simp add: rust_allocate_memory_def Some pa Let_def alloc_addr_def add_area_def [abs_def])
  consider "wr \<and> ex" | "\<not> (wr \<and> ex)" "p = 0" | "\<not> (wr \<and> ex)" "p \<noteq> 0" by blast
  then show thesis
  proof cases
    case 3
    then have "\<not> (wr \<and> ex) \<and> p \<noteq> 0" by blast
    with assms [unfolded eq] obtain m2 where
      "map_pages (alloc_addr (token_at w r)) p (alloc_flags wr ex) (unat (pages_of sz)) m1 = Ret m2"
      "a = alloc_addr (token_at w r)"
      "w' = modify_token r (add_area (alloc_addr (token_at w r)) (pages_of sz) wr ex p) (w\<lparr>hw := m2\<rparr>)"
      by (simp only: if_False if_not_P simp_thms obind_eq_Ret) blast
    with that(3) [OF Some 3(1) pa 3(2)] show thesis by blast
  next
    case 1
    with assms eq have "a = 0" "w' = w" by simp_all
    with 1 that(1) show thesis by blast
  next
    case 2
    with assms eq have "a = 0" "w' = w\<lparr>hw := m1\<rparr>" by auto
    with 2 pa that(2) show thesis by blast
  qed
qed

lemma allocate_memory_wf:
  assumes "world_wf w" and "rust_allocate_memory w tid sz wr ex = Ret (a, w')"
  shows "world_wf w'"
proof -
  have ok: "machine_ok (hw w)" using assms(1) by (simp add: world_wf_def)
  from assms(2) show ?thesis
  proof (cases rule: allocate_memory_cases)
    case (2 m)
    with ok assms(1) show ?thesis by (auto intro: world_wf_hw palloc_ok)
  next
    case (3 r p m1 m2)
    note tok = world_wf_token [OF assms(1) 3(1)]
    have "machine_ok m2" using 3(6) palloc_ok [OF ok 3(3)] by (rule map_pages_ok)
    moreover have "wx_ok (add_area a (pages_of sz) wr ex p (token_at w r))"
      using tok(4) 3(2) by (auto simp: wx_ok_def set_bt_insert add_area_def)
    ultimately show ?thesis
      using tok(1) world_wf_hw [OF assms(1)] 3(7) by (auto intro!: world_wf_modify simp: add_area_def)
  qed (use assms(1) in simp)
qed

text \<open>What the page-fault handler does once it has found an area without pages.\<close>

lemma page_fault_lazy:
  assumes "active_thread (k_sched w) = Some th"
    and "k_sessions w (th_session_id (thread_at (k_sched w) th)) = Some ses"
    and "find_vma a (vmas (token_at w (ses_token ses))) = Some sa"
    and "map_of (vmas (token_at w (ses_token ses))) sa = Some v" and "vma_phys v = 0"
    and "palloc (hw w) (pages_of (vma_size v)) = (p, m1)"
  shows "vasm_handle_page_fault w a =
    (if p = 0 then Ret (False, w\<lparr>hw := m1\<rparr>)
     else obind (map_pages (vma_start v) p (fault_flags (vma_writeable v))
            (unat (pages_of (vma_size v))) m1) (\<lambda>m2.
       Ret (True, modify_token (ses_token ses) (\<lambda>t. t\<lparr>vmas := bt_insert sa (v\<lparr>vma_phys := p\<rparr>) (vmas t)\<rparr>)
         (w\<lparr>hw := m2\<rparr>))))"
  using assms by (simp add: vasm_handle_page_fault_def Let_def)

text \<open>Every other fault is refused without a change.\<close>

lemma page_fault_cases:
  assumes "vasm_handle_page_fault w a = Ret (b, w')"
  obtains "b = False" "w' = w"
  | th ses sa v where "active_thread (k_sched w) = Some th"
      "k_sessions w (th_session_id (thread_at (k_sched w) th)) = Some ses"
      "find_vma a (vmas (token_at w (ses_token ses))) = Some sa"
      "map_of (vmas (token_at w (ses_token ses))) sa = Some v" "vma_phys v = 0"
proof (cases "active_thread (k_sched w)")
  case None
  with assms that(1) show thesis by (simp add: vasm_handle_page_fault_def)
next
  case th: (Some th)
  show thesis
  proof (cases "k_sessions w (th_session_id (thread_at (k_sched w) th))")
    case None
    with th assms that(1) show thesis by (simp add: vasm_handle_page_fault_def)
  next
    case ses: (Some ses)
    show thesis
    proof (cases "find_vma a (vmas (token_at w (ses_token ses)))")
      case None
      with th ses assms that(1) show thesis by (simp add: vasm_handle_page_fault_def Let_def)
    next
      case sa: (Some sa)
      show thesis
      proof (cases "map_of (vmas (token_at w (ses_token ses))) sa")
        case None
        with th ses sa assms show thesis by (simp add: vasm_handle_page_fault_def Let_def)
      next
        case v: (Some v)
        show thesis
        proof (cases "vma_phys v = 0")
          case True
          with th ses sa v that(2) show thesis by blast
        next
          case False
          with th ses sa v assms that(1) show thesis by (simp add: vasm_handle_page_fault_def Let_def)
        qed
      qed
    qed
  qed
qed

lemma page_fault_wf:
  assumes "world_wf w" and "vasm_handle_page_fault w a = Ret (b, w')"
  shows "world_wf w'"
  using assms(2)
proof (cases rule: page_fault_cases)
  case (2 th ses sa v)
  note tok = world_wf_session [OF assms(1) 2(2)]
  obtain p m1 where pa: "palloc (hw w) (pages_of (vma_size v)) = (p, m1)" by fastforce
  have m1: "machine_ok m1" using assms(1) pa by (auto simp: world_wf_def intro: palloc_ok)
  note eq = page_fault_lazy [OF 2 pa]
  show ?thesis
  proof (cases "p = 0")
    case True
    with eq assms m1 show ?thesis by (auto intro: world_wf_hw)
  next
    case False
    from eq assms(2) False obtain m2 where "map_pages (vma_start v) p (fault_flags (vma_writeable v))
        (unat (pages_of (vma_size v))) m1 = Ret m2"
      by (cases "map_pages (vma_start v) p (fault_flags (vma_writeable v)) (unat (pages_of (vma_size v))) m1") auto
    then have mp: "map_pages (vma_start v) p (fault_flags (vma_writeable v))
        (unat (pages_of (vma_size v))) m1 = Ret m2" "machine_ok m2"
      using map_pages_ok m1 by blast+
    have "(sa, v) \<in> set (vmas (token_at w (ses_token ses)))" using 2(4) by (rule map_of_SomeD)
    then have "\<not> (vma_writeable v \<and> vma_executable v)" using tok(4) by (auto simp: wx_ok_def)
    then have "wx_ok ((token_at w (ses_token ses))\<lparr>vmas := bt_insert sa (v\<lparr>vma_phys := p\<rparr>)
        (vmas (token_at w (ses_token ses)))\<rparr>)" using tok(4) by (intro wx_ok_insert) simp_all
    moreover have "w' = modify_token (ses_token ses) (\<lambda>t. t\<lparr>vmas := bt_insert sa (v\<lparr>vma_phys := p\<rparr>) (vmas t)\<rparr>)
         (w\<lparr>hw := m2\<rparr>)" using eq assms(2) False mp(1) by simp
    ultimately show ?thesis
      using tok(1) world_wf_hw [OF assms(1) mp(2)] by (auto intro!: world_wf_modify)
  qed
qed (use assms in simp)

section \<open>Files, messages, timer and processes\<close>

lemma vfs_open_export_wf:
  assumes "world_wf w" and "counters_ok w" and "rust_vfs_open bf w sid p n wv = Ret (r, w')"
  shows "world_wf w'"
proof -
  have "vfs_wf (snd (vfs_open (k_vfs w) sid path wr))" for path wr
    using assms(1,2) by (auto simp: world_wf_def counters_ok_def intro: vfs_open_wf)
  moreover from assms(3) have "w' = w \<or> (\<exists>path wr. w' = w\<lparr>k_vfs := snd (vfs_open (k_vfs w) sid path wr)\<rparr>)"
    by (auto simp: rust_vfs_open_def obind_eq_Ret Let_def split: if_splits prod.splits sum.splits)
      (metis snd_conv)+
  ultimately show ?thesis using assms(1) by (auto intro: world_wf_vfs)
qed

lemma vfs_close_export_wf:
  assumes "world_wf w" and "rust_vfs_close w sid fd = (r, w')"
  shows "world_wf w'"
proof -
  have "w' = w\<lparr>k_vfs := snd (vfs_close (k_vfs w) sid fd)\<rparr>"
    using assms(2) by (auto simp: rust_vfs_close_def split: prod.splits sum.splits)
  moreover have "vfs_wf (snd (vfs_close (k_vfs w) sid fd))"
    using assms(1) by (auto simp: world_wf_def intro: vfs_close_wf)
  ultimately show ?thesis using assms(1) by (auto intro: world_wf_vfs)
qed

text \<open>The branches of the read and write exports.\<close>

lemma vfs_read_export_cases:
  assumes "rust_vfs_read bf w sid fd p n = Ret (r, w')"
  obtains "w' = w" "r = - 13" "\<not> rust_check_capability bf w sid FS_READ"
  | "w' = w" "r = - 14" "rust_check_capability bf w sid FS_READ" "user_buffer_bad p n"
  | e v where "rust_check_capability bf w sid FS_READ" "\<not> user_buffer_bad p n"
      "vfs_read (k_vfs w) sid fd n (k_driver w) (disk (hw w)) = Ret (Inl e, v)"
      "r = - 1" "w' = w\<lparr>k_vfs := v\<rparr>"
  | data v where "rust_check_capability bf w sid FS_READ" "\<not> user_buffer_bad p n"
      "vfs_read (k_vfs w) sid fd n (k_driver w) (disk (hw w)) = Ret (Inr data, v)"
      "r = ucast (min (len64 data) n)"
      "w' = w\<lparr>k_vfs := v, hw := (hw w)\<lparr>mem := mem_write (mem (hw w)) p (take (unat (min (len64 data) n)) data)\<rparr>\<rparr>"
proof (cases "rust_check_capability bf w sid FS_READ \<and> \<not> user_buffer_bad p n")
  case False
  with assms that(1,2) show thesis by (auto simp: rust_vfs_read_def split: if_splits)
next
  case True
  with assms obtain x v where x: "vfs_read (k_vfs w) sid fd n (k_driver w) (disk (hw w)) = Ret (x, v)"
    by (auto simp: rust_vfs_read_def obind_eq_Ret)
  show thesis
  proof (cases x)
    case (Inl e)
    with True assms x that(3) show thesis by (simp add: rust_vfs_read_def)
  next
    case (Inr data)
    with True assms x that(4) show thesis by (simp add: rust_vfs_read_def Let_def)
  qed
qed

lemma vfs_read_export_wf:
  assumes "world_wf w" and "rust_vfs_read bf w sid fd p n = Ret (r, w')"
  shows "world_wf w'"
proof -
  have v: "vfs_wf (k_vfs w)" and m: "machine_ok (hw w)" using assms(1) by (simp_all add: world_wf_def)
  from assms(2) show ?thesis
  proof (cases rule: vfs_read_export_cases)
    case (3 e v')
    with vfs_read_wf [OF v 3(3)] assms(1) show ?thesis by (auto intro: world_wf_vfs)
  next
    case (4 data v')
    with vfs_read_wf [OF v 4(3)] assms(1) m show ?thesis by (simp add: world_wf_def)
  qed (use assms(1) in simp_all)
qed

lemma vfs_write_export_wf:
  assumes "world_wf w" and "rust_vfs_write bf w sid fd p n = Ret (r, w')"
  shows "world_wf w'"
proof (cases "rust_check_capability bf w sid FS_WRITE \<and> \<not> user_buffer_bad p n")
  case False
  with assms show ?thesis by (auto simp: rust_vfs_write_def split: if_splits)
next
  case True
  with assms(2) obtain data x v dm d where
      d: "raw_slice w p n = Ret data" "vfs_write (k_vfs w) sid fd data (k_driver w) (disk (hw w)) = Ret (x, v, dm, d)"
      "w' = w\<lparr>k_vfs := v, k_driver := dm, hw := (hw w)\<lparr>disk := d\<rparr>\<rparr>"
    by (auto simp: rust_vfs_write_def obind_eq_Ret)
  have "length data < 2 ^ 63" using d(1) by (auto simp: raw_slice_def split: if_splits)
  moreover have "vfs_wf (k_vfs w)" using assms(1) by (simp add: world_wf_def)
  ultimately have "vfs_wf v" using d(2) vfs_write_wf by blast
  with d(3) assms(1) show ?thesis by (simp add: world_wf_def)
qed

lemma ipc_send_export_wf:
  assumes "world_wf w" and "rust_ipc_send w port sid p n = Ret (r, w')"
  shows "world_wf w'"
proof -
  obtain data where d: "raw_slice w p n = Ret data"
    using assms(2) by (auto simp: rust_ipc_send_def obind_eq_Ret)
  have "sched_wf (k_sched w)" using assms(1) by (simp add: world_wf_def)
  then have m: "sched_wf (mark_threads t s (k_sched w))" for t s by (rule sched_wf_mark)
  obtain x i where "ipc_send (k_ipc w) port sid (utf8_or data []) = (x, i)" by fastforce
  with d assms m show ?thesis
    by (cases x) (auto simp: rust_ipc_send_def intro: world_wf_sched)
qed

lemma ipc_recv_export_wf:
  assumes "world_wf w" and "rust_ipc_recv w port tid = (r, w')"
  shows "world_wf w'"
proof -
  have "sched_wf (k_sched w)" using assms(1) by (simp add: world_wf_def)
  then have m: "sched_wf (mark_threads t s (k_sched w))" for t s by (rule sched_wf_mark)
  obtain x i where "ipc_recv (k_ipc w) port tid = (x, i)" by fastforce
  with assms m show ?thesis
    by (cases x) (auto simp: rust_ipc_recv_def intro: world_wf_sched)
qed

text \<open>
  Releasing the areas of a token returns unless a runtime check of the Zig code fails; so does
  expiring tokens, one after the other.
\<close>

lemma release_vmas_sound: "sound m (release_vmas vs m)"
  unfolding release_vmas_def
proof (rule sound_fold)
  fix x :: "usize \<times> vma" and s
  obtain a v where x: "x = (a, v)" by fastforce
  have p: "paging_initialized (pfree m1 b n) = paging_initialized m1" for m1 b n by (simp add: pfree_def)
  show "sound s ((case x of (_, vma) \<Rightarrow> \<lambda>m. let pages = vma_size vma div 4096
      in obind (unmap_pages (vma_start vma) (unat pages) m) (\<lambda>m1. Ret (pfree m1 (vma_phys vma) pages))) s)"
    using unmap_pages_sound [of s "vma_start v" "unat (vma_size v div 4096)"]
    by (cases "unmap_pages (vma_start v) (unat (vma_size v div 4096)) s") (auto simp: x p sound_def)
qed

definition same_but_tokens :: "world \<Rightarrow> world \<Rightarrow> bool" where
  "same_but_tokens w w' \<longleftrightarrow> k_sessions w' = k_sessions w \<and> k_sched w' = k_sched w \<and> k_vfs w' = k_vfs w \<and>
     k_ipc w' = k_ipc w \<and> k_driver w' = k_driver w \<and> tick_count w' = tick_count w \<and>
     next_token_id w' = next_token_id w \<and> next_session_id w' = next_session_id w"

lemma expire_token_result:
  assumes "world_wf w" and "expire_token tid w \<noteq> Panic \<or> \<not> zig_safety (hw w)"
  shows "\<exists>w'. expire_token tid w = Ret w' \<and> world_wf w' \<and> same_but_tokens w w' \<and>
    zig_safety (hw w') = zig_safety (hw w) \<and> k_tokens w' = (k_tokens w)(tid := None) \<and>
    (\<forall>r. k_tokens w tid \<noteq> Some r \<longrightarrow> token_at w' r = token_at w r)"
proof (cases "k_tokens w tid")
  case None
  with assms show ?thesis by (simp add: expire_token_def fun_upd_idem same_but_tokens_def)
next
  case (Some r)
  note tok = world_wf_token [OF assms(1) Some]
  have ok: "machine_ok (hw w)" using assms by (simp add: world_wf_def)
  then obtain m1 where m1: "release_vmas (vmas (token_at w r)) (hw w) = Ret m1" "machine_ok m1"
      "zig_safety m1 = zig_safety (hw w)"
    using release_vmas_sound [of "hw w" "vmas (token_at w r)"] assms(2) Some
    by (cases "release_vmas (vmas (token_at w r)) (hw w)")
      (auto simp: sound_def machine_ok_def expire_token_def)
  have "auth_wf ((k_tokens w)(tid := None)) (k_sessions w) (tok_store w) (next_token_id w) (next_session_id w)"
    using world_wf_auth [OF assms(1)] ids_ok_drop unfolding auth_wf_def by blast
  with m1(2) assms(1) have "world_wf (w\<lparr>k_tokens := (k_tokens w)(tid := None), hw := m1\<rparr>)"
    by (simp add: world_wf_def)
  then have "world_wf (modify_token r (\<lambda>t. t\<lparr>vmas := []\<rparr>) (w\<lparr>k_tokens := (k_tokens w)(tid := None), hw := m1\<rparr>))"
    using tok(1,4) by (intro world_wf_modify) (simp_all add: wx_ok_def)
  with Some m1(1,3) show ?thesis by (simp add: expire_token_def modify_token_def same_but_tokens_def)
qed

lemma expire_all_result:
  assumes "world_wf w" and "ofold expire_token ids w \<noteq> Panic \<or> \<not> zig_safety (hw w)"
  shows "\<exists>w'. ofold expire_token ids w = Ret w' \<and> world_wf w' \<and> same_but_tokens w w' \<and>
    zig_safety (hw w') = zig_safety (hw w) \<and>
    (\<forall>t. k_tokens w' t = (if t \<in> set ids then None else k_tokens w t)) \<and>
    (\<forall>t r. t \<notin> set ids \<and> k_tokens w t = Some r \<longrightarrow> token_at w' r = token_at w r)"
  using assms
proof (induction ids arbitrary: w)
  case Nil
  then show ?case by (simp add: same_but_tokens_def)
next
  case (Cons i ids)
  have "expire_token i w \<noteq> Panic \<or> \<not> zig_safety (hw w)" using Cons.prems(2) by auto
  then obtain u where u: "expire_token i w = Ret u" "world_wf u" "same_but_tokens w u"
      "k_tokens u = (k_tokens w)(i := None)" "\<forall>r. k_tokens w i \<noteq> Some r \<longrightarrow> token_at u r = token_at w r"
      "zig_safety (hw u) = zig_safety (hw w)"
    using expire_token_result [OF Cons.prems(1)] by blast
  obtain w' where w': "ofold expire_token ids u = Ret w'" "world_wf w'" "same_but_tokens u w'"
      "\<forall>t. k_tokens w' t = (if t \<in> set ids then None else k_tokens u t)"
      "\<forall>t r. t \<notin> set ids \<and> k_tokens u t = Some r \<longrightarrow> token_at w' r = token_at u r"
      "zig_safety (hw w') = zig_safety (hw u)"
    using Cons.IH [OF u(2)] Cons.prems(2) u(1,6) by auto
  have "token_at w' r = token_at w r" if t: "t \<notin> set (i # ids)" "k_tokens w t = Some r" for t r
  proof -
    have "k_tokens w i \<noteq> Some r"
      using t world_wf_token(2) [OF Cons.prems(1)] by (metis list.set_intros(1))
    with u(5) have "token_at u r = token_at w r" by blast
    moreover have "k_tokens u t = Some r" using t u(4) by simp
    then have "token_at w' r = token_at u r" using t(1) w'(5) by (meson list.set_intros(2))
    ultimately show ?thesis by simp
  qed
  moreover have "same_but_tokens w w'" using u(3) w'(3) by (simp add: same_but_tokens_def)
  moreover have "\<forall>t. k_tokens w' t = (if t \<in> set (i # ids) then None else k_tokens w t)"
    using w'(4) u(4) by simp
  ultimately show ?case using u(1,6) w'(1,2,6) by auto
qed

lemma world_wf_activate: "world_wf w \<Longrightarrow> world_wf (activate_session sid w)"
proof (cases "k_sessions w sid")
  case None
  assume "world_wf w"
  with None show ?thesis by (simp add: activate_session_def)
next
  case (Some s)
  assume wf: "world_wf w"
  note aw = world_wf_auth [OF wf]
  let ?sm = "(k_sessions w)(sid \<mapsto> s\<lparr>is_active := True\<rparr>)"
  have "sessions_of ?sm r = sessions_of (k_sessions w) r" for r
    using Some by (auto simp: sessions_of_def)
  moreover have "sess_ok ?sm (length (tok_store w)) (next_session_id w)"
    using aw Some unfolding auth_wf_def sess_ok_def by auto
  ultimately have "auth_wf (k_tokens w) ?sm (tok_store w) (next_token_id w) (next_session_id w)"
    using aw by (simp add: auth_wf_def runs_ok_def)
  with wf Some show ?thesis by (simp add: world_wf_def activate_session_sessions)
qed

text \<open>One tick, in the order of the code: the clock, the expired tokens, the scheduler.\<close>

lemma tick_expires:
  assumes "rust_kernel_tick ks frame w \<noteq> Panic \<or> \<not> zig_safety (hw w)"
  shows "ofold expire_token (expired_ids ks (w\<lparr>tick_count := tick_count w + 1\<rparr>)) (w\<lparr>tick_count := tick_count w + 1\<rparr>)
    \<noteq> Panic \<or> \<not> zig_safety (hw w)"
  using assms by (auto simp: rust_kernel_tick_def Let_def)

lemma tick_panic_frame: "rust_kernel_tick ks frame w = Panic \<longleftrightarrow> rust_kernel_tick ks frame' w = Panic"
  by (auto simp: rust_kernel_tick_def Let_def obind_eq_Panic split: prod.splits option.splits)

lemma tick_result:
  assumes "world_wf w" and "schedule_next (k_sched w) = (th, s)"
    and "rust_kernel_tick ks frame w \<noteq> Panic \<or> \<not> zig_safety (hw w)"
  defines "w1 \<equiv> w\<lparr>tick_count := tick_count w + 1\<rparr>"
  shows "\<exists>w2. ofold expire_token (expired_ids ks w1) w1 = Ret w2 \<and> world_wf w2 \<and> same_but_tokens w1 w2 \<and>
    (\<forall>t. k_tokens w2 t = (if t \<in> set (expired_ids ks w1) then None else k_tokens w t)) \<and>
    (\<forall>t r. t \<notin> set (expired_ids ks w1) \<and> k_tokens w t = Some r \<longrightarrow> token_at w2 r = token_at w r) \<and>
    rust_kernel_tick ks frame w = Ret
      (case th of None \<Rightarrow> frame | Some h \<Rightarrow> map_option (load_frame (th_context (thread_at s h))) frame,
       case th of None \<Rightarrow> w2\<lparr>k_sched := s\<rparr>
       | Some h \<Rightarrow> activate_session (th_session_id (thread_at s h)) (w2\<lparr>k_sched := s\<rparr>))"
proof -
  have "world_wf w1" using assms(1) by (simp add: w1_def)
  moreover have "ofold expire_token (expired_ids ks w1) w1 \<noteq> Panic \<or> \<not> zig_safety (hw w1)"
    using tick_expires [OF assms(3)] by (simp add: w1_def)
  ultimately obtain w2 where
    w2: "ofold expire_token (expired_ids ks w1) w1 = Ret w2" "world_wf w2" "same_but_tokens w1 w2"
      "\<forall>t. k_tokens w2 t = (if t \<in> set (expired_ids ks w1) then None else k_tokens w1 t)"
      "\<forall>t r. t \<notin> set (expired_ids ks w1) \<and> k_tokens w1 t = Some r \<longrightarrow> token_at w2 r = token_at w1 r"
    using expire_all_result by blast
  moreover have "k_sched w2 = k_sched w" using w2(3) by (simp add: same_but_tokens_def w1_def)
  ultimately have "rust_kernel_tick ks frame w = Ret
      (case th of None \<Rightarrow> frame | Some h \<Rightarrow> map_option (load_frame (th_context (thread_at s h))) frame,
       case th of None \<Rightarrow> w2\<lparr>k_sched := s\<rparr>
       | Some h \<Rightarrow> activate_session (th_session_id (thread_at s h)) (w2\<lparr>k_sched := s\<rparr>))"
    using assms(2) by (cases th) (simp_all add: rust_kernel_tick_def w1_def [symmetric] Let_def)
  moreover have "k_tokens w1 = k_tokens w" "tok_store w1 = tok_store w" by (simp_all add: w1_def)
  ultimately show ?thesis using w2 by (intro exI [of _ w2]) simp
qed

lemma tick_wf:
  assumes "world_wf w" and "rust_kernel_tick ks frame w = Ret (f, w')"
  shows "world_wf w'"
proof -
  obtain th s where sn: "schedule_next (k_sched w) = (th, s)" by fastforce
  have "sched_wf s" using assms(1) sn by (auto simp: world_wf_def intro: sched_wf_schedule_next)
  then have "world_wf (u\<lparr>k_sched := s\<rparr>)" if "world_wf u" for u using that by (blast intro: world_wf_sched)
  with tick_result [OF assms(1) sn, of ks frame] assms(2) show ?thesis
    by (cases th) (auto intro: world_wf_activate)
qed

text \<open>
  A process can only be started in session 1 once it exists: the first one would copy token 0,
  which is never registered.
\<close>

lemma first_session_panics: "world_wf w \<Longrightarrow> first_session bf path w = Panic"
  using world_wf_token(3) [of w 0] by (auto simp: first_session_def split: option.splits)

lemma spawn_process_cases:
  assumes "world_wf w" and "rust_spawn_process bf w p n = Ret w'"
  obtains "w' = w"
  | data e m where "load_elf kernel_loader data (hw (activate_session 1 w)) = Ret (Inl e, m)"
      "w' = (activate_session 1 w)\<lparr>hw := m\<rparr>"
  | data pr m path t s where "load_elf kernel_loader data (hw (activate_session 1 w)) = Ret (Inr pr, m)"
      "spawn (k_sched w) 1 path (entry_point pr) = (t, s)"
      "w' = (activate_session 1 w)\<lparr>hw := m, k_sched := modify_thread (last (threads s))
         (\<lambda>t. t\<lparr>th_context := (th_context t)\<lparr>ctx_rsp := initial_rsp pr\<rparr>\<rparr>) s\<rparr>"
proof -
  from assms(2) obtain path data where pd: "raw_slice w p n = Ret path" "read_executable w path = Ret data"
    by (auto simp: rust_spawn_process_def obind_eq_Ret)
  note eq = assms(2) [unfolded rust_spawn_process_def pd obind.simps Let_def]
  show thesis
  proof (cases "data = []")
    case True
    with eq that(1) show thesis by simp
  next
    case False
    have s1: "k_sessions w 1 \<noteq> None"
      using eq False first_session_panics [OF assms(1), of bf path] by (cases "k_sessions w 1") simp_all
    with eq False obtain res m where ld: "load_elf kernel_loader data (hw (activate_session 1 w)) = Ret (res, m)"
      by (auto simp: obind_eq_Ret)
    obtain t s where "spawn (k_sched w) 1 path (entry_point (projr res)) = (t, s)" by fastforce
    with eq False s1 ld that(2,3) show thesis by (cases res) auto
  qed
qed

lemma spawn_process_wf:
  assumes "world_wf w" and "rust_spawn_process bf w p n = Ret w'"
  shows "world_wf w'"
proof -
  have w2: "world_wf (activate_session 1 w)" using assms(1) by (rule world_wf_activate)
  then have "machine_ok (hw (activate_session 1 w))" by (simp add: world_wf_def)
  then have w3: "world_wf ((activate_session 1 w)\<lparr>hw := m\<rparr>)"
    if "load_elf kernel_loader data (hw (activate_session 1 w)) = Ret (res, m)" for data res m
    using world_wf_hw [OF w2] load_elf_ok that by blast
  from assms show ?thesis
  proof (cases rule: spawn_process_cases)
    case (3 data pr m path t s)
    then have "sched_wf s" using assms(1) by (auto simp: world_wf_def intro: sched_wf_spawn)
    then have "sched_wf (modify_thread r (\<lambda>t. t\<lparr>th_context := (th_context t)\<lparr>ctx_rsp := initial_rsp pr\<rparr>\<rparr>) s)" for r
      by (rule sched_wf_modify) simp
    with world_wf_sched [OF w3 [OF 3(1)]] 3(3) show ?thesis by simp
  qed (use assms(1) w3 in auto)
qed

section \<open>Start-up\<close>

lemma world_wf_kernel_new: "machine_ok m \<Longrightarrow> world_wf (kernel_new m)"
  by (simp add: world_wf_def kernel_new_def sched_wf_new vfs_wf_new auth_wf_def ids_ok_def sess_ok_def
      tokens_ok_def runs_ok_def)

text \<open>The archive compiled into the kernel, as its files.\<close>

definition initramfs_files :: "(rstr \<times> rstr list) list" where
  "initramfs_files = [(lit ''/etc/version'', [lit ''Lorifa Monolithic Kernel v1.0.0'']),
     (lit ''/etc/motd'', [lit ''Welcome to Lorifa OS!'']),
     (lit ''/etc/hosts'', [lit ''127.0.0.1 localhost''])]"

lemma decompress_initramfs: "decompress INITRAMFS_COMPRESSED = Ret (Inr INITRAMFS_TEXT)"
proof -
  have "expand (concat (map (\<lambda>b. [1, b]) xs)) = xs" for xs by (induction xs) simp_all
  moreover have "length (concat (map (\<lambda>b. [1 :: u8, b]) xs)) = 2 * length xs" for xs
    by (induction xs) simp_all
  ultimately show ?thesis by (simp add: decompress_expand INITRAMFS_COMPRESSED_def)
qed

lemma initramfs_text: "INITRAMFS_TEXT = archive initramfs_files"
  by (simp add: INITRAMFS_TEXT_def archive_def archive_lines_def file_lines_def initramfs_files_def lit_def)

lemma initramfs_files_ok: "list_all archive_file_ok initramfs_files" "distinct (map fst initramfs_files)"
proof -
  have "str_trim (lit ''/etc/version'') = lit ''/etc/version''" "str_trim (lit ''/etc/motd'') = lit ''/etc/motd''"
    "str_trim (lit ''/etc/hosts'') = lit ''/etc/hosts''"
    by (simp_all add: str_trim_def strip_ws.simps ws_prefix_len_def ws_encodings_def lit_def starts_with_def)
  then show "list_all archive_file_ok initramfs_files"
    by (simp add: initramfs_files_def archive_file_ok_def plain_line_def starts_with_def lit_def)
qed (simp add: initramfs_files_def lit_def)

lemma initramfs_ramfs_ok:
  assumes "vfs_wf v"
  shows "vfs_wf (populate_from_initramfs v INITRAMFS_TEXT)"
proof -
  define r where "r = ramfs (populate_from_initramfs v INITRAMFS_TEXT)"
  have r: "r = foldl (\<lambda>m f. insert_file (fst f) (join_lines (snd f)) m) (ramfs v) initramfs_files"
    unfolding r_def initramfs_text by (rule populate_archive [OF initramfs_files_ok(1)])
  have "dom (ramfs v) \<subseteq> dom r" "ramfs_ok r"
    using assms unfolding r
    by (auto simp: initramfs_files_def insert_file_def lit_def vfs_wf_def ramfs_ok_upd)
  moreover have "populate_from_initramfs v INITRAMFS_TEXT = v\<lparr>ramfs := r\<rparr>"
    by (simp add: r_def populate_from_initramfs_def)
  ultimately show ?thesis using vfs_wf_ramfs [OF assms] by simp
qed

lemma vfs_wf_ext2 [simp]:
  "vfs_wf (v\<lparr>ext2_vol := x\<rparr>) = vfs_wf v" "vfs_wf (v\<lparr>ext2_err := e\<rparr>) = vfs_wf v"
  by (simp_all add: vfs_wf_def fd_table_def desc_ok_def fds_disjoint_def)

text \<open>What start-up leaves behind, once the volume has been probed.\<close>

definition booted :: "bitflags \<Rightarrow> world \<Rightarrow> world" where
  "booted bf w = w\<lparr>tok_store := tok_store w @ [root_token bf (next_token_id w)],
     k_tokens := (k_tokens w)(next_token_id w \<mapsto> length (tok_store w)),
     next_token_id := next_token_id w + 1, k_vfs := populate_from_initramfs (k_vfs w) INITRAMFS_TEXT\<rparr>"

lemma kernel_init_result:
  "rust_kernel_init bf w = obind (ext2_mount (lit ''/dev/hda'') (k_driver w) (disk (hw w))) (\<lambda>mt.
     Ret (case mt of
            Inr ext2 \<Rightarrow> (booted bf w)\<lparr>k_vfs := (k_vfs (booted bf w))\<lparr>ext2_vol := Some ext2\<rparr>\<rparr>
          | Inl e \<Rightarrow> (booted bf w)\<lparr>k_vfs := (k_vfs (booted bf w))\<lparr>ext2_err := Some e\<rparr>\<rparr>))"
  by (simp add: rust_kernel_init_def decompress_initramfs booted_def Let_def cong: sum.case_cong)

lemma booted_wf:
  assumes "world_wf w" and "next_token_id w \<noteq> - 1"
  shows "world_wf (booted bf w)"
proof -
  have "token_ok (tok_store w) (root_token bf (next_token_id w))"
    by (simp add: token_ok_def root_token_def wx_ok_def)
  then have "auth_wf ((k_tokens w)(next_token_id w \<mapsto> length (tok_store w))) (k_sessions w)
      (tok_store w @ [root_token bf (next_token_id w)]) (next_token_id w + 1) (next_session_id w)"
    using world_wf_auth [OF assms(1)] assms(2) by (intro auth_wf_new_token) (simp_all add: root_token_def)
  with assms(1) initramfs_ramfs_ok show ?thesis by (simp add: world_wf_def booted_def)
qed

lemma kernel_init_wf:
  assumes "world_wf w" and "next_token_id w \<noteq> - 1" and "rust_kernel_init bf w = Ret w'"
  shows "world_wf w'"
proof -
  have "world_wf ((booted bf w)\<lparr>k_vfs := v\<rparr>)" if "vfs_wf v" for v
    using booted_wf [OF assms(1,2)] that by (rule world_wf_vfs)
  moreover have "vfs_wf (k_vfs (booted bf w))" using booted_wf [OF assms(1,2)] by (simp add: world_wf_def)
  moreover obtain mt where "ext2_mount (lit ''/dev/hda'') (k_driver w) (disk (hw w)) = Ret mt"
    using assms(3) by (auto simp: kernel_init_result obind_eq_Ret)
  ultimately show ?thesis using assms(3) by (cases mt) (auto simp: kernel_init_result)
qed

end
