(* ===== verification/Kernel_Steps.thy ===== *)
theory Kernel_Steps
  imports Kernel_Inv
begin

text \<open>
  The kernel as a transition system: one step is one call of an export that returns, or a write
  of user code to memory. \<open>invariant_system\<close> is the contract of an invariant, interpreted with
  \<open>world_wf\<close>; a second interpretation shows that no step changes the identity of a token.
\<close>

section \<open>The transition system\<close>

inductive kstep :: "bitflags \<Rightarrow> world \<Rightarrow> world \<Rightarrow> bool" for bf where
  create_child: "counters_ok w \<Longrightarrow> rust_create_child_token bf w cs np nl pv pid ml cf lt = Ret (i, w') \<Longrightarrow> kstep bf w w'"
| run_process: "counters_ok w \<Longrightarrow> rust_run_process w tid n = (i, w') \<Longrightarrow> kstep bf w w'"
| allocate: "rust_allocate_memory w tid sz wr ex = Ret (a, w') \<Longrightarrow> kstep bf w w'"
| page_fault: "vasm_handle_page_fault w a = Ret (b, w') \<Longrightarrow> kstep bf w w'"
| open_file: "counters_ok w \<Longrightarrow> rust_vfs_open bf w sid p n wv = Ret (r, w') \<Longrightarrow> kstep bf w w'"
| close_file: "rust_vfs_close w sid fd = (r, w') \<Longrightarrow> kstep bf w w'"
| read_file: "rust_vfs_read bf w sid fd p n = Ret (r, w') \<Longrightarrow> kstep bf w w'"
| write_file: "rust_vfs_write bf w sid fd p n = Ret (r, w') \<Longrightarrow> kstep bf w w'"
| send: "rust_ipc_send w port sid p n = Ret (r, w') \<Longrightarrow> kstep bf w w'"
| recv: "rust_ipc_recv w port t = (r, w') \<Longrightarrow> kstep bf w w'"
| tick: "rust_kernel_tick ks frame w = Ret (f, w') \<Longrightarrow> kstep bf w w'"
| syscall: "counters_ok w \<Longrightarrow> rust_syscall_dispatch bf w nr a1 a2 a3 a4 a5 a6 = Ret (r, w') \<Longrightarrow> kstep bf w w'"
| spawn_process: "rust_spawn_process bf w p n = Ret w' \<Longrightarrow> kstep bf w w'"
| user_code: "kstep bf w (w\<lparr>hw := (hw w)\<lparr>mem := f\<rparr>\<rparr>)"

text \<open>The states after start-up on a machine with paging up.\<close>

definition kinit :: "bitflags \<Rightarrow> world \<Rightarrow> bool" where
  "kinit bf w \<longleftrightarrow> (\<exists>m. machine_ok m \<and> rust_kernel_init bf (kernel_new m) = Ret w)"

definition reachable :: "bitflags \<Rightarrow> world \<Rightarrow> bool" where
  "reachable bf w \<longleftrightarrow> (\<exists>w0. kinit bf w0 \<and> (kstep bf)\<^sup>*\<^sup>* w0 w)"

locale invariant_system =
  fixes init :: "'s \<Rightarrow> bool" and step :: "'s \<Rightarrow> 's \<Rightarrow> bool" and inv :: "'s \<Rightarrow> bool"
  assumes init_inv: "init s \<Longrightarrow> inv s"
    and step_inv: "inv s \<Longrightarrow> step s t \<Longrightarrow> inv t"
begin

lemma steps_inv: "step\<^sup>*\<^sup>* s t \<Longrightarrow> inv s \<Longrightarrow> inv t"
  by (induction rule: rtranclp_induct) (auto intro: step_inv)

lemma reach_inv: "init s \<Longrightarrow> step\<^sup>*\<^sup>* s t \<Longrightarrow> inv t"
  using steps_inv init_inv by blast

end

text \<open>The cases of the system call table.\<close>

lemma syscall_cases:
  assumes "rust_syscall_dispatch bf w nr a1 a2 a3 a4 a5 a6 = Ret (r, w')"
  obtains "w' = w"
  | q where "rust_vfs_read bf w a1 (ucast a2) a3 a4 = Ret (q, w')"
  | q where "rust_vfs_write bf w a1 (ucast a2) a3 a4 = Ret (q, w')"
  | q where "rust_vfs_open bf w 0 a1 a2 (ucast a3) = Ret (q, w')"
  | q where "rust_vfs_close w a1 (ucast a2) = (q, w')"
proof -
  have "nr = 0 \<Longrightarrow> thesis" "nr = 1 \<Longrightarrow> thesis" "nr = 2 \<Longrightarrow> thesis" "nr = 3 \<Longrightarrow> thesis"
    using assms that by (auto simp: rust_syscall_dispatch_def obind_eq_Ret split: prod.splits)
  moreover have "nr \<notin> {0, 1, 2, 3} \<Longrightarrow> thesis"
    using assms that(1) by (auto simp: rust_syscall_dispatch_def split: if_splits)
  ultimately show thesis by blast
qed

lemma syscall_wf:
  assumes "world_wf w" and "counters_ok w" and "rust_syscall_dispatch bf w nr a1 a2 a3 a4 a5 a6 = Ret (r, w')"
  shows "world_wf w'"
  using assms(3)
proof (cases rule: syscall_cases)
  case (2 q)
  with assms(1) show ?thesis by (rule vfs_read_export_wf)
next
  case (3 q)
  with assms(1) show ?thesis by (rule vfs_write_export_wf)
next
  case (4 q)
  with assms(1,2) show ?thesis by (rule vfs_open_export_wf)
next
  case (5 q)
  with assms(1) show ?thesis by (rule vfs_close_export_wf)
qed (use assms(1) in simp)

lemmas export_wf = create_child_wf run_process_wf allocate_memory_wf page_fault_wf vfs_open_export_wf
  vfs_close_export_wf vfs_read_export_wf vfs_write_export_wf ipc_send_export_wf ipc_recv_export_wf
  tick_wf syscall_wf spawn_process_wf

lemma kstep_wf:
  assumes "kstep bf w w'" and "bitflags_spec bf" and "world_wf w"
  shows "world_wf w'"
  using assms
proof cases
  case (user_code f)
  with assms(3) show ?thesis by (simp add: world_wf_def)
qed (use assms(2,3) in \<open>blast intro: export_wf\<close>)+

lemma kinit_wf: "kinit bf w \<Longrightarrow> world_wf w"
  unfolding kinit_def
  using kernel_init_wf [OF world_wf_kernel_new] by (auto simp: kernel_new_def)

interpretation kernel: invariant_system "kinit bf" "\<lambda>w w'. bitflags_spec bf \<and> kstep bf w w'" world_wf
  by unfold_locales (use kinit_wf kstep_wf in blast)+

lemma reachable_wf:
  assumes "bitflags_spec bf" and "reachable bf w"
  shows "world_wf w"
proof -
  from assms(1) have "(\<lambda>w w'. bitflags_spec bf \<and> kstep bf w w') = kstep bf" by simp
  with assms(2) kernel.reach_inv [of bf _ w] show ?thesis by (auto simp: reachable_def)
qed

section \<open>The identity of tokens\<close>

text \<open>What a token says about who it is and what it may do.\<close>

definition identity :: "token \<Rightarrow> u64 \<times> privilege_level \<times> capability \<times> tref option" where
  "identity t = (tok_id t, privilege t, capabilities t, parent t)"

definition auth_kept :: "world \<Rightarrow> world \<Rightarrow> bool" where
  "auth_kept w w' \<longleftrightarrow> length (tok_store w) \<le> length (tok_store w') \<and>
     (\<forall>r<length (tok_store w). identity (token_at w' r) = identity (token_at w r))"

lemma auth_kept_refl [simp]: "auth_kept w w"
  by (simp add: auth_kept_def)

lemma auth_kept_trans: "auth_kept u v \<Longrightarrow> auth_kept v w \<Longrightarrow> auth_kept u w"
  by (auto simp: auth_kept_def)

lemma auth_kept_same: "tok_store w' = tok_store w \<Longrightarrow> auth_kept w w'"
  by (simp add: auth_kept_def)

lemma auth_kept_update:
  assumes "identity t = identity (token_at w r)" and "tok_store w' = (tok_store w)[r := t]"
  shows "auth_kept w w'"
  using assms by (simp add: auth_kept_def list_update_field [of identity])

lemma auth_kept_modify:
  assumes "\<And>t. identity (f t) = identity t" and "tok_store w = tok_store u"
  shows "auth_kept u (modify_token r f w)"
  by (rule auth_kept_update [of "f (token_at u r)" _ r]) (simp_all add: assms modify_token_def)

lemma create_child_kept:
  assumes "rust_create_child_token bf w cs np nl pv pid ml cf lt = Ret (i, w')"
  shows "auth_kept w w'"
  using assms
proof (cases rule: create_child_cases)
  case (2 t name)
  let ?w1 = "w\<lparr>tok_store := tok_store w @ [t]\<rparr>"
  have "auth_kept w ?w1" by (simp add: auth_kept_def nth_append)
  moreover have "auth_kept ?w1 w'"
  proof (cases "k_tokens w pid")
    case None
    with 2 show ?thesis by (auto intro: auth_kept_same)
  next
    case (Some r)
    with 2 show ?thesis
      by (intro auth_kept_update [of "(token_at ?w1 r)\<lparr>children := children (token_at ?w1 r) @ [length (tok_store w)]\<rparr>" _ r])
        (simp_all add: identity_def modify_token_def)
  qed
  ultimately show ?thesis by (rule auth_kept_trans)
qed simp

lemma run_process_kept:
  assumes "rust_run_process w tid n = (i, w')"
  shows "auth_kept w w'"
proof (cases "\<exists>r. k_tokens w tid = Some r \<and> \<not> run_count (token_at w r) \<ge> 2")
  case True
  then obtain r where r: "k_tokens w tid = Some r" "\<not> run_count (token_at w r) \<ge> 2" by blast
  with assms have "tok_store w' = (tok_store w)[r := (token_at w r)\<lparr>run_count := run_count (token_at w r) + 1\<rparr>]"
    by (auto simp: rust_run_process_def Let_def modify_token_def split: prod.splits)
  then show ?thesis by (rule auth_kept_update [rotated]) (simp add: identity_def)
next
  case False
  with assms show ?thesis by (auto simp: rust_run_process_def split: option.splits)
qed

lemma allocate_memory_kept:
  "rust_allocate_memory w tid sz wr ex = Ret (a, w') \<Longrightarrow> auth_kept w w'"
  by (erule allocate_memory_cases)
    (auto simp: auth_kept_same add_area_def identity_def intro: auth_kept_modify)

lemma page_fault_kept:
  assumes "vasm_handle_page_fault w a = Ret (b, w')"
  shows "auth_kept w w'"
  using assms
proof (cases rule: page_fault_cases)
  case (2 th ses sa v)
  obtain p m1 where pa: "palloc (hw w) (pages_of (vma_size v)) = (p, m1)" by fastforce
  from assms page_fault_lazy [OF 2 pa] show ?thesis
    by (auto simp: obind_eq_Ret identity_def auth_kept_same split: if_splits intro!: auth_kept_modify)
qed simp

lemma vfs_open_kept: "rust_vfs_open bf w sid p n wv = Ret (r, w') \<Longrightarrow> auth_kept w w'"
  by (auto simp: rust_vfs_open_def obind_eq_Ret Let_def split: if_splits prod.splits sum.splits
      intro: auth_kept_same)

lemma vfs_close_kept: "rust_vfs_close w sid fd = (r, w') \<Longrightarrow> auth_kept w w'"
  by (auto simp: rust_vfs_close_def split: prod.splits sum.splits intro: auth_kept_same)

lemma vfs_read_kept: "rust_vfs_read bf w sid fd p n = Ret (r, w') \<Longrightarrow> auth_kept w w'"
  by (erule vfs_read_export_cases) (simp_all add: auth_kept_same)

lemma vfs_write_kept: "rust_vfs_write bf w sid fd p n = Ret (r, w') \<Longrightarrow> auth_kept w w'"
  by (auto simp: rust_vfs_write_def obind_eq_Ret split: if_splits intro: auth_kept_same)

lemma ipc_send_kept:
  assumes "rust_ipc_send w port sid p n = Ret (r, w')"
  shows "auth_kept w w'"
proof -
  obtain data where d: "raw_slice w p n = Ret data"
    using assms by (auto simp: rust_ipc_send_def obind_eq_Ret)
  obtain x i where "ipc_send (k_ipc w) port sid (utf8_or data []) = (x, i)" by fastforce
  with d assms show ?thesis by (cases x) (auto simp: rust_ipc_send_def intro: auth_kept_same)
qed

lemma ipc_recv_kept: "rust_ipc_recv w port t = (r, w') \<Longrightarrow> auth_kept w w'"
  by (auto simp: rust_ipc_recv_def split: prod.splits option.splits intro: auth_kept_same)

lemma expire_token_kept: "expire_token tid w = Ret w' \<Longrightarrow> auth_kept w w'"
  by (auto simp: expire_token_def obind_eq_Ret identity_def split: option.splits intro!: auth_kept_modify)

lemma tick_kept:
  assumes "rust_kernel_tick ks frame w = Ret (f, w')"
  shows "auth_kept w w'"
proof -
  define w1 where "w1 = w\<lparr>tick_count := tick_count w + 1\<rparr>"
  from assms obtain w2 where w2: "ofold expire_token (expired_ids ks w1) w1 = Ret w2"
    by (auto simp: rust_kernel_tick_def w1_def [symmetric] obind_eq_Ret Let_def)
  then have "auth_kept w1 w2"
    by (rule ofold_invariant [where I = "auth_kept w1"]) (auto intro: auth_kept_trans expire_token_kept)
  moreover have "tok_store w' = tok_store w2" 
    using assms w2 by (auto simp: rust_kernel_tick_def w1_def [symmetric] Let_def split: prod.splits option.splits)
  moreover have "tok_store w1 = tok_store w" by (simp add: w1_def)
  ultimately show ?thesis by (simp add: auth_kept_def)
qed

lemma syscall_kept:
  "rust_syscall_dispatch bf w nr a1 a2 a3 a4 a5 a6 = Ret (r, w') \<Longrightarrow> auth_kept w w'"
  by (erule syscall_cases) (auto intro: vfs_read_kept vfs_write_kept vfs_open_kept vfs_close_kept)

lemma spawn_process_kept:
  "world_wf w \<Longrightarrow> rust_spawn_process bf w p n = Ret w' \<Longrightarrow> auth_kept w w'"
  by (erule (1) spawn_process_cases) (simp_all add: auth_kept_same)

lemmas export_kept = create_child_kept run_process_kept allocate_memory_kept page_fault_kept vfs_open_kept
  vfs_close_kept vfs_read_kept vfs_write_kept ipc_send_kept ipc_recv_kept tick_kept syscall_kept
  spawn_process_kept

lemma kstep_kept:
  assumes "kstep bf w w'" and "world_wf w"
  shows "auth_kept w w'"
  using assms(1)
proof cases
  case (user_code f)
  then show ?thesis by (simp add: auth_kept_def)
qed (use assms(2) in \<open>blast intro: export_kept\<close>)+

interpretation kept: invariant_system "\<lambda>w. world_wf w \<and> w = w0"
    "\<lambda>w w'. bitflags_spec bf \<and> kstep bf w w'" "\<lambda>w. world_wf w \<and> auth_kept w0 w"
  by unfold_locales (use kstep_wf kstep_kept auth_kept_trans auth_kept_refl in blast)+

lemma runs_kept:
  assumes "bitflags_spec bf" and "world_wf w" and "(kstep bf)\<^sup>*\<^sup>* w w'"
  shows "auth_kept w w'"
proof -
  from assms(1) have "(\<lambda>w w'. bitflags_spec bf \<and> kstep bf w w') = kstep bf" by simp
  with assms kept.reach_inv [of w w bf w'] show ?thesis by auto
qed

end
