(* ===== verification/Kernel_Auth.thy ===== *)
theory Kernel_Auth
  imports Kernel_Steps
begin

text \<open>
  Properties of the kernel that span its components, part one: the reachable states, and what
  tokens, sessions and capabilities guarantee.
\<close>

section \<open>A started kernel\<close>

lemma mount_blank: "ext2_mount (lit ''/dev/hda'') driver_manager_new (\<lambda>_. 0) = Ret (Inl InvalidSignature)"
proof -
  have dev: "drivers driver_manager_new (lit ''/dev/hda'') = Some AtaDriver" by (simp add: driver_manager_new_def)
  have "magic (parse_superblock (map (\<lambda>i. 0) [0..<1040])) \<noteq> EXT2_SIGNATURE"
    by (simp add: parse_superblock_def le_map_upt EXT2_SIGNATURE_def del: upt_rec_numeral)
  then show ?thesis
    using read_superblock_disk [OF dev, of "\<lambda>_. 0"]
    by (simp add: ext2_mount_def read_struct_def superblock_size_def del: upt_rec_numeral)
qed

text \<open>The kernel after start-up on \<open>machine_demo\<close>, whose disk is blank.\<close>

definition boot_demo :: world where
  "boot_demo = (booted bitflags_model (kernel_new machine_demo))
     \<lparr>k_vfs := (k_vfs (booted bitflags_model (kernel_new machine_demo)))\<lparr>ext2_err := Some InvalidSignature\<rparr>\<rparr>"

lemma init_demo: "rust_kernel_init bitflags_model (kernel_new machine_demo) = Ret boot_demo"
  unfolding kernel_init_result using mount_blank
  by (simp add: boot_demo_def kernel_new_def machine_demo_def)

lemma boot_demo_reachable: "reachable bitflags_model boot_demo"
  using init_demo machine_demo_ok unfolding reachable_def kinit_def by blast

lemma boot_demo_simps [simp]:
  "k_tokens boot_demo = [1 \<mapsto> 0]" "k_sessions boot_demo = Map.empty" "tick_count boot_demo = 0"
  "tok_store boot_demo = [root_token bitflags_model 1]" "next_token_id boot_demo = 2"
  "next_session_id boot_demo = 1" "hw boot_demo = machine_demo" "k_sched boot_demo = scheduler_new"
  "k_driver boot_demo = driver_manager_new"
  by (simp_all add: boot_demo_def booted_def kernel_new_def)

text \<open>The root token then runs in session 1, and that session creates a child token.\<close>

definition run_demo :: world where
  "run_demo = snd (rust_run_process boot_demo 1 100)"

definition family_demo :: world where
  "family_demo = (case rust_create_child_token bitflags_model run_demo 1 0x1000 0 2 1 0 FS_READ 0 of
     Ret (i, w) \<Rightarrow> w | _ \<Rightarrow> run_demo)"

lemma run_demo_simps [simp]:
  "k_tokens run_demo = [1 \<mapsto> 0]" "tick_count run_demo = 0" "next_token_id run_demo = 2"
  "next_session_id run_demo = 2" "hw run_demo = machine_demo" "k_vfs run_demo = k_vfs boot_demo"
  "k_sessions run_demo = [1 \<mapsto> \<lparr>ses_id = 1, ses_token = 0, ses_expiry_tick = 100, is_active = True\<rparr>]"
  "tok_store run_demo = [(root_token bitflags_model 1)\<lparr>run_count := 1\<rparr>]"
  by (simp_all add: run_demo_def rust_run_process_def Let_def modify_token_def root_token_def
      split: prod.splits)

lemma next_fd_boot [simp]: "next_fd (k_vfs boot_demo) = 3"
  by (simp add: boot_demo_def booted_def kernel_new_def populate_from_initramfs_def vfs_new_def)

lemma family_demo_eq:
  "rust_create_child_token bitflags_model run_demo 1 0x1000 0 2 1 0 FS_READ 0 = Ret (2, family_demo)"
  "tok_store family_demo = [(root_token bitflags_model 1)\<lparr>run_count := 1, children := [1]\<rparr>,
     child_token bitflags_model run_demo [] 2 1 0 FS_READ 0]"
  "k_tokens family_demo = [1 \<mapsto> 0, 2 \<mapsto> 1]"
  "next_token_id family_demo = 3" "next_session_id family_demo = 2" "tick_count family_demo = 0"
  "hw family_demo = machine_demo" "k_vfs family_demo = k_vfs boot_demo"
proof -
  have rs: "raw_slice run_demo 0x1000 0 = Ret []" by (simp add: raw_slice_def mem_read_def)
  have "utf8_or [] (lit ''unknown'') = []" by (simp add: utf8_or_def from_utf8_ascii)
  then have "rust_create_child_token bitflags_model run_demo 1 0x1000 0 2 1 0 FS_READ 0 = Ret (2,
      run_demo\<lparr>tok_store := [(root_token bitflags_model 1)\<lparr>run_count := 1, children := [1]\<rparr>,
        child_token bitflags_model run_demo [] 2 1 0 FS_READ 0],
        k_tokens := [1 \<mapsto> 0, 2 \<mapsto> 1], next_token_id := 3\<rparr>)"
    using rs by (simp add: rust_create_child_token_def Let_def caller_valid_def inherit_ok_def modify_token_def
        root_token_def bitflags_model_def declared_flags_val FS_READ_def)
  then show "rust_create_child_token bitflags_model run_demo 1 0x1000 0 2 1 0 FS_READ 0 = Ret (2, family_demo)"
    "tok_store family_demo = [(root_token bitflags_model 1)\<lparr>run_count := 1, children := [1]\<rparr>,
       child_token bitflags_model run_demo [] 2 1 0 FS_READ 0]"
    "k_tokens family_demo = [1 \<mapsto> 0, 2 \<mapsto> 1]"
    "next_token_id family_demo = 3" "next_session_id family_demo = 2" "tick_count family_demo = 0"
    "hw family_demo = machine_demo" "k_vfs family_demo = k_vfs boot_demo"
    by (simp_all add: family_demo_def)
qed

lemmas family_demo_rest [simp] = family_demo_eq(4-8)

lemma reachable_step: "reachable bf w \<Longrightarrow> kstep bf w w' \<Longrightarrow> reachable bf w'"
  unfolding reachable_def by (meson rtranclp.rtrancl_into_rtrancl)

lemma run_demo_reachable: "reachable bitflags_model run_demo"
proof (rule reachable_step [OF boot_demo_reachable kstep.run_process])
  show "counters_ok boot_demo" by (simp add: counters_ok_def)
  show "rust_run_process boot_demo 1 100 = (fst (rust_run_process boot_demo 1 100), run_demo)"
    by (simp add: run_demo_def)
qed

lemma family_demo_reachable: "reachable bitflags_model family_demo"
  using family_demo_eq(1)
  by (intro reachable_step [OF run_demo_reachable kstep.create_child]) (simp_all add: counters_ok_def)

section \<open>Authority\<close>

text \<open>A token descends from another along the parent links.\<close>

definition parent_of :: "world \<Rightarrow> tref \<Rightarrow> tref \<Rightarrow> bool" where
  "parent_of w r p \<longleftrightarrow> r < length (tok_store w) \<and> parent (token_at w r) = Some p"

lemma authority_le_refl [simp]: "authority_le t t"
  by (simp add: authority_le_def)

lemma authority_le_trans:
  assumes "authority_le a b" and "authority_le b c" shows "authority_le a c"
proof -
  have "capabilities a AND capabilities c = capabilities a"
    using assms unfolding authority_le_def by (metis and.assoc)
  with assms show ?thesis unfolding authority_le_def by (meson order_trans)
qed

lemma parent_authority:
  assumes "world_wf w" and "parent_of w r p"
  shows "authority_le (token_at w r) (token_at w p)"
proof -
  have "token_ok (tok_store w) (token_at w r)"
    using world_wf_auth [OF assms(1)] assms(2) tokens_okD(1) unfolding auth_wf_def parent_of_def by blast
  with assms(2) show ?thesis by (simp add: token_ok_def parent_of_def)
qed

lemma ancestor_authority:
  assumes "world_wf w" and "(parent_of w)\<^sup>*\<^sup>* r p"
  shows "authority_le (token_at w r) (token_at w p)"
  using assms(2) by induction (auto intro: authority_le_trans parent_authority [OF assms(1)])

text \<open>The result of a successful creation.\<close>

lemma create_child_new:
  assumes "raw_slice w np nl = Ret ns" and "caller_valid w cs pid" and "inherit_ok w pid pv cf"
    and "\<forall>r. k_tokens w pid = Some r \<longrightarrow> r < length (tok_store w)"
  shows "\<exists>w'. rust_create_child_token bf w cs np nl pv pid ml cf lt = Ret (next_token_id w, w') \<and>
    k_tokens w' (next_token_id w) = Some (length (tok_store w)) \<and>
    token_at w' (length (tok_store w)) =
      child_token bf w (utf8_or ns (lit ''unknown'')) pv pid ml cf lt"
proof (cases "k_tokens w pid")
  case (Some r)
  then have "r < length (tok_store w)" using assms(4) by blast
  with Some assms show ?thesis
    by (simp add: rust_create_child_token_def Let_def modify_token_def nth_append)
qed (use assms in \<open>simp add: rust_create_child_token_def Let_def\<close>)

text \<open>The effect of a tick on tokens and sessions.\<close>

lemma expired_ids_set:
  "set ks = dom (k_tokens w) \<Longrightarrow> t \<in> set (expired_ids ks w) \<longleftrightarrow>
     (\<exists>r. k_tokens w t = Some r \<and> is_expired (token_at w r) (tick_count w))"
  by (auto simp: expired_ids_def split: option.splits)

lemma activate_session_same:
  "map_option ses_token (k_sessions (activate_session i w) sid) = map_option ses_token (k_sessions w sid) \<and>
   map_option ses_expiry_tick (k_sessions (activate_session i w) sid) = map_option ses_expiry_tick (k_sessions w sid)"
  by (auto simp: activate_session_sessions split: option.splits)

lemma tick_tokens:
  assumes "world_wf w" and "set ks = dom (k_tokens w)"
    and "rust_kernel_tick ks frame w \<noteq> Panic \<or> \<not> zig_safety (hw w)"
  shows "\<exists>f w'. rust_kernel_tick ks frame w = Ret (f, w') \<and> tick_count w' = tick_count w + 1 \<and>
    next_token_id w' = next_token_id w \<and>
    (\<forall>t. k_tokens w' t = (case k_tokens w t of None \<Rightarrow> None
       | Some r \<Rightarrow> if is_expired (token_at w r) (tick_count w + 1) then None else Some r)) \<and>
    (\<forall>t r. k_tokens w' t = Some r \<longrightarrow> token_at w' r = token_at w r) \<and>
    (\<forall>sid. map_option ses_token (k_sessions w' sid) = map_option ses_token (k_sessions w sid) \<and>
       map_option ses_expiry_tick (k_sessions w' sid) = map_option ses_expiry_tick (k_sessions w sid))"
proof -
  define w1 where "w1 = w\<lparr>tick_count := tick_count w + 1\<rparr>"
  obtain th s where sn: "schedule_next (k_sched w) = (th, s)" by fastforce
  from tick_result [OF assms(1) sn assms(3), folded w1_def] obtain w2 where
    w2: "same_but_tokens w1 w2" "\<forall>t. k_tokens w2 t = (if t \<in> set (expired_ids ks w1) then None else k_tokens w t)"
      "\<forall>t r. t \<notin> set (expired_ids ks w1) \<and> k_tokens w t = Some r \<longrightarrow> token_at w2 r = token_at w r"
      "rust_kernel_tick ks frame w = Ret
      (case th of None \<Rightarrow> frame | Some h \<Rightarrow> map_option (load_frame (th_context (thread_at s h))) frame,
       case th of None \<Rightarrow> w2\<lparr>k_sched := s\<rparr>
       | Some h \<Rightarrow> activate_session (th_session_id (thread_at s h)) (w2\<lparr>k_sched := s\<rparr>))" by blast
  define w' where "w' = (case th of None \<Rightarrow> w2\<lparr>k_sched := s\<rparr>
       | Some h \<Rightarrow> activate_session (th_session_id (thread_at s h)) (w2\<lparr>k_sched := s\<rparr>))"
  have same: "k_tokens w' = k_tokens w2" "tok_store w' = tok_store w2" "tick_count w' = tick_count w + 1"
      "next_token_id w' = next_token_id w"
    using w2(1) by (auto simp: w'_def same_but_tokens_def w1_def split: option.split)
  have ses: "map_option ses_token (k_sessions w' sid) = map_option ses_token (k_sessions w sid) \<and>
       map_option ses_expiry_tick (k_sessions w' sid) = map_option ses_expiry_tick (k_sessions w sid)" for sid
    using w2(1) activate_session_same [of _ "w2\<lparr>k_sched := s\<rparr>" sid]
    by (auto simp: w'_def same_but_tokens_def w1_def split: option.split)
  have ex: "t \<in> set (expired_ids ks w1) \<longleftrightarrow>
      (\<exists>r. k_tokens w t = Some r \<and> is_expired (token_at w r) (tick_count w + 1))" for t
    using expired_ids_set [of ks w1 t] assms(2) by (simp add: w1_def)
  have tk: "k_tokens w' t = (case k_tokens w t of None \<Rightarrow> None
       | Some r \<Rightarrow> if is_expired (token_at w r) (tick_count w + 1) then None else Some r)" for t
    unfolding same using w2(2) ex by (cases "k_tokens w t") simp_all
  have "token_at w' r = token_at w r" if "k_tokens w' t = Some r" for t r
  proof -
    from that have "t \<notin> set (expired_ids ks w1)" "k_tokens w t = Some r"
      using w2(2) unfolding same by (metis option.distinct(1))+
    with w2(3) same show ?thesis by simp
  qed
  with tk ses same w2(4) show ?thesis unfolding w'_def [symmetric] by blast
qed

text \<open>The child runs in session 2 and expires at the next tick; its session remains.\<close>

definition heir_demo :: world where
  "heir_demo = snd (rust_run_process family_demo 2 100)"

lemma heir_demo_simps:
  "k_tokens heir_demo = [1 \<mapsto> 0, 2 \<mapsto> 1]" "length (tok_store heir_demo) = 2" "tick_count heir_demo = 0"
  "\<exists>s. k_sessions heir_demo 2 = Some s \<and> ses_token s = 1 \<and> ses_expiry_tick s = 100"
  "token_at heir_demo (Suc 0) = (child_token bitflags_model run_demo [] 2 1 0 FS_READ 0)\<lparr>run_count := 1\<rparr>"
  "token_at heir_demo 0 = (root_token bitflags_model 1)\<lparr>run_count := 1, children := [1]\<rparr>"
  "next_token_id heir_demo = 3" 
  by (auto simp: heir_demo_def rust_run_process_def Let_def modify_token_def family_demo_eq child_token_def
      split: prod.split)

lemma heir_demo_hw [simp]: "hw heir_demo = machine_demo"
  by (simp add: heir_demo_def rust_run_process_def Let_def family_demo_eq modify_token_def split: prod.split)

lemma heir_demo_fast: "\<not> zig_safety (hw heir_demo)"
  by (simp add: machine_demo_def)

lemma heir_demo_reachable: "reachable bitflags_model heir_demo"
proof (rule reachable_step [OF family_demo_reachable kstep.run_process])
  show "counters_ok family_demo" by (simp add: counters_ok_def)
  show "rust_run_process family_demo 2 100 = (fst (rust_run_process family_demo 2 100), heir_demo)"
    by (simp add: heir_demo_def)
qed

lemma orphan_reachable:
  "\<exists>w s. reachable bitflags_model w \<and> k_sessions w 2 = Some s \<and> ses_token s = 1 \<and> k_tokens w 2 = None \<and>
     tok_id (token_at w 1) = 2 \<and> privilege (token_at w 1) = User \<and> capabilities (token_at w 1) = FS_READ \<and>
     tick_count w = 1 \<and> ses_expiry_tick s = 100"
proof -
  have wf: "world_wf heir_demo" by (rule reachable_wf [OF bitflags_model_spec heir_demo_reachable])
  have "set [1, 2] = dom (k_tokens heir_demo)" by (auto simp: heir_demo_simps)
  from tick_tokens [OF wf this, of None] heir_demo_fast obtain f w where
    w: "rust_kernel_tick [1, 2] None heir_demo = Ret (f, w)" "tick_count w = 1"
      "\<forall>t. k_tokens w t = (case k_tokens heir_demo t of None \<Rightarrow> None
       | Some r \<Rightarrow> if is_expired (token_at heir_demo r) 1 then None else Some r)"
      "map_option ses_token (k_sessions w 2) = map_option ses_token (k_sessions heir_demo 2)"
      "map_option ses_expiry_tick (k_sessions w 2) = map_option ses_expiry_tick (k_sessions heir_demo 2)"
    by (auto simp: heir_demo_simps)
  have "identity (token_at w 1) = identity (token_at heir_demo 1)"
    using tick_kept [OF w(1)] by (simp add: auth_kept_def heir_demo_simps)
  then have "tok_id (token_at w 1) = 2" "privilege (token_at w 1) = User" "capabilities (token_at w 1) = FS_READ"
    by (simp_all add: identity_def heir_demo_simps child_token_def privilege_of_def bitflags_model_def
        declared_flags_val FS_READ_def)
  moreover have "k_tokens w 2 = None" using w(3) by (simp add: heir_demo_simps is_expired_def child_token_def)
  moreover have "reachable bitflags_model w"
    using heir_demo_reachable w(1) by (blast intro: reachable_step kstep.tick)
  ultimately show ?thesis using w(2,4,5) heir_demo_simps(4) by fastforce
qed

section \<open>Properties\<close>

text \<open>
  C1. In every state the kernel can reach from start-up on a machine with paging up, by any
  sequence of exports, timer ticks and user writes, the invariant holds: the page pool, the
  scheduler and the file system are well formed, ids and references of tokens and sessions are
  consistent, every token keeps W^X, no token has authority its parent lacks, and no token has
  more sessions than counted runs, of which there are at most two.
\<close>

theorem reachable_world_wf:
  assumes "bitflags_spec bf" and "reachable bf w"
  shows "world_wf w"
  using assms by (rule reachable_wf)

theorem reachable_world_wf_witness: "world_wf boot_demo"
  by (rule reachable_world_wf [OF bitflags_model_spec boot_demo_reachable])

text \<open>
  C2. Authority only shrinks along the token tree: in every reachable state a token's
  capabilities are a subset of those of each of its ancestors, and its privilege level is not
  above theirs.
\<close>

theorem descendants_bounded:
  assumes "bitflags_spec bf" and "reachable bf w" and "(parent_of w)\<^sup>*\<^sup>* r p"
  shows "privilege (token_at w p) \<le> privilege (token_at w r) \<and>
    capabilities (token_at w r) AND capabilities (token_at w p) = capabilities (token_at w r)"
  using ancestor_authority [OF reachable_wf [OF assms(1,2)] assms(3)] by (simp add: authority_le_def)

theorem descendants_bounded_witness:
  "privilege (token_at family_demo 0) \<le> privilege (token_at family_demo 1) \<and>
   capabilities (token_at family_demo 1) AND capabilities (token_at family_demo 0) = FS_READ"
proof -
  have "parent_of family_demo 1 0"
    by (simp add: parent_of_def family_demo_eq child_token_def)
  then have "(parent_of family_demo)\<^sup>*\<^sup>* 1 0" by blast
  from descendants_bounded [OF bitflags_model_spec family_demo_reachable this] show ?thesis
    by (simp add: family_demo_eq child_token_def bitflags_model_def declared_flags_val FS_READ_def)
qed

text \<open>
  C3. No step of the kernel changes who an existing token is: its id, privilege, capabilities
  and parent stay the same along every run from a reachable state. Authority is fixed at creation.
\<close>

theorem token_identity_fixed:
  assumes "bitflags_spec bf" and "reachable bf w" and "(kstep bf)\<^sup>*\<^sup>* w w'" and "r < length (tok_store w)"
  shows "r < length (tok_store w') \<and> tok_id (token_at w' r) = tok_id (token_at w r) \<and>
    privilege (token_at w' r) = privilege (token_at w r) \<and>
    capabilities (token_at w' r) = capabilities (token_at w r) \<and> parent (token_at w' r) = parent (token_at w r)"
proof -
  have "auth_kept w w'" using runs_kept [OF assms(1) reachable_wf [OF assms(1,2)] assms(3)] .
  with assms(4) show ?thesis by (simp add: auth_kept_def identity_def)
qed

theorem token_identity_fixed_witness:
  "privilege (token_at family_demo 0) = Root \<and> run_demo \<noteq> family_demo"
proof -
  have "(kstep bitflags_model)\<^sup>*\<^sup>* run_demo family_demo"
    using family_demo_eq(1) by (intro r_into_rtranclp kstep.create_child) (simp_all add: counters_ok_def)
  from token_identity_fixed [OF bitflags_model_spec run_demo_reachable this, of 0]
  have "privilege (token_at family_demo 0) = Root" by (simp add: root_token_def)
  moreover have "length (tok_store run_demo) \<noteq> length (tok_store family_demo)" by (simp add: family_demo_eq)
  ultimately show ?thesis by metis
qed



text \<open>
  The checks of child creation rest on the parent being registered: a session whose token
  has expired, and is therefore no longer registered, is granted a token with any privilege and
  every declared capability it asks for.
\<close>

theorem expired_parent_unchecked:
  assumes "k_sessions w cs = Some s" and "tok_id (token_at w (ses_token s)) = pid" and "k_tokens w pid = None"
    and "raw_slice w np nl = Ret ns"
  shows "\<exists>w'. rust_create_child_token bf w cs np nl pv pid ml cf lt = Ret (next_token_id w, w') \<and>
    k_tokens w' (next_token_id w) = Some (length (tok_store w)) \<and>
    privilege (token_at w' (length (tok_store w))) = privilege_of pv \<and>
    capabilities (token_at w' (length (tok_store w))) = bf_truncate bf cf \<and>
    parent (token_at w' (length (tok_store w))) = None"
  using create_child_new [of w np nl ns cs pid pv cf bf ml lt] assms
  by (auto simp: caller_valid_def inherit_ok_def child_token_def)

theorem expired_parent_unchecked_witness:
  "\<exists>w i w'. reachable bitflags_model w \<and> capabilities (token_at w 1) = FS_READ \<and>
     rust_create_child_token bitflags_model w 2 0x1000 0 0 2 4096 0x1FF 50 = Ret (i, w') \<and>
     (\<exists>r. k_tokens w' i = Some r \<and> privilege (token_at w' r) = Root \<and> capabilities (token_at w' r) = 0x1FF)"
proof -
  from orphan_reachable obtain w s where w: "reachable bitflags_model w" "k_sessions w 2 = Some s"
    "ses_token s = 1" "k_tokens w 2 = None" "tok_id (token_at w 1) = 2" "capabilities (token_at w 1) = FS_READ"
    by blast
  have "raw_slice w 0x1000 0 = Ret []" by (simp add: raw_slice_def mem_read_def)
  from expired_parent_unchecked [OF w(2) _ w(4) this, of bitflags_model 0 4096 "0x1FF" 50] w show ?thesis
    by (auto simp: privilege_of_def bitflags_model_def declared_flags_val)
qed

text \<open>
  C7. A token never has more than two sessions, in any reachable state, and a third
  \<open>rust_run_process\<close> on it is refused without a change.
\<close>

theorem two_sessions_per_token:
  assumes "bitflags_spec bf" and "reachable bf w" and "k_tokens w tid = Some r"
  shows "card {sid. \<exists>s. k_sessions w sid = Some s \<and> ses_token s = r} \<le> 2 \<and>
    (card {sid. \<exists>s. k_sessions w sid = Some s \<and> ses_token s = r} = 2 \<longrightarrow> rust_run_process w tid n = (0, w))"
proof -
  note wf = reachable_wf [OF assms(1,2)]
  note aw = world_wf_auth [OF wf]
  have r: "r < length (tok_store w)" using world_wf_token(1) [OF wf assms(3)] .
  have "card (sessions_of (k_sessions w) r) \<le> unat (run_count (token_at w r))"
    using aw r by (simp add: auth_wf_def runs_ok_def)
  moreover have "unat (run_count (token_at w r)) \<le> 2"
    using aw r tokens_okD(3) unfolding auth_wf_def by blast
  moreover have "rust_run_process w tid n = (0, w)" if "2 \<le> unat (run_count (token_at w r))"
    using that assms(3) by (simp add: rust_run_process_def word_le_nat_alt)
  ultimately show ?thesis unfolding sessions_of_def [symmetric] by auto
qed

theorem two_sessions_per_token_witness:
  "card {sid. \<exists>s. k_sessions run_demo sid = Some s \<and> ses_token s = 0} \<le> 2"
  using two_sessions_per_token [OF bitflags_model_spec run_demo_reachable, of 1 0 5] by (simp only: run_demo_simps) simp





end
