(* ===== verification/Kernel_Io.thy ===== *)
theory Kernel_Io
  imports Kernel_Auth
begin

text \<open>
  Properties of the kernel that span its components, part three: the buffers of user code,
  start-up, the system call table, processes and the directory listing of the shell.
\<close>

section \<open>Lemmas\<close>

lemma no_session_zero: "world_wf w \<Longrightarrow> k_sessions w 0 = None"
  using world_wf_session(3) [of w 0] by fastforce

text \<open>The window in which user buffers must lie.\<close>

definition user_window :: "u64 set" where
  "user_window = {x. 0x20000000 \<le> x \<and> x < 0x80000000}"

lemma user_buffer_window:
  assumes "\<not> user_buffer_bad p n" and "unat (x - p) < unat n"
  shows "x \<in> user_window"
proof -
  have le: "0x20000000 \<le> unat p" and sum: "unat p + unat n < 2 ^ 64" and hi: "unat (p + n) \<le> 0x80000000"
    using assms(1) by (auto simp: user_buffer_bad_def word_le_nat_alt linorder_not_less)
  have "unat (p + n) = unat p + unat n" using sum by (rule unat_add64)
  with hi have b: "unat p + unat n \<le> 0x80000000" by simp
  have "unat (p + (x - p)) = unat p + unat (x - p)" using sum assms(2) by (intro unat_add64) simp
  then have "unat x = unat p + unat (x - p)" by simp
  with le b assms(2) show ?thesis by (simp add: user_window_def word_le_nat_alt word_less_nat_alt)
qed

lemma user_buffer_len:
  assumes "\<not> user_buffer_bad p n" shows "unat n \<le> 0x60000000"
proof -
  have le: "0x20000000 \<le> unat p" and sum: "unat p + unat n < 2 ^ 64" and hi: "unat (p + n) \<le> 0x80000000"
    using assms by (auto simp: user_buffer_bad_def word_le_nat_alt linorder_not_less)
  have "unat (p + n) = unat p + unat n" using sum by (rule unat_add64)
  with hi le show ?thesis by simp
qed

lemma sint_ucast_small:
  assumes "unat (k :: usize) < 2 ^ 31" shows "sint (ucast k :: i32) = int (unat k)"
proof -
  have "(ucast k :: i32) = word_of_int (int (unat k))" by simp
  then have "sint (ucast k :: i32) = signed_take_bit 31 (int (unat k))"
    by (simp only: sint_sbintrunc') simp
  moreover have "signed_take_bit 31 (int (unat k)) = int (unat k)"
  proof (rule signed_take_bit_int_eq_self)
    show "int (unat k) < 2 ^ 31" using assms by (metis of_nat_less_iff of_nat_numeral of_nat_power)
    show "- (2 ^ 31) \<le> int (unat k)" by (rule order_trans [of _ 0]) simp_all
  qed
  ultimately show ?thesis by simp
qed

text \<open>The names the listing collects.\<close>

lemma add_entry_fold:
  "set (fold (add_entry d) ks acc) =
     set acc \<union> {n. \<exists>k\<in>set ks. starts_with k d \<and> n = entry_name d k \<and> n \<noteq> []}"
  "distinct acc \<Longrightarrow> distinct (fold (add_entry d) ks acc)"
  by (induction ks arbitrary: acc) (auto simp: add_entry_def Let_def)

text \<open>Opening a RAM file, which exists or is created.\<close>

lemma vfs_open_ram:
  assumes "vfs_wf v" and "next_fd v \<noteq> - 1" and "safe_path p" and "\<not> starts_with p dev_prefix"
    and "starts_with p ext2_prefix \<longrightarrow> ext2_vol v = None" and "wr \<or> ramfs v p \<noteq> None"
  obtains v' f where "vfs_open v sid p wr = (Inr (next_fd v), v')" "vfs_wf v'"
    "fd_table v' sid (next_fd v) = Some \<lparr>fd_no = next_fd v, fd_path = p, fd_writeable = wr, fd_offset = 0\<rparr>"
    "ram_backed v' p" "ramfs v' p = Some f" "\<forall>g. ramfs v p = Some g \<longrightarrow> f = g" "ext2_vol v' = ext2_vol v"
    "next_fd v' = next_fd v + 1"
proof -
  define v' where "v' = snd (vfs_open v sid p wr)"
  have "vfs_open v sid p wr = (Inr (next_fd v), v')" "ramfs v' p \<noteq> None" "ext2_vol v' = ext2_vol v"
    "next_fd v' = next_fd v + 1" "\<forall>g. ramfs v p = Some g \<longrightarrow> ramfs v' p = Some g"
    "fd_table v' sid (next_fd v) = Some \<lparr>fd_no = next_fd v, fd_path = p, fd_writeable = wr, fd_offset = 0\<rparr>"
    using assms(3,4,6) by (auto simp: v'_def vfs_open_def safe_path_def Let_def)
  moreover have "vfs_wf v'" using vfs_open_wf [OF assms(1,2)] by (simp add: v'_def)
  ultimately show thesis using that [of v'] assms(4,5) by (auto simp: ram_backed_def)
qed

lemma next_fd_room:
  assumes "unat (k :: u32) + 2 < 2 ^ 32" shows "k \<noteq> - 1" "k + 1 \<noteq> - 1"
proof -
  have top: "unat (- 1 :: u32) = 2 ^ 32 - 1" by (simp add: unsigned_minus_1_eq_mask mask_eq_exp_minus_1)
  show k: "k \<noteq> - 1" using assms top by auto
  show "k + 1 \<noteq> - 1"
  proof
    assume "k + 1 = - 1"
    then have "unat (k + 1) = 2 ^ 32 - 1" using top by (simp only:)
    with assms unat_succ [OF k] show False by simp
  qed
qed

text \<open>Write through one descriptor, read through a second one.\<close>

lemma vfs_roundtrip:
  assumes "vfs_wf v" and "unat (next_fd v) + 2 < 2 ^ 32" and "safe_path path" and "\<not> starts_with path dev_prefix"
    and "starts_with path ext2_prefix \<longrightarrow> ext2_vol v = None" and "length d < 2 ^ 63"
  shows "\<exists>v1 v2 v3 v4. vfs_open v sid path True = (Inr (next_fd v), v1) \<and>
    (\<forall>dm dk. vfs_write v1 sid (next_fd v) d dm dk = Ret (Inr (len64 d), v2, dm, dk)) \<and>
    vfs_open v2 sid path False = (Inr (next_fd v + 1), v3) \<and>
    (\<forall>dm dk. vfs_read v3 sid (next_fd v + 1) (len64 d) dm dk = Ret (Inr d, v4))"
proof -
  let ?desc = "\<lparr>fd_no = next_fd v, fd_path = path, fd_writeable = True, fd_offset = 0\<rparr> :: file_descriptor"
  note room = next_fd_room [OF assms(2)]
  obtain v1 f where v1: "vfs_open v sid path True = (Inr (next_fd v), v1)" "vfs_wf v1"
      "fd_table v1 sid (next_fd v) = Some ?desc" "ram_backed v1 path" "ramfs v1 path = Some f"
      "ext2_vol v1 = ext2_vol v" "next_fd v1 = next_fd v + 1"
    using vfs_open_ram [OF assms(1) room(1) assms(3-5), of True sid] by blast
  let ?f = "f\<lparr>content := written (content f) 0 d\<rparr>"
  define v2 where "v2 = put_fd (v1\<lparr>ramfs := (ramfs v1)(path \<mapsto> ?f)\<rparr>) sid (next_fd v) (advance ?desc (len64 d))"
  have wr: "vfs_write v1 sid (next_fd v) d dm dk = Ret (Inr (len64 d), v2, dm, dk)" for dm dk
    using vfs_write_ram [OF v1(2,3), of f d dm dk] v1(4,5) assms(6) by (simp add: v2_def)
  have "vfs_wf v2" using vfs_write_wf [OF v1(2) _ wr] assms(6) by simp
  moreover have "next_fd v2 = next_fd v + 1" "ext2_vol v2 = ext2_vol v" "ramfs v2 path = Some ?f"
    using v1(6,7) by (simp_all add: v2_def)
  ultimately obtain v3 where v3: "vfs_open v2 sid path False = (Inr (next_fd v + 1), v3)" "vfs_wf v3"
      "fd_table v3 sid (next_fd v + 1) =
         Some \<lparr>fd_no = next_fd v + 1, fd_path = path, fd_writeable = False, fd_offset = 0\<rparr>"
      "ram_backed v3 path" "ramfs v3 path = Some ?f"
    using vfs_open_ram [of v2 path False sid] room(2) assms(3-5) by auto
  have "take (length d) (written (content f) 0 d) = d" using take_drop_written [of d 0 "content f"] by simp
  then have "\<exists>v4. \<forall>dm dk. vfs_read v3 sid (next_fd v + 1) (len64 d) dm dk = Ret (Inr d, v4)"
    using vfs_read_ram [OF v3(2,3), of ?f "len64 d"] v3(4,5) assms(6) by simp
  with v1(1) wr v3(1) show ?thesis by blast
qed

lemma check_capability_cong:
  assumes "k_sessions w' = k_sessions w" and "tick_count w' = tick_count w" and "tok_store w' = tok_store w"
  shows "rust_check_capability bf w' = rust_check_capability bf w"
  unfolding rust_check_capability_def [abs_def] assms by (rule refl)

lemma raw_slice_user:
  assumes "\<not> user_buffer_bad p n"
  shows "raw_slice w p n = Ret (mem_read (mem (hw w)) p (unat n))"
  using assms user_buffer_len [OF assms] by (auto simp: raw_slice_def user_buffer_bad_def)

text \<open>Session 1 of \<open>run_demo\<close>, with the files of \<open>vfs_demo\<close>, reads the last byte of a file.\<close>

definition file_demo :: world where
  "file_demo = run_demo\<lparr>k_vfs := vfs_demo\<rparr>"

lemma file_demo_read:
  "\<exists>w'. rust_vfs_read bitflags_model file_demo 1 3 0x20000000 16 = Ret (1, w') \<and> mem (hw w') 0x20000000 = 3"
proof -
  let ?desc = "\<lparr>fd_no = 3, fd_path = lit ''/a'', fd_writeable = True, fd_offset = 2\<rparr> :: file_descriptor"
  have "fd_table vfs_demo 1 3 = Some ?desc" by (simp add: fd_table_def vfs_demo_def)
  moreover have "ram_backed vfs_demo (fd_path ?desc)"
    by (simp add: ram_backed_def vfs_demo_def lit_def starts_with_def dev_prefix_def ext2_prefix_def)
  moreover have "ramfs vfs_demo (fd_path ?desc) = Some \<lparr>rf_path = lit ''/a'', content = [1, 2, 3]\<rparr>"
    by (simp add: vfs_demo_def)
  ultimately have "\<exists>v. vfs_read vfs_demo 1 3 16 dm d = Ret (Inr [3], v)" for dm d
    using vfs_read_ram [OF vfs_demo_wf, of 1 3 ?desc "\<lparr>rf_path = lit ''/a'', content = [1, 2, 3]\<rparr>" 16 dm d] by simp
  then obtain v where "vfs_read (k_vfs file_demo) 1 3 16 (k_driver file_demo) (disk (hw file_demo)) = Ret (Inr [3], v)"
    by (auto simp: file_demo_def)
  moreover have "rust_check_capability bitflags_model file_demo 1 FS_READ"
    by (simp add: file_demo_def rust_check_capability_def root_token_def bitflags_model_def declared_flags_val FS_READ_def)
  moreover have "\<not> user_buffer_bad 0x20000000 16" by (simp add: user_buffer_bad_def)
  ultimately show ?thesis by (simp add: rust_vfs_read_def Let_def mem_write_def min_def)
qed

section \<open>Properties\<close>

text \<open>
  C11. A file read touches user memory only: whatever the caller passes as buffer, memory
  outside the buffer and outside the window from 0x20000000 to 0x80000000 is unchanged, without
  the capability the result is -13, with a buffer outside the window -14, and in both cases
  nothing changes at all.
\<close>

theorem vfs_read_confined:
  assumes "rust_vfs_read bf w sid fd p n = Ret (r, w')"
  shows "(\<forall>x. mem (hw w') x \<noteq> mem (hw w) x \<longrightarrow> x \<in> user_window \<and> unat (x - p) < unat n) \<and>
    (\<not> rust_check_capability bf w sid FS_READ \<longrightarrow> r = - 13 \<and> w' = w) \<and>
    (rust_check_capability bf w sid FS_READ \<and> user_buffer_bad p n \<longrightarrow> r = - 14 \<and> w' = w)"
  using assms
proof (cases rule: vfs_read_export_cases)
  case (4 data v)
  have "x \<in> user_window \<and> unat (x - p) < unat n" if "mem (hw w') x \<noteq> mem (hw w) x" for x
  proof -
    have "unat (x - p) < length (take (unat (min (len64 data) n)) data)"
      using that 4(5) mem_write_other [of "take (unat (min (len64 data) n)) data" x p "mem (hw w)"]
      by (auto simp: linorder_not_le [symmetric])
    moreover have "unat (min (len64 data) n) \<le> unat n" by (simp add: word_le_nat_alt [symmetric])
    ultimately have "unat (x - p) < unat n" by simp
    with user_buffer_window [OF 4(2)] show ?thesis by blast
  qed
  with 4 show ?thesis by blast
qed auto

theorem vfs_read_confined_witness:
  "\<exists>w'. rust_vfs_read bitflags_model file_demo 1 3 0x20000000 16 = Ret (1, w') \<and>
     (\<forall>x. mem (hw w') x \<noteq> mem (hw file_demo) x \<longrightarrow> x \<in> user_window)"
  using file_demo_read vfs_read_confined by meson

text \<open>
  C19. Start-up, when it returns, leaves a well-formed kernel: one permanent root token with
  every declared capability, no session, the three files of the built-in archive with their
  contents, and either a mounted Ext2 volume or the reason why there is none.
\<close>

theorem kernel_init_correct:
  assumes "machine_ok m" and "rust_kernel_init bf (kernel_new m) = Ret w"
  shows "world_wf w \<and> k_tokens w = [1 \<mapsto> 0] \<and> k_sessions w = Map.empty \<and>
    privilege (token_at w 0) = Root \<and> is_permanent (token_at w 0) \<and> capabilities (token_at w 0) = bf_all bf \<and>
    map_option content (ramfs (k_vfs w) (lit ''/etc/version'')) = Some (lit ''Lorifa Monolithic Kernel v1.0.0'') \<and>
    map_option content (ramfs (k_vfs w) (lit ''/etc/motd'')) = Some (lit ''Welcome to Lorifa OS!'') \<and>
    map_option content (ramfs (k_vfs w) (lit ''/etc/hosts'')) = Some (lit ''127.0.0.1 localhost'') \<and>
    (ext2_vol (k_vfs w) = None \<longleftrightarrow> ext2_err (k_vfs w) \<noteq> None)"
proof -
  let ?b = "booted bf (kernel_new m)"
  obtain mt where "ext2_mount (lit ''/dev/hda'') (k_driver (kernel_new m)) (disk (hw (kernel_new m))) = Ret mt"
    using assms(2) by (auto simp: kernel_init_result obind_eq_Ret)
  with assms(2) have w: "w = (case mt of Inr fs \<Rightarrow> ?b\<lparr>k_vfs := (k_vfs ?b)\<lparr>ext2_vol := Some fs\<rparr>\<rparr>
      | Inl e \<Rightarrow> ?b\<lparr>k_vfs := (k_vfs ?b)\<lparr>ext2_err := Some e\<rparr>\<rparr>)" by (simp add: kernel_init_result)
  have r: "ramfs (k_vfs w) = foldl (\<lambda>m f. insert_file (fst f) (join_lines (snd f)) m) Map.empty initramfs_files"
    unfolding w using populate_archive [OF initramfs_files_ok(1), of vfs_new]
    by (cases mt) (simp_all add: booted_def kernel_new_def initramfs_text, simp_all add: vfs_new_def)
  have "ext2_vol (k_vfs ?b) = None" "ext2_err (k_vfs ?b) = None"
    by (simp_all add: booted_def kernel_new_def populate_from_initramfs_def vfs_new_def)
  then have "ext2_vol (k_vfs w) = None \<longleftrightarrow> ext2_err (k_vfs w) \<noteq> None" unfolding w by (cases mt) simp_all
  moreover have "k_tokens w = [1 \<mapsto> 0] \<and> k_sessions w = Map.empty \<and> tok_store w = [root_token bf 1]"
    unfolding w by (cases mt) (simp_all add: booted_def kernel_new_def)
  moreover have "world_wf w"
    using kernel_init_wf [OF world_wf_kernel_new [OF assms(1)] _ assms(2)] by (simp add: kernel_new_def)
  ultimately show ?thesis
    by (simp add: root_token_def r initramfs_files_def insert_file_def lit_def)
qed

theorem kernel_init_correct_witness:
  "map_option content (ramfs (k_vfs boot_demo) (lit ''/etc/motd'')) = Some (lit ''Welcome to Lorifa OS!'')"
  using kernel_init_correct [OF machine_demo_ok init_demo] by blast

text \<open>
  The system call \<open>open\<close> never opens a file: it acts for session 0, which never exists, so in
  every reachable state it returns 0 and changes nothing, whatever the caller's rights are.
\<close>

theorem sys_open_refused:
  assumes "bitflags_spec bf" and "reachable bf w" and "raw_slice w a1 a2 = Ret path"
  shows "rust_syscall_dispatch bf w 2 a1 a2 a3 a4 a5 a6 = Ret (0, w)"
  using no_session_zero [OF reachable_wf [OF assms(1,2)]] assms(3)
  by (simp add: rust_syscall_dispatch_def rust_vfs_open_def rust_check_capability_def Let_def)

theorem sys_open_refused_witness:
  "rust_syscall_dispatch bitflags_model run_demo 2 0x20000000 0 0 0 0 0 = Ret (0, run_demo)"
proof -
  have "raw_slice run_demo 0x20000000 0 = Ret []" by (simp add: raw_slice_def mem_read_def)
  from sys_open_refused [OF bitflags_model_spec run_demo_reachable this] show ?thesis .
qed

text \<open>
  The first process cannot be started: while session 1 does not exist, spawning a file that
  can be read panics in every reachable state, because token 0 is never registered; a missing or
  empty file changes nothing.
\<close>

theorem first_spawn_panics:
  assumes "bitflags_spec bf" and "reachable bf w" and "k_sessions w 1 = None"
    and "raw_slice w p n = Ret path" and "read_executable w path = Ret data"
  shows "rust_spawn_process bf w p n = (if data = [] then Ret w else Panic)"
  using first_session_panics [OF reachable_wf [OF assms(1,2)]] assms(3-5)
  by (simp add: rust_spawn_process_def)

theorem first_spawn_panics_witness:
  "rust_spawn_process bitflags_model boot_demo 0x1000 4 = Ret boot_demo"
proof -
  have "raw_slice boot_demo 0x1000 4 = Ret (mem_read (mem machine_demo) 0x1000 4)" by (simp add: raw_slice_def)
  moreover have "ext2_vol (k_vfs boot_demo) = None"
    by (simp add: boot_demo_def booted_def kernel_new_def populate_from_initramfs_def vfs_new_def)
  then have "read_executable boot_demo (mem_read (mem machine_demo) 0x1000 4) = Ret []" by (simp add: read_executable_def)
  ultimately show ?thesis
    using first_spawn_panics [OF bitflags_model_spec boot_demo_reachable] by simp
qed

text \<open>
  Without an Ext2 volume, the directory listing of the shell prints every direct child of
  the directory among the RAM files and devices exactly once, whatever the iteration order of
  the maps, and a directory with none gets a message instead.
\<close>

theorem vfs_list_print_exact:
  assumes "raw_slice w p n = Ret path" and "ext2_vol (k_vfs w) = None"
    and "set ramfs_keys = dom (ramfs (k_vfs w))" and "set driver_keys = dom (drivers (k_driver w))"
  defines "dir \<equiv> (let q = utf8_or path (lit ''/'') in if ends_with q (lit ''/'') then q else q @ lit ''/'')"
  assumes "\<not> starts_with dir ext2_prefix"
  shows "\<exists>names. distinct names \<and>
    set names = {m. \<exists>k\<in>dom (ramfs (k_vfs w)) \<union> dom (drivers (k_driver w)).
      starts_with k dir \<and> m = entry_name dir k \<and> m \<noteq> []} \<and>
    rust_vfs_list_print ramfs_keys driver_keys w p n =
      Ret (if names = [] then [print_line (lit ''(empty or directory not found)'')] else map print_line names)"
proof -
  define names where "names = fold (add_entry dir) (ramfs_keys @ driver_keys) []"
  have "rust_vfs_list_print ramfs_keys driver_keys w p n =
      Ret (if names = [] then [print_line (lit ''(empty or directory not found)'')] else map print_line names)"
    using assms(1,2,6) by (simp add: rust_vfs_list_print_def dir_def names_def Let_def del: fold_append)
  moreover have "distinct names" unfolding names_def by (rule add_entry_fold(2)) simp
  moreover have "set names = {m. \<exists>k\<in>dom (ramfs (k_vfs w)) \<union> dom (drivers (k_driver w)).
      starts_with k dir \<and> m = entry_name dir k \<and> m \<noteq> []}"
    unfolding names_def add_entry_fold(1) using assms(3,4) by simp
  ultimately show ?thesis by blast
qed

lemma boot_demo_ramfs:
  "ramfs (k_vfs boot_demo) = foldl (\<lambda>m f. insert_file (fst f) (join_lines (snd f)) m) Map.empty initramfs_files"
  using populate_archive [OF initramfs_files_ok(1), of vfs_new]
  by (simp add: boot_demo_def booted_def kernel_new_def initramfs_text, simp add: vfs_new_def)

theorem vfs_list_print_exact_witness:
  "\<exists>out. rust_vfs_list_print (map fst initramfs_files) [lit ''/dev/hda'', lit ''/dev/urandom'', lit ''/dev/null'', lit ''/dev/fb0''] boot_demo 0x1000 0 =
     Ret out \<and> print_line (lit ''etc/'') \<in> set out"
proof -
  have rs: "raw_slice boot_demo 0x1000 0 = Ret []" by (simp add: raw_slice_def mem_read_def)
  have vol: "ext2_vol (k_vfs boot_demo) = None"
    by (simp add: boot_demo_def booted_def kernel_new_def populate_from_initramfs_def vfs_new_def)
  have rk: "set (map fst initramfs_files) = dom (ramfs (k_vfs boot_demo))"
    by (auto simp: boot_demo_ramfs initramfs_files_def insert_file_def lit_def)
  have dk: "set [lit ''/dev/hda'', lit ''/dev/urandom'', lit ''/dev/null'', lit ''/dev/fb0''] = dom (drivers (k_driver boot_demo))"
    by (auto simp: driver_manager_new_def)
  have dir: "(let q = utf8_or [] (lit ''/'') in if ends_with q (lit ''/'') then q else q @ lit ''/'') = lit ''/''"
    by (simp add: utf8_or_def from_utf8_ascii ends_with_def lit_def)
  have np: "\<not> starts_with (lit ''/'') ext2_prefix" by (simp add: starts_with_def ext2_prefix_def lit_def)
  obtain names where names: "set names = {m. \<exists>k\<in>dom (ramfs (k_vfs boot_demo)) \<union> dom (drivers (k_driver boot_demo)).
      starts_with k (lit ''/'') \<and> m = entry_name (lit ''/'') k \<and> m \<noteq> []}"
    "rust_vfs_list_print (map fst initramfs_files) [lit ''/dev/hda'', lit ''/dev/urandom'', lit ''/dev/null'', lit ''/dev/fb0''] boot_demo 0x1000 0 =
      Ret (if names = [] then [print_line (lit ''(empty or directory not found)'')] else map print_line names)"
    using vfs_list_print_exact [OF rs vol rk dk, unfolded dir, OF np] by (elim exE conjE)
  have "lit ''/etc/motd'' \<in> dom (ramfs (k_vfs boot_demo))" by (simp add: rk [symmetric] initramfs_files_def)
  moreover have "starts_with (lit ''/etc/motd'') (lit ''/'')" "entry_name (lit ''/'') (lit ''/etc/motd'') = lit ''etc/''"
    by (simp_all add: starts_with_def entry_name_def lit_def)
  ultimately have "lit ''etc/'' \<in> set names" unfolding names(1) by (force simp: lit_def)
  then show ?thesis using names(2) by auto
qed

text \<open>
  C6. A tick dispatches the thread that round robin selects: with no ready thread the interrupted
  frame is resumed; otherwise the frame continues with the instruction pointer, stack, segments
  and flags recorded in that thread, the thread is the active one, and the other registers keep
  the values of the interrupted code. The resulting kernel state does not depend on the
  interrupted frame: what the preempted thread was doing is not saved, so it is later resumed
  from the context it was created with. As for expiry, in a build with the runtime checks of Zig
  this holds of every tick in which no check fails.
\<close>

theorem tick_dispatch:
  assumes "bitflags_spec bf" and "reachable bf w"
    and "rust_kernel_tick key_order None w \<noteq> Panic \<or> \<not> zig_safety (hw w)"
  shows "\<exists>w'. \<forall>frame. \<exists>g. rust_kernel_tick key_order (Some frame) w = Ret (Some g, w') \<and>
    th_store (k_sched w') = th_store (k_sched w) \<and>
    (case rr_next (is_ready (k_sched w)) (threads (k_sched w)) of
       (None, _) \<Rightarrow> g = frame
     | (Some h, q) \<Rightarrow> g = load_frame (th_context (thread_at (k_sched w) h)) frame \<and>
         active_thread (k_sched w') = Some h \<and> threads (k_sched w') = q)"
proof -
  have wf: "world_wf w" using assms(1,2) by (rule reachable_wf)
  have np: "rust_kernel_tick key_order frame w \<noteq> Panic \<or> \<not> zig_safety (hw w)" for frame
    using assms(3) tick_panic_frame [of key_order frame w None] by blast
  obtain th s where sn: "schedule_next (k_sched w) = (th, s)" by fastforce
  define w1 where "w1 = w\<lparr>tick_count := tick_count w + 1\<rparr>"
  from tick_result [OF wf sn assms(3), folded w1_def] obtain w2 where
    w2: "ofold expire_token (expired_ids key_order w1) w1 = Ret w2" by blast
  let ?w' = "case th of None \<Rightarrow> w2\<lparr>k_sched := s\<rparr>
       | Some h \<Rightarrow> activate_session (th_session_id (thread_at s h)) (w2\<lparr>k_sched := s\<rparr>)"
  have tick: "rust_kernel_tick key_order frame w = Ret
      (case th of None \<Rightarrow> frame | Some h \<Rightarrow> map_option (load_frame (th_context (thread_at s h))) frame, ?w')" for frame
  proof -
    from tick_result [OF wf sn np [of frame], folded w1_def] obtain w3 where
      "ofold expire_token (expired_ids key_order w1) w1 = Ret w3"
      "rust_kernel_tick key_order frame w = Ret
        (case th of None \<Rightarrow> frame | Some h \<Rightarrow> map_option (load_frame (th_context (thread_at s h))) frame,
         case th of None \<Rightarrow> w3\<lparr>k_sched := s\<rparr>
         | Some h \<Rightarrow> activate_session (th_session_id (thread_at s h)) (w3\<lparr>k_sched := s\<rparr>))" by blast
    moreover from this(1) w2 have "w3 = w2" by simp
    ultimately show ?thesis by (simp only:)
  qed
  have "k_sched ?w' = s" by (simp split: option.split)
  moreover have st: "th_store s = th_store (k_sched w)" using schedule_next_frame [OF sn] by blast
  moreover have "case rr_next (is_ready (k_sched w)) (threads (k_sched w)) of (None, _) \<Rightarrow> th = None
     | (Some h, q) \<Rightarrow> th = Some h \<and> active_thread s = Some h \<and> threads s = q"
    using sn by (auto simp: schedule_next_rr split: prod.splits option.splits)
  ultimately show ?thesis
    by (intro exI [of _ ?w'] allI) (auto simp: tick split: option.splits)
qed

theorem tick_dispatch_witness:
  "\<exists>w'. \<forall>frame. \<exists>g. rust_kernel_tick [1] (Some frame) boot_demo = Ret (Some g, w') \<and> g = frame"
proof -
  have "rr_next (is_ready (k_sched boot_demo)) (threads (k_sched boot_demo)) = (None, [])"
    by (simp add: scheduler_new_def rr_next_def)
  moreover have "\<not> zig_safety (hw boot_demo)" by (simp add: machine_demo_def)
  ultimately show ?thesis
    using tick_dispatch [OF bitflags_model_spec boot_demo_reachable, of "[1]"] by auto
qed

text \<open>
  C12. The result of a file read is never garbled by its 32-bit type: it is one of the three error
  codes, or a count that is not negative and at most the buffer length, and that many bytes of the
  file are in the buffer.
\<close>

theorem read_result_bounds:
  assumes "rust_vfs_read bf w sid fd p n = Ret (r, w')"
  shows "r \<in> {- 13, - 14, - 1} \<or> 0 \<le> sint r \<and> sint r \<le> uint n \<and>
    (\<exists>data v. vfs_read (k_vfs w) sid fd n (k_driver w) (disk (hw w)) = Ret (Inr data, v) \<and>
       nat (sint r) = unat (min (len64 data) n) \<and>
       mem_read (mem (hw w')) p (nat (sint r)) = take (nat (sint r)) data)"
  using assms
proof (cases rule: vfs_read_export_cases)
  case (4 data v)
  define k where "k = min (len64 data) n"
  have kn: "unat k \<le> unat n" by (simp add: k_def word_le_nat_alt [symmetric])
  have n: "unat n \<le> 0x60000000" by (rule user_buffer_len [OF 4(2)])
  with kn have k: "unat k < 2 ^ 31" by simp
  have "sint r = int (unat k)"
    using k unfolding 4(4) k_def [symmetric] by (rule sint_ucast_small)
  moreover have "int (unat k) \<le> int (unat n)" using kn by (simp only: of_nat_le_iff)
  ultimately have r: "sint r = int (unat k)" "0 \<le> sint r" "sint r \<le> uint n" "nat (sint r) = unat k" by simp_all
  have "unat k \<le> length data"
  proof -
    have "unat k \<le> unat (len64 data)" by (simp add: k_def word_le_nat_alt [symmetric])
    also have "\<dots> \<le> length data" by (simp add: unsigned_of_nat)
    finally show ?thesis .
  qed
  then have "mem_read (mem (hw w')) p (unat k) = take (unat k) data"
    using mem_read_write_same [of "take (unat k) data" "mem (hw w)" p] k 4(5) by (simp add: k_def [symmetric] min_absorb2)
  with r 4(3) show ?thesis unfolding k_def by metis
qed simp_all

theorem read_result_bounds_witness:
  "\<exists>w'. rust_vfs_read bitflags_model file_demo 1 3 0x20000000 16 = Ret (1, w') \<and>
     (\<exists>data v. vfs_read (k_vfs file_demo) 1 3 16 (k_driver file_demo) (disk (hw file_demo)) = Ret (Inr data, v) \<and>
        mem_read (mem (hw w')) 0x20000000 1 = take 1 data)"
proof -
  from file_demo_read obtain w' where w': "rust_vfs_read bitflags_model file_demo 1 3 0x20000000 16 = Ret (1, w')" by blast
  from read_result_bounds [OF w'] w' show ?thesis by auto
qed

text \<open>
  C13. End to end, through the exports: a session with both file capabilities opens a file of the RAM
  file system for writing, creating it if need be, writes a user buffer, opens the file again for
  reading and reads it into a second buffer; every call succeeds with the full count, and the second
  buffer then holds what the first one held.
\<close>

theorem file_roundtrip:
  assumes "world_wf w" and "unat (next_fd (k_vfs w)) + 2 < 2 ^ 32"
    and "rust_check_capability bf w sid FS_READ" and "rust_check_capability bf w sid FS_WRITE"
    and "raw_slice w pp pn = Ret name" and "path = utf8_or name (lit ''unknown'')"
    and "safe_path path" and "\<not> starts_with path dev_prefix"
    and "starts_with path ext2_prefix \<longrightarrow> ext2_vol (k_vfs w) = None"
    and "\<not> user_buffer_bad src n" and "\<not> user_buffer_bad dst n"
  shows "\<exists>fd1 fd2 w1 w2 w3 w4. rust_vfs_open bf w sid pp pn 1 = Ret (fd1, w1) \<and>
    rust_vfs_write bf w1 sid fd1 src n = Ret (ucast n, w2) \<and>
    rust_vfs_open bf w2 sid pp pn 0 = Ret (fd2, w3) \<and> fd2 \<noteq> fd1 \<and>
    rust_vfs_read bf w3 sid fd2 dst n = Ret (ucast n, w4) \<and>
    mem_read (mem (hw w4)) dst (unat n) = mem_read (mem (hw w)) src (unat n)"
proof -
  define d where "d = mem_read (mem (hw w)) src (unat n)"
  have n: "unat n \<le> 0x60000000" by (rule user_buffer_len [OF assms(10)])
  have len: "length d = unat n" "len64 d = n" by (simp_all add: d_def)
  let ?fd = "next_fd (k_vfs w)"
  have "vfs_wf (k_vfs w)" "length d < 2 ^ 63" using assms(1) len n by (simp_all add: world_wf_def)
  from vfs_roundtrip [OF this(1) assms(2,7-9) this(2), of sid, unfolded len(2)] obtain v1 v2 v3 v4 where
    v: "vfs_open (k_vfs w) sid path True = (Inr ?fd, v1)"
      "\<forall>dm dk. vfs_write v1 sid ?fd d dm dk = Ret (Inr n, v2, dm, dk)"
      "vfs_open v2 sid path False = (Inr (?fd + 1), v3)"
      "\<forall>dm dk. vfs_read v3 sid (?fd + 1) n dm dk = Ret (Inr d, v4)" by blast
  have cap: "rust_check_capability bf (w\<lparr>k_vfs := u\<rparr>) = rust_check_capability bf w" for u
    by (rule check_capability_cong) simp_all
  have rs: "raw_slice (w\<lparr>k_vfs := u\<rparr>) a k = raw_slice w a k" for u a k by (simp add: raw_slice_def)
  let ?w4 = "w\<lparr>k_vfs := v4, hw := (hw w)\<lparr>mem := mem_write (mem (hw w)) dst d\<rparr>\<rparr>"
  have "rust_vfs_open bf w sid pp pn 1 = Ret (?fd, w\<lparr>k_vfs := v1\<rparr>)"
    using assms(4-6) v(1) by (simp add: rust_vfs_open_def)
  moreover have "rust_vfs_write bf (w\<lparr>k_vfs := v1\<rparr>) sid ?fd src n = Ret (ucast n, w\<lparr>k_vfs := v2\<rparr>)"
    using assms(4,10) v(2) raw_slice_user [OF assms(10), of w]
    by (simp add: rust_vfs_write_def cap rs d_def [symmetric])
  moreover have "rust_vfs_open bf (w\<lparr>k_vfs := v2\<rparr>) sid pp pn 0 = Ret (?fd + 1, w\<lparr>k_vfs := v3\<rparr>)"
    using assms(3,5,6) v(3) by (simp add: rust_vfs_open_def cap rs)
  moreover have "rust_vfs_read bf (w\<lparr>k_vfs := v3\<rparr>) sid (?fd + 1) dst n = Ret (ucast n, ?w4)"
    using assms(3,11) v(4) len by (simp add: rust_vfs_read_def cap)
  moreover have "mem_read (mem (hw ?w4)) dst (unat n) = d"
    using mem_read_write_same [of d] len n by simp
  moreover have "?fd + 1 \<noteq> ?fd" by simp
  ultimately show ?thesis unfolding d_def [symmetric] by blast
qed

theorem file_roundtrip_witness:
  "\<exists>fd1 fd2 w1 w2 w3 w4. rust_vfs_open bitflags_model file_demo 1 0x1000 0 1 = Ret (fd1, w1) \<and>
    rust_vfs_write bitflags_model w1 1 fd1 0x20000000 100 = Ret (100, w2) \<and>
    rust_vfs_open bitflags_model w2 1 0x1000 0 0 = Ret (fd2, w3) \<and>
    rust_vfs_read bitflags_model w3 1 fd2 0x30000000 100 = Ret (100, w4)"
proof -
  have "world_wf run_demo" by (rule reachable_wf [OF bitflags_model_spec run_demo_reachable])
  then have wf: "world_wf file_demo" using vfs_demo_wf by (simp add: file_demo_def world_wf_vfs)
  have fd: "unat (next_fd (k_vfs file_demo)) + 2 < 2 ^ 32" by (simp add: file_demo_def vfs_demo_def)
  have cap: "rust_check_capability bitflags_model file_demo 1 FS_READ" "rust_check_capability bitflags_model file_demo 1 FS_WRITE"
    by (simp_all add: file_demo_def rust_check_capability_def root_token_def bitflags_model_def declared_flags_val
        FS_READ_def FS_WRITE_def)
  have rs: "raw_slice file_demo 0x1000 0 = Ret []" by (simp add: raw_slice_def mem_read_def)
  have path: "[] = utf8_or [] (lit ''unknown'')" by (simp add: utf8_or_def from_utf8_ascii)
  have sp: "safe_path []" "\<not> starts_with [] dev_prefix" "starts_with [] ext2_prefix \<longrightarrow> ext2_vol (k_vfs file_demo) = None"
    by (simp_all add: safe_path_def starts_with_def dev_prefix_def ext2_prefix_def lit_def)
  have buf: "\<not> user_buffer_bad 0x20000000 100" "\<not> user_buffer_bad 0x30000000 100" by (simp_all add: user_buffer_bad_def)
  from file_roundtrip [OF wf fd cap rs path sp buf] show ?thesis by simp blast
qed

end
