(* ===== verification/Kernel_Mem.thy ===== *)
theory Kernel_Mem
  imports Kernel_Auth
begin

text \<open>
  Properties of the kernel that span its components, part two: the memory of tokens, the page
  permissions behind it, and that the exports that manage it return.
\<close>

section \<open>The areas of a token\<close>

lemma aslr_take_bit: "get_aslr_offset s = take_bit 10 (1103515245 * s + 12345) * 4096"
proof -
  have "(x mod push_bit 31 1) mod 1024 = take_bit 10 x" for x :: u64
  proof -
    have "(x mod push_bit 31 1) mod 1024 = take_bit 10 (take_bit 31 x)"
      by (simp add: take_bit_eq_mod push_bit_eq_mult)
    then show ?thesis by simp
  qed
  then show ?thesis by (simp add: get_aslr_offset_def Let_def)
qed

text \<open>The offset depends on the low ten bits of the seed only, so whole pages do not change it.\<close>

lemma unat_take_bit10: "unat (take_bit 10 x :: u64) = unat x mod 1024"
  by (simp add: take_bit_eq_mod unat_mod)

lemma take_bit10_cong:
  assumes "take_bit 10 x = take_bit 10 y"
  shows "take_bit 10 (c * x + d :: u64) = take_bit 10 (c * y + d)"
proof -
  have lin: "unat (c * z + d) mod 1024 = (unat c * (unat z mod 1024) + unat d) mod 1024" for z
  proof -
    have "unat (c * z + d) mod 1024 = ((unat c * unat z + unat d) mod 2 ^ 64) mod 1024"
      by (simp add: unat_word_ariths mod_simps)
    also have "\<dots> = (unat c * unat z + unat d) mod 1024" by (rule mod_mod_cancel) simp
    also have "\<dots> = (unat c * (unat z mod 1024) + unat d) mod 1024"
      by (metis mod_add_left_eq mod_mult_right_eq)
    finally show ?thesis .
  qed
  from assms have "unat x mod 1024 = unat y mod 1024" by (metis unat_take_bit10)
  then show ?thesis by (simp only: word_unat_eq_iff unat_take_bit10 lin)
qed

lemma aslr_fixed:
  assumes "4096 dvd unat u" shows "get_aslr_offset (i XOR u) = get_aslr_offset i"
proof -
  have "1024 dvd unat u" using assms by (rule dvd_trans [rotated]) simp
  then have "unat (take_bit 10 u) = 0" by (simp add: unat_take_bit10)
  then have "take_bit 10 u = 0" by (simp add: unat_eq_zero)
  then have "take_bit 10 (i XOR u) = take_bit 10 i" by (simp add: take_bit_xor)
  then have "take_bit 10 (c * (i XOR u) + d) = take_bit 10 (c * i + d)" for c d
    by (rule take_bit10_cong)
  then show ?thesis by (simp only: aslr_take_bit)
qed

lemma aslr_bound: "unat (get_aslr_offset s) \<le> 1023 * 4096 \<and> 4096 dvd unat (get_aslr_offset s)"
proof -
  define x where "x = take_bit 10 (1103515245 * s + 12345)"
  have "unat x < 1024" by (simp add: x_def unsigned_take_bit_eq take_bit_nat_def)
  then have "unat (x * 4096) = unat x * 4096" by (subst unat_mult_lem [THEN iffD1]) simp_all
  with \<open>unat x < 1024\<close> show ?thesis by (simp add: aslr_take_bit x_def [symmetric])
qed

text \<open>
  Where the areas of a token lie: one after the other from a base, each starting where the
  accounted memory stood when it was allocated.
\<close>

definition area_base :: "token \<Rightarrow> nat" where
  "area_base t = 0x20000000 + unat (tok_id t) * 0x1000000 + unat (get_aslr_offset (tok_id t))"

definition areas_ok :: "token \<Rightarrow> bool" where
  "areas_ok t \<longleftrightarrow> 4096 dvd unat (memory_used t) \<and>
     (\<forall>(a, v)\<in>set (vmas t). vma_start v = a \<and> area_base t \<le> unat a \<and>
        unat a + unat (vma_size v) \<le> area_base t + unat (memory_used t)) \<and>
     (\<forall>(a, v)\<in>set (vmas t). \<forall>(b, u)\<in>set (vmas t). a = b \<or>
        unat a + unat (vma_size v) \<le> unat b \<or> unat b + unat (vma_size u) \<le> unat a)"

lemma areas_okI:
  assumes "4096 dvd unat (memory_used t)"
    and "\<And>a v. (a, v) \<in> set (vmas t) \<Longrightarrow> vma_start v = a \<and> area_base t \<le> unat a \<and>
        unat a + unat (vma_size v) \<le> area_base t + unat (memory_used t)"
    and "\<And>a v b u. (a, v) \<in> set (vmas t) \<Longrightarrow> (b, u) \<in> set (vmas t) \<Longrightarrow> a \<noteq> b \<Longrightarrow>
        unat a + unat (vma_size v) \<le> unat b \<or> unat b + unat (vma_size u) \<le> unat a"
  shows "areas_ok t"
  using assms unfolding areas_ok_def by blast

lemma pages_size:
  assumes "unat sz + 4095 < 2 ^ 64"
  shows "unat (pages_of sz * 4096) = (unat sz + 4095) div 4096 * 4096"
    and "unat sz \<le> unat (pages_of sz * 4096)" and "unat (pages_of sz * 4096) \<le> unat sz + 4095"
proof -
  define n where "n = (unat sz + 4095) div 4096"
  have "unat (sz + 4095) = unat sz + 4095" using assms by (subst unat_add_lem [THEN iffD1]) simp_all
  then have p: "unat (pages_of sz) = n" by (simp add: pages_of_def n_def unat_div)
  have n: "n * 4096 \<le> unat sz + 4095" "unat sz \<le> n * 4096" unfolding n_def by linarith+
  have "unat (pages_of sz * 4096) = n * 4096"
    using n(1) assms p by (subst unat_mult_lem [THEN iffD1]) simp_all
  with n show "unat (pages_of sz * 4096) = (unat sz + 4095) div 4096 * 4096"
    "unat sz \<le> unat (pages_of sz * 4096)" "unat (pages_of sz * 4096) \<le> unat sz + 4095"
    by (simp_all add: n_def)
qed

lemma alloc_addr_base:
  assumes "4096 dvd unat (memory_used t)" and "area_base t + unat (memory_used t) < 2 ^ 64"
  shows "unat (alloc_addr t) = area_base t + unat (memory_used t)"
proof -
  have "alloc_addr t = of_nat (area_base t + unat (memory_used t))"
    by (simp add: alloc_addr_def aslr_fixed [OF assms(1)] area_base_def)
  then show ?thesis using assms(2) by (simp only: unat_of_nat64)
qed

lemma areas_ok_add:
  assumes "areas_ok t" and "area_base t + unat (memory_used t) + unat n < 2 ^ 64" and "4096 dvd unat n"
    and "bt_wf (vmas t)" and "vma_start v = alloc_addr t" and "vma_size v = n"
  shows "areas_ok (t\<lparr>vmas := bt_insert (alloc_addr t) v (vmas t), memory_used := memory_used t + n\<rparr>)"
proof -
  have tb: "4096 dvd unat (memory_used t)" using assms(1) by (simp add: areas_ok_def)
  note a = alloc_addr_base [OF tb]
  have used: "unat (memory_used t + n) = unat (memory_used t) + unat n" using assms(2) by (intro unat_add64) simp
  have at: "unat (alloc_addr t) = area_base t + unat (memory_used t)" using a assms(2) by simp
  let ?t = "t\<lparr>vmas := bt_insert (alloc_addr t) v (vmas t), memory_used := memory_used t + n\<rparr>"
  have base: "area_base ?t = area_base t" by (simp add: area_base_def)
  have old: "vma_start u = b \<and> area_base t \<le> unat b \<and> unat b + unat (vma_size u) \<le> area_base t + unat (memory_used t)"
    if "(b, u) \<in> set (vmas t)" for b u using assms(1) that unfolding areas_ok_def by blast
  have disj: "b = c \<or> unat b + unat (vma_size u) \<le> unat c \<or> unat c + unat (vma_size y) \<le> unat b"
    if "(b, u) \<in> set (vmas t)" "(c, y) \<in> set (vmas t)" for b u c y
    using assms(1) that unfolding areas_ok_def by blast
  have mem: "(b, u) = (alloc_addr t, v) \<or> (b, u) \<in> set (vmas t)" if "(b, u) \<in> set (vmas ?t)" for b u
    using that set_bt_insert [OF assms(4)] by auto
  show ?thesis
  proof (rule areas_okI, unfold base)
    show "4096 dvd unat (memory_used ?t)" using tb assms(3) used by simp
    fix b u assume b: "(b, u) \<in> set (vmas ?t)"
    show "vma_start u = b \<and> area_base t \<le> unat b \<and>
        unat b + unat (vma_size u) \<le> area_base t + unat (memory_used ?t)"
      using mem [OF b]
    proof
      assume "(b, u) \<in> set (vmas t)"
      from old [OF this] show ?thesis using used by simp
    qed (use at used assms(5,6) in simp)
    fix c y assume c: "(c, y) \<in> set (vmas ?t)" "b \<noteq> c"
    show "unat b + unat (vma_size u) \<le> unat c \<or> unat c + unat (vma_size y) \<le> unat b"
      using mem [OF b] mem [OF c(1)]
    proof (elim disjE)
      assume "(b, u) \<in> set (vmas t)" "(c, y) \<in> set (vmas t)"
      from disj [OF this] c(2) show ?thesis by simp
    next
      assume "(b, u) = (alloc_addr t, v)" "(c, y) \<in> set (vmas t)"
      with old [OF this(2)] at show ?thesis by simp
    next
      assume "(b, u) \<in> set (vmas t)" "(c, y) = (alloc_addr t, v)"
      with old [OF this(1)] at show ?thesis by simp
    qed (use c(2) in simp)
  qed
qed

section \<open>Lemmas for the exports\<close>

text \<open>Mapping fresh pages returns, or panics in a build with the runtime checks of Zig.\<close>

lemma map_pages_total:
  assumes "machine_ok m" and "palloc m k = (p, m1)"
  shows "map_pages a q f n m1 = Panic \<and> zig_safety m \<or> (\<exists>m2. map_pages a q f n m1 = Ret m2)"
proof -
  have "paging_initialized m1" "zig_safety m1 = zig_safety m"
    using palloc_frame [OF assms(2)] assms(1) by (simp_all add: machine_ok_def)
  then show ?thesis
    using map_pages_sound [of m1 a q f n] by (cases "map_pages a q f n m1") (simp_all add: sound_def)
qed

lemma allocate_memory_returns:
  assumes "world_wf w"
  shows "(\<exists>a w'. rust_allocate_memory w tid sz wr ex = Ret (a, w')) \<or>
    zig_safety (hw w) \<and> rust_allocate_memory w tid sz wr ex = Panic"
proof (cases "k_tokens w tid")
  case (Some r)
  obtain p m1 where pa: "palloc (hw w) (pages_of sz) = (p, m1)" by fastforce
  have "map_pages (alloc_addr (token_at w r)) p (alloc_flags wr ex) (unat (pages_of sz)) m1 = Panic \<and>
      zig_safety (hw w) \<or>
      (\<exists>m2. map_pages (alloc_addr (token_at w r)) p (alloc_flags wr ex) (unat (pages_of sz)) m1 = Ret m2)"
    using map_pages_total [OF _ pa] assms by (simp add: world_wf_def)
  with Some pa show ?thesis by (auto simp: rust_allocate_memory_def Let_def alloc_addr_def)
qed (simp add: rust_allocate_memory_def)

text \<open>The search of the page-fault handler returns a key of the map.\<close>

lemma find_vma_lookup:
  assumes "find_vma a m = Some s" shows "\<exists>v. map_of m s = Some v"
proof -
  from assms obtain x where x: "find (\<lambda>(b, v). a < b + vma_size v) (bt_range_rev a m) = Some x" "fst x = s"
    by (auto simp: find_vma_def)
  then have "x \<in> set (bt_range_rev a m)" by (metis find_Some_iff nth_mem)
  then have "(s, snd x) \<in> set m" using x(2) by (auto simp: bt_range_rev_def)
  then show ?thesis by (meson weak_map_of_SomeI)
qed

lemma page_fault_returns:
  assumes "world_wf w"
  shows "(\<exists>b w'. vasm_handle_page_fault w a = Ret (b, w')) \<or>
    zig_safety (hw w) \<and> vasm_handle_page_fault w a = Panic"
proof (cases "\<exists>th ses. active_thread (k_sched w) = Some th \<and>
    k_sessions w (th_session_id (thread_at (k_sched w) th)) = Some ses")
  case True
  then obtain th ses where ts: "active_thread (k_sched w) = Some th"
      "k_sessions w (th_session_id (thread_at (k_sched w) th)) = Some ses" by blast
  show ?thesis
  proof (cases "find_vma a (vmas (token_at w (ses_token ses)))")
    case None
    with ts show ?thesis by (auto simp: vasm_handle_page_fault_def Let_def)
  next
    case (Some sa)
    then obtain v where v: "map_of (vmas (token_at w (ses_token ses))) sa = Some v" using find_vma_lookup by blast
    show ?thesis
    proof (cases "vma_phys v = 0")
      case True
      obtain p m1 where pa: "palloc (hw w) (pages_of (vma_size v)) = (p, m1)" by fastforce
      with assms have "map_pages (vma_start v) p (fault_flags (vma_writeable v))
          (unat (pages_of (vma_size v))) m1 = Panic \<and> zig_safety (hw w) \<or>
          (\<exists>m2. map_pages (vma_start v) p (fault_flags (vma_writeable v))
          (unat (pages_of (vma_size v))) m1 = Ret m2)"
        using map_pages_total by (simp add: world_wf_def)
      with page_fault_lazy [OF ts Some v True pa] show ?thesis by auto
    qed (use ts Some v in \<open>auto simp: vasm_handle_page_fault_def Let_def\<close>)
  qed
qed (auto simp: vasm_handle_page_fault_def split: option.splits)

text \<open>The child token of \<open>heir_demo\<close>, with quota 0 and without \<open>MEM_ALLOC\<close>, asks for a page.\<close>

lemma heir_allocation:
  "\<exists>w'. rust_allocate_memory heir_demo 2 1 True False = Ret (alloc_addr (token_at heir_demo 1), w') \<and>
     memory_limit (token_at w' 1) = 0 \<and> memory_used (token_at w' 1) = 4096 \<and>
     capabilities (token_at w' 1) AND MEM_ALLOC = 0"
proof -
  have pg: "pages_of 1 = 1" by (simp add: pages_of_def)
  have "fst (palloc machine_demo 1) = 0x201000"
    using alloc_first_page [of ppa_boot] by (simp add: palloc_def machine_demo_def ppa_boot_def split: prod.splits)
  then obtain m1 where pa: "palloc machine_demo 1 = (0x201000, m1)" by (metis prod.collapse)
  then have "machine_fast m1" using machine_demo_fast by (rule palloc_fast [rotated])
  then obtain m2 where "map_pages (alloc_addr (token_at heir_demo (Suc 0))) 0x201000 (alloc_flags True False) 1 m1 = Ret m2"
    using map_pages_returns by blast
  then have "rust_allocate_memory heir_demo 2 1 True False = Ret (alloc_addr (token_at heir_demo 1),
      modify_token 1 (add_area (alloc_addr (token_at heir_demo 1)) 1 True False 0x201000) (heir_demo\<lparr>hw := m2\<rparr>))"
    using pa pg by (simp add: rust_allocate_memory_def heir_demo_simps(1) Let_def alloc_addr_def add_area_def [abs_def])
  moreover have "length (tok_store heir_demo) = 2" by (rule heir_demo_simps)
  ultimately show ?thesis
    by (simp add: modify_token_def add_area_def heir_demo_simps child_token_def bitflags_model_def
        declared_flags_val FS_READ_def MEM_ALLOC_def)
qed

section \<open>Properties\<close>





text \<open>
  The flags the kernel passes do not mean what \<open>page_table_map\<close> takes them for: every page
  of an allocation becomes writable, it is user accessible only when it was requested writable,
  and an executable (so not writable) area gets writable, executable pages; every page mapped on
  a fault is writable and executable.
\<close>

theorem alloc_page_permissions:
  "(pte_flags_of (alloc_flags wr ex) AND PF_WRITABLE \<noteq> 0) \<and>
   (pte_flags_of (alloc_flags wr ex) AND PF_USER \<noteq> 0 \<longleftrightarrow> wr) \<and>
   (pte_flags_of (alloc_flags wr ex) AND PF_NO_EXECUTE = 0 \<longleftrightarrow> ex) \<and>
   pte_flags_of (fault_flags wr) AND (PF_WRITABLE OR PF_NO_EXECUTE) = PF_WRITABLE"
  by (cases wr; cases ex) (simp_all add: alloc_flags_def fault_flags_def pte_flags_of_def pf_defs)

text \<open>
  \<open>rust_allocate_memory\<close> enforces neither the quota nor the capability: there is a reachable
  state in which a token with quota 0 and without \<open>MEM_ALLOC\<close> is granted a page.
\<close>

theorem quota_not_enforced:
  "\<exists>w tid r a w'. reachable bitflags_model w \<and> k_tokens w tid = Some r \<and>
     rust_allocate_memory w tid 1 True False = Ret (a, w') \<and>
     memory_limit (token_at w' r) < memory_used (token_at w' r) \<and> capabilities (token_at w' r) AND MEM_ALLOC = 0"
proof -
  have "k_tokens heir_demo 2 = Some 1" by (simp add: heir_demo_simps)
  with heir_allocation heir_demo_reachable show ?thesis by fastforce
qed

end
