(* ===== verification/Compat.thy ===== *)
theory Compat
  imports Kernel_Mem
begin

text \<open>
  The Linux compatibility layer: \<open>compat/linux/src/syscall/*.rs\<close> and \<open>main.rs\<close> (its ELF loader is the
  instance \<open>compat_loader\<close> of theory Elf). The layer calls the kernel through the exports of
  theory Kernel, so its functions pass the kernel state on. A \<open>&str\<close> or byte string that is
  handed to the kernel is the address and length of its bytes.
\<close>

section \<open>Memory\<close>

record memory_syscalls =
  heap_brk :: u64
  heap_limit :: u64

definition memory_syscalls_new :: memory_syscalls where
  "memory_syscalls_new = \<lparr>heap_brk = 0x40000000, heap_limit = 0x40000000\<rparr>"

definition sys_brk ::
    "memory_syscalls \<Rightarrow> world \<Rightarrow> u64 \<Rightarrow> u64 \<Rightarrow> (i64 \<times> memory_syscalls \<times> world) outcome" where
  "sys_brk s w token_id new_brk =
     (if new_brk = 0 then Ret (heap_brk s, s, w)
      else if new_brk < heap_brk s then Ret (-22, s, w)
      else if new_brk > heap_limit s
      then let needed = new_brk - heap_limit s
           in obind (rust_allocate_memory w token_id needed True False) (\<lambda>(allocated, w').
              if allocated = 0 then Ret (-12, s, w')
              else Ret (new_brk, s\<lparr>heap_limit := allocated + needed, heap_brk := new_brk\<rparr>, w'))
      else Ret (new_brk, s\<lparr>heap_brk := new_brk\<rparr>, w))"

definition sys_mmap ::
    "memory_syscalls \<Rightarrow> world \<Rightarrow> u64 \<Rightarrow> u64 \<Rightarrow> (i64 \<times> memory_syscalls \<times> world) outcome" where
  "sys_mmap s w token_id len =
     obind (rust_allocate_memory w token_id len True False) (\<lambda>(allocated, w').
       Ret (if allocated = 0 then -12 else allocated, s, w'))"

section \<open>Files, sockets and processes\<close>

definition sys_open ::
    "bitflags \<Rightarrow> world \<Rightarrow> u64 \<Rightarrow> u64 \<Rightarrow> usize \<Rightarrow> bool \<Rightarrow> (i64 \<times> world) outcome" where
  "sys_open bf w session_id path_ptr path_len is_write =
     (let write_val = (if is_write then 1 else 0)
      in obind (rust_vfs_open bf w session_id path_ptr path_len write_val) (\<lambda>(fd, w').
         Ret (if fd = 0 then -2 else ucast fd, w')))"

definition sys_write :: "bitflags \<Rightarrow> world \<Rightarrow> u64 \<Rightarrow> u64 \<Rightarrow> u64 \<Rightarrow> u64 \<Rightarrow> (i64 \<times> world) outcome" where
  "sys_write bf w session_id fd buf_ptr cnt =
     obind (rust_vfs_write bf w session_id (ucast fd) buf_ptr cnt) (\<lambda>(res, w').
       Ret (if sint res < 0 then -9 else scast res, w'))"

definition sys_read :: "bitflags \<Rightarrow> world \<Rightarrow> u64 \<Rightarrow> u64 \<Rightarrow> u64 \<Rightarrow> u64 \<Rightarrow> (i64 \<times> world) outcome" where
  "sys_read bf w session_id fd buf_ptr cnt =
     obind (rust_vfs_read bf w session_id (ucast fd) buf_ptr cnt) (\<lambda>(res, w').
       Ret (if sint res < 0 then -9 else scast res, w'))"

definition sys_close :: "world \<Rightarrow> u64 \<Rightarrow> u64 \<Rightarrow> i64 \<times> world" where
  "sys_close w session_id fd =
     (let (res, w') = rust_vfs_close w session_id (ucast fd) in (scast res, w'))"

definition sys_socket :: "u32 \<Rightarrow> bool \<Rightarrow> i64" where
  "sys_socket process_id has_net_connect =
     (if \<not> has_net_connect then -13 else ucast (200 + process_id))"

definition sys_exit :: "u32 \<Rightarrow> i64 \<Rightarrow> i64" where
  "sys_exit process_id code = 0"

section \<open>The router\<close>

record syscall_router =
  router_memory :: memory_syscalls

definition syscall_router_new :: syscall_router where
  "syscall_router_new = \<lparr>router_memory = memory_syscalls_new\<rparr>"

text \<open>\<open>sys_fork\<close>: \<open>name_ptr\<close> is the address of the byte string \<open>fork-child\<close>.\<close>

definition route_fork :: "bitflags \<Rightarrow> u64 \<Rightarrow> world \<Rightarrow> u64 \<Rightarrow> u64 \<Rightarrow> (i64 \<times> world) outcome" where
  "route_fork bf name_ptr w session_id token_id =
     rust_create_child_token bf w session_id name_ptr 10 3 token_id (64 * 1024 * 1024) 0x1F 100000"

definition route_open :: "bitflags \<Rightarrow> world \<Rightarrow> u64 \<Rightarrow> u64 \<Rightarrow> u64 \<Rightarrow> u64 \<Rightarrow> (i64 \<times> world) outcome" where
  "route_open bf w session_id path_ptr path_len flags =
     (if path_ptr = 0 \<or> path_ptr < 0x1000 then Ret (-14, w)
      else let o_wronly = 1; o_rdwr = 2;
               is_write = (flags AND (o_wronly OR o_rdwr)) \<noteq> 0
           in obind (rust_vfs_open bf w session_id path_ptr path_len (if is_write then 1 else 0)) (\<lambda>(fd, w').
              Ret (ucast fd, w')))"

text \<open>The calls that change nothing but the kernel state, and those that only return a value.\<close>

definition route_kernel ::
    "bitflags \<Rightarrow> u64 \<Rightarrow> world \<Rightarrow> u64 \<Rightarrow> u64 list \<Rightarrow> u64 \<Rightarrow> u64 \<Rightarrow> (i64 \<times> world) outcome" where
  "route_kernel bf name_ptr w nr args session_id token_id =
     (if nr = 0 then obind (rust_vfs_read bf w session_id (ucast (args ! 0)) (args ! 1) (args ! 2))
        (\<lambda>(r, w'). Ret (scast r, w'))
      else if nr = 1 then obind (rust_vfs_write bf w session_id (ucast (args ! 0)) (args ! 1) (args ! 2))
        (\<lambda>(r, w'). Ret (scast r, w'))
      else if nr = 2 then route_open bf w session_id (args ! 0) (args ! 1) (args ! 2)
      else if nr = 3 then (let (r, w') = rust_vfs_close w session_id (ucast (args ! 0)) in Ret (scast r, w'))
      else if nr = 9 then rust_allocate_memory w token_id (args ! 1) ((args ! 2) AND 2 \<noteq> 0) ((args ! 2) AND 4 \<noteq> 0)
      else if nr = 57 then route_fork bf name_ptr w session_id token_id
      else Ret (
        if nr = 11 then 0
        else if nr = 59 then -38
        else if nr = 60 \<or> nr = 231 then sys_exit 0 (args ! 0)
        else if nr = 41 then sys_socket 0 (rust_check_capability bf w session_id (push_bit 4 1))
        else if nr = 42 then (if \<not> rust_check_capability bf w session_id (push_bit 4 1) then -1 else -38)
        else if nr = 228 then 0
        else if nr = 39 then 1
        else if nr = 102 \<or> nr = 104 \<or> nr = 107 \<or> nr = 108 then 0
        else if nr = 16 then -25
        else -38, w))"

definition route ::
    "bitflags \<Rightarrow> u64 \<Rightarrow> syscall_router \<Rightarrow> world \<Rightarrow> u64 \<Rightarrow> u64 list \<Rightarrow> u64 \<Rightarrow> u64
       \<Rightarrow> (i64 \<times> syscall_router \<times> world) outcome" where
  "route bf name_ptr s w nr args session_id token_id =
     (if nr = 12
      then obind (sys_brk (router_memory s) w token_id (args ! 0)) (\<lambda>(r, ms, w').
             Ret (r, s\<lparr>router_memory := ms\<rparr>, w'))
      else obind (route_kernel bf name_ptr w nr args session_id token_id) (\<lambda>(r, w'). Ret (r, s, w')))"

section \<open>Loading an executable\<close>

text \<open>\<open>load_elf\<close> of this layer: mapping failures end the load, and the stack is not executable.\<close>

definition compat_load_elf :: "bytes \<Rightarrow> machine \<Rightarrow> ((elf_error + loaded_process) \<times> machine) outcome" where
  "compat_load_elf = load_elf compat_loader"

definition compat_linux_execve :: "world \<Rightarrow> u64 \<Rightarrow> usize \<Rightarrow> (i64 \<times> world) outcome" where
  "compat_linux_execve w elf_data_ptr elf_data_len =
     obind (raw_slice w elf_data_ptr elf_data_len) (\<lambda>elf_data.
     obind (compat_load_elf elf_data (hw w)) (\<lambda>(res, m).
       Ret (case res of Inr proc \<Rightarrow> entry_point proc | Inl e \<Rightarrow> -1, w\<lparr>hw := m\<rparr>)))"

section \<open>Lemmas\<close>

text \<open>A routed call is at most one step of the kernel.\<close>

lemma brk_step:
  assumes "sys_brk s w tid b = Ret (r, s', w')" shows "w' = w \<or> kstep bf w w'"
  using assms
  by (auto simp: sys_brk_def Let_def obind_eq_Ret split: if_splits prod.splits intro: kstep.allocate)

lemma route_open_step:
  assumes "counters_ok w" and "route_open bf w sid p n f = Ret (r, w')"
  shows "w' = w \<or> kstep bf w w'"
  using assms by (auto simp: route_open_def Let_def obind_eq_Ret split: if_splits intro: kstep.open_file)

lemma route_kernel_step:
  assumes "counters_ok w" and "route_kernel bf np w nr args sid tid = Ret (r, w')"
  shows "w' = w \<or> kstep bf w w'"
proof -
  consider "nr = 0" | "nr = 1" | "nr = 2" | "nr = 3" | "nr = 9" | "nr = 57" | "nr \<notin> {0, 1, 2, 3, 9, 57}" by blast
  then show ?thesis
  proof cases
    case 1
    with assms show ?thesis by (auto simp: route_kernel_def obind_eq_Ret intro: kstep.read_file)
  next
    case 2
    with assms show ?thesis by (auto simp: route_kernel_def obind_eq_Ret intro: kstep.write_file)
  next
    case 3
    with assms route_open_step [OF assms(1)] show ?thesis by (simp add: route_kernel_def)
  next
    case 4
    with assms show ?thesis by (auto simp: route_kernel_def split: prod.splits intro: kstep.close_file)
  next
    case 5
    with assms show ?thesis by (auto simp: route_kernel_def intro: kstep.allocate)
  next
    case 6
    with assms show ?thesis by (auto simp: route_kernel_def route_fork_def intro: kstep.create_child)
  next
    case 7
    with assms show ?thesis by (simp add: route_kernel_def)
  qed
qed

lemma route_step:
  assumes "counters_ok w" and "route bf np s w nr args sid tid = Ret (r, s', w')"
  shows "w' = w \<or> kstep bf w w'"
proof (cases "nr = 12")
  case True
  with assms(2) obtain q ms where "sys_brk (router_memory s) w tid (args ! 0) = Ret (q, ms, w')"
    by (auto simp: route_def obind_eq_Ret)
  then show ?thesis by (rule brk_step)
next
  case False
  with assms(2) obtain q where "route_kernel bf np w nr args sid tid = Ret (q, w')"
    by (auto simp: route_def obind_eq_Ret)
  then show ?thesis by (rule route_kernel_step [OF assms(1)])
qed

section \<open>Properties\<close>





text \<open>
  \<open>brk\<close>, on every branch: 0 asks for the break, a smaller value is refused with -22, a failed
  allocation gives -12, and none of these moves the break; otherwise the break is exactly the
  requested one. The break never shrinks.
\<close>

theorem sys_brk_correct:
  assumes "sys_brk s w tid b = Ret (r, s', w')"
  shows "heap_brk s \<le> heap_brk s' \<and>
    (b = 0 \<longrightarrow> r = heap_brk s \<and> s' = s \<and> w' = w) \<and>
    (b \<noteq> 0 \<and> b < heap_brk s \<longrightarrow> r = - 22 \<and> s' = s \<and> w' = w) \<and>
    (heap_brk s \<le> b \<and> b \<noteq> 0 \<longrightarrow> r = b \<and> heap_brk s' = b \<or> r = - 12 \<and> s' = s) \<and>
    (heap_brk s \<le> b \<and> b \<noteq> 0 \<and> b \<le> heap_limit s \<longrightarrow> r = b \<and> heap_limit s' = heap_limit s \<and> w' = w)"
  using assms by (auto simp: sys_brk_def Let_def obind_eq_Ret split: if_splits prod.splits)

theorem sys_brk_correct_witness:
  "\<exists>s' w'. sys_brk memory_syscalls_new run_demo 1 0x3FFFFFFF = Ret (- 22, s', w') \<and> s' = memory_syscalls_new"
proof -
  have "sys_brk memory_syscalls_new run_demo 1 0x3FFFFFFF = Ret (- 22, memory_syscalls_new, run_demo)"
    by (simp add: sys_brk_def memory_syscalls_new_def)
  with sys_brk_correct [OF this] show ?thesis by blast
qed

text \<open>
  Growing the heap detaches its limit from the break: when the token's areas end below the
  requested break, which holds for every token whose window lies below the heap, the new limit
  is the end of an unrelated area below the new break, so the memory between the old and the new
  break is not what was allocated and the next \<open>brk\<close> asks for far more than it needs.
\<close>

theorem brk_limit_detached:
  assumes "world_wf w" and "k_tokens w tid = Some q" and "areas_ok (token_at w q)"
    and "heap_brk s \<le> b" and "heap_limit s < b"
    and "area_base (token_at w q) + unat (memory_used (token_at w q)) + unat (b - heap_limit s) < unat b"
    and "unat b < 2 ^ 63" and "sys_brk s w tid b = Ret (b, s', w')"
  shows "unat (heap_limit s') = area_base (token_at w q) + unat (memory_used (token_at w q)) + unat (b - heap_limit s) \<and>
    heap_limit s' < heap_brk s'"
proof -
  let ?n = "b - heap_limit s"
  have nz: "b \<noteq> 0" using assms(5) by (metis word_not_simps(1))
  have "b \<noteq> - 12" using assms(7) by auto
  with nz assms(4,5,8) obtain a where a: "rust_allocate_memory w tid ?n True False = Ret (a, w')" "a \<noteq> 0"
      "s' = s\<lparr>heap_limit := a + ?n, heap_brk := b\<rparr>"
    by (auto simp: sys_brk_def Let_def obind_eq_Ret split: if_splits)
  from a(1) have addr: "unat a = area_base (token_at w q) + unat (memory_used (token_at w q))"
  proof (cases rule: allocate_memory_cases)
    case (3 r p m1 m2)
    then show ?thesis
      using alloc_addr_base [of "token_at w q"] assms(2,3,6,7) by (simp add: areas_ok_def)
  qed (use a(2) in simp_all)
  then have "unat (a + ?n) = unat a + unat ?n" using assms(6,7) by (intro unat_add64) simp
  with addr assms(6) a(3) show ?thesis by (simp add: word_less_nat_alt)
qed

text \<open>Token 2 of \<open>heir_demo\<close> grows the heap by one byte.\<close>

theorem brk_limit_detached_witness:
  "\<exists>s' w'. sys_brk memory_syscalls_new heir_demo 2 0x40000001 = Ret (0x40000001, s', w') \<and>
     heap_limit s' < heap_brk s'"
proof -
  note t = heir_demo_simps(5)
  have wf: "world_wf heir_demo" by (rule reachable_wf [OF bitflags_model_spec heir_demo_reachable])
  have tk: "k_tokens heir_demo 2 = Some (Suc 0)" by (simp add: heir_demo_simps)
  have ok: "areas_ok (token_at heir_demo (Suc 0))" by (simp add: t areas_ok_def child_token_def)
  have u: "memory_used (token_at heir_demo (Suc 0)) = 0" by (simp add: t child_token_def)
  have base: "area_base (token_at heir_demo (Suc 0)) = 0x22000000 + unat (get_aslr_offset 2)"
    by (simp add: area_base_def t child_token_def)
  then have b: "area_base (token_at heir_demo (Suc 0)) \<le> 0x22000000 + 1023 * 4096" using aslr_bound [of 2] by simp
  have nz: "alloc_addr (token_at heir_demo (Suc 0)) \<noteq> 0"
    using alloc_addr_base [of "token_at heir_demo (Suc 0)"] b base u by auto
  from heir_allocation obtain w' where
    "rust_allocate_memory heir_demo 2 1 True False = Ret (alloc_addr (token_at heir_demo (Suc 0)), w')" by auto
  with nz have brk: "sys_brk memory_syscalls_new heir_demo 2 0x40000001 = Ret (0x40000001,
      \<lparr>heap_brk = 0x40000001, heap_limit = alloc_addr (token_at heir_demo (Suc 0)) + 1\<rparr>, w')"
    by (simp add: sys_brk_def memory_syscalls_new_def)
  from brk_limit_detached [OF wf tk ok _ _ _ _ this] b u brk show ?thesis
    by (simp add: memory_syscalls_new_def)
qed

text \<open>
  \<open>fork\<close> creates a child of the caller's token with process privilege and exactly the
  capabilities 0x1F, which include \<open>NET_CONNECT\<close>, when the token holds all of them; a caller
  that lacks one of them, or does not hold the token, gets 0 and no child.
\<close>

theorem fork_capabilities:
  assumes "bitflags_spec bf" and "reachable bf w" and "raw_slice w name_ptr 10 = Ret ns" and "k_tokens w tid = Some p"
  shows "if caller_valid w sid tid \<and> capabilities (token_at w p) AND 0x1F = 0x1F
    then \<exists>w'. route_fork bf name_ptr w sid tid = Ret (next_token_id w, w') \<and>
      (\<exists>r. k_tokens w' (next_token_id w) = Some r \<and> privilege (token_at w' r) = Process \<and>
         capabilities (token_at w' r) = MEM_ALLOC OR MEM_FREE OR FS_READ OR FS_WRITE OR NET_CONNECT)
    else route_fork bf name_ptr w sid tid = Ret (0, w)"
proof -
  note tok = world_wf_token(1) [OF reachable_wf [OF assms(1,2)]]
  have pv: "\<not> priv_val x > 3" for x by (cases x) simp_all
  have io: "inherit_ok w tid 3 0x1F \<longleftrightarrow> capabilities (token_at w p) AND 0x1F = 0x1F"
    using assms(4) pv by (simp add: inherit_ok_def)
  show ?thesis
  proof (cases "caller_valid w sid tid \<and> capabilities (token_at w p) AND 0x1F = 0x1F")
    case True
    with io create_child_new [OF assms(3), of sid tid 3 "0x1F" bf "64 * 1024 * 1024" 100000] tok
    obtain w' where w': "route_fork bf name_ptr w sid tid = Ret (next_token_id w, w')"
      "k_tokens w' (next_token_id w) = Some (length (tok_store w))"
      "token_at w' (length (tok_store w)) = child_token bf w (utf8_or ns (lit ''unknown'')) 3 tid (64 * 1024 * 1024) 0x1F 100000"
      unfolding route_fork_def by blast
    have "bf_truncate bf 0x1F = MEM_ALLOC OR MEM_FREE OR FS_READ OR FS_WRITE OR NET_CONNECT"
      using assms(1) by (simp add: bitflags_spec_def declared_flags_val cap_defs)
    with w' True show ?thesis by (simp add: child_token_def privilege_of_def)
  next
    case False
    with io assms(3) show ?thesis by (auto simp: route_fork_def rust_create_child_token_def)
  qed
qed

theorem fork_capabilities_witness:
  "\<exists>w'. route_fork bitflags_model 0x1000 run_demo 1 1 = Ret (2, w') \<and>
     (\<exists>r. k_tokens w' 2 = Some r \<and> privilege (token_at w' r) = Process)"
proof -
  have "raw_slice run_demo 0x1000 10 = Ret (mem_read (mem machine_demo) 0x1000 10)" by (simp add: raw_slice_def)
  from fork_capabilities [OF bitflags_model_spec run_demo_reachable this, of 1 0 1] show ?thesis
    by (auto simp: caller_valid_def root_token_def bitflags_model_def declared_flags_val)
qed

text \<open>
  \<open>execve\<close> of the compatibility layer returns the entry point of a loaded image and -1 for a
  file that is not a 64-bit little-endian x86-64 ELF executable, with the kernel unchanged; it
  either returns or panics, and keeps the kernel's invariant.
\<close>

theorem execve_correct:
  assumes "world_wf w" and "raw_slice w p n = Ret d"
  shows "(header_fault d \<noteq> None \<longrightarrow> compat_linux_execve w p n = Ret (- 1, w)) \<and>
    (compat_linux_execve w p n = Panic \<or> (\<exists>r w'. compat_linux_execve w p n = Ret (r, w') \<and> world_wf w'))"
proof -
  have ok: "machine_ok (hw w)" using assms(1) by (simp add: world_wf_def)
  have "compat_linux_execve w p n = Ret (- 1, w)" if "header_fault d \<noteq> None"
    using that assms(2) by (auto simp: compat_linux_execve_def compat_load_elf_def load_elf_def validate_header_spec)
  moreover have "compat_linux_execve w p n = Panic \<or> (\<exists>r w'. compat_linux_execve w p n = Ret (r, w') \<and> world_wf w')"
    using load_elf_total [OF ok, of compat_loader d] world_wf_hw [OF assms(1)] assms(2)
    by (auto simp: compat_linux_execve_def compat_load_elf_def)
  ultimately show ?thesis by blast
qed

theorem execve_correct_witness: "compat_linux_execve run_demo 0x1000 16 = Ret (- 1, run_demo)"
proof -
  have wf: "world_wf run_demo" by (rule reachable_wf [OF bitflags_model_spec run_demo_reachable])
  have "raw_slice run_demo 0x1000 16 = Ret (mem_read (mem machine_demo) 0x1000 16)" by (simp add: raw_slice_def)
  moreover have "header_fault (mem_read (mem machine_demo) 0x1000 16) \<noteq> None"
    by (simp add: header_fault_def mem_read_def)
  ultimately show ?thesis using execve_correct [OF wf] by blast
qed

end
