(* ===== verification/Frontend.thy ===== *)
theory Frontend
  imports Kernel
begin

text \<open>
  The two pieces that only print: the web view stub of \<open>kernel/src/web.rs\<close>, with the text it writes
  to the screen, and the SDK wrappers of \<open>sdk/src/lib.rs\<close>, which call no kernel service.
\<close>

section \<open>The web view\<close>

record web_view =
  url :: rstr
  wv_width :: u32
  wv_height :: u32
  fb_virtual_addr :: usize

datatype web_error = LacksMemAlloc

definition web_view_new :: "rstr \<Rightarrow> web_view" where
  "web_view_new u = \<lparr>url = u, wv_width = 1024, wv_height = 768, fb_virtual_addr = 0\<rparr>"

text \<open>The format \<open>{:x}\<close>.\<close>

definition hex_digit :: "nat \<Rightarrow> u8" where
  "hex_digit n = of_nat (if n < 10 then 48 + n else 87 + n)"

fun fmt_hex :: "nat \<Rightarrow> rstr" where
  "fmt_hex n = (if n < 16 then [hex_digit n] else fmt_hex (n div 16) @ [hex_digit (n mod 16)])"

declare fmt_hex.simps [simp del]

definition allocate_framebuffer :: "web_view \<Rightarrow> bool \<Rightarrow> (web_error + usize) \<times> web_view \<times> rstr" where
  "allocate_framebuffer v has_mem_alloc =
     (if \<not> has_mem_alloc then (Inl LacksMemAlloc, v, [])
      else let sz = ucast (wv_width v * wv_height v * 4) :: usize;
               mock_fb_addr = 0xD0000000
           in (Inr mock_fb_addr, v\<lparr>fb_virtual_addr := mock_fb_addr\<rparr>,
               lit ''[WebKit] Framebuffer: '' @ fmt_dec (unat sz) @ lit '' bytes at 0x'' @
               fmt_hex (unat mock_fb_addr) @ [10]))"

definition render :: "web_view \<Rightarrow> rstr" where
  "render v =
     lit ''[WebKit] Rendering: '' @ url v @ [10] @
     lit ''+-----------------------------------+'' @ [10] @
     lit ''| Lofita Web Browser                |'' @ [10] @
     (if contains_str (url v) (lit ''lorifa.org'')
      then lit ''| Welcome to Lofita OS Project      |'' @ [10]
      else lit ''| Loading: '' @ url v @ lit ''    |'' @ [10]) @
     lit ''+-----------------------------------+'' @ [10]"

definition rust_webkit_render :: "world \<Rightarrow> u64 \<Rightarrow> usize \<Rightarrow> u32 \<Rightarrow> (i32 \<times> rstr) outcome" where
  "rust_webkit_render w url_ptr url_len has_mem_alloc =
     obind (raw_slice w url_ptr url_len) (\<lambda>url_slice.
       let u = utf8_or url_slice (lit ''about:blank'');
           webview = web_view_new u;
           (r, webview', out) = allocate_framebuffer webview (has_mem_alloc \<noteq> 0)
       in case r of
            Inl e \<Rightarrow> Ret (-1, out)
          | Inr a \<Rightarrow> Ret (0, out @ render webview'))"

section \<open>The SDK\<close>

record sdk_session =
  sdk_session_id :: u64
  sdk_token_id :: u64

record sdk_file =
  sdk_path :: rstr
  sdk_file_session :: u64

definition sdk_session_new :: sdk_session where
  "sdk_session_new = \<lparr>sdk_session_id = 100, sdk_token_id = 10\<rparr>"

definition sdk_heartbeat :: "sdk_session \<Rightarrow> rstr" where
  "sdk_heartbeat s = lit ''[SDK] Heartbeat for Session '' @ fmt_dec (unat (sdk_session_id s)) @ [10]"

definition sdk_file_open :: "rstr \<Rightarrow> sdk_session \<Rightarrow> (unit + sdk_file) \<times> rstr" where
  "sdk_file_open path s =
     (Inr \<lparr>sdk_path = path, sdk_file_session = sdk_session_id s\<rparr>,
      lit ''[SDK] Opening File '' @ [39] @ path @ [39] @ lit '' with Session '' @
      fmt_dec (unat (sdk_session_id s)) @ [10])"

definition sdk_file_write :: "sdk_file \<Rightarrow> bytes \<Rightarrow> (unit + usize) \<times> rstr" where
  "sdk_file_write f data =
     (Inr (len64 data),
      lit ''[SDK] Writing '' @ fmt_dec (length data) @ lit '' bytes to '' @ [39] @ sdk_path f @ [39] @
      lit '' under Session '' @ fmt_dec (unat (sdk_file_session f)) @ [10])"

section \<open>Lemmas\<close>

text \<open>
  The export refuses a caller without \<open>MEM_ALLOC\<close> before anything is printed; otherwise the
  framebuffer of 1024 by 768 pixels of 4 bytes is announced and the page is drawn.
\<close>

lemma webkit_render:
  assumes "raw_slice w p n = Ret u"
  shows "rust_webkit_render w p n h = Ret (if h = 0 then (- 1, []) else (0,
    lit ''[WebKit] Framebuffer: 3145728 bytes at 0xd0000000'' @ [10] @
    render (web_view_new (utf8_or u (lit ''about:blank'')))))"
proof -
  have "fmt_dec 3145728 = lit ''3145728''" "fmt_hex 0xD0000000 = lit ''d0000000''"
    by (simp_all add: fmt_dec.simps fmt_hex.simps hex_digit_def lit_def)
  then show ?thesis
    using assms by (simp add: rust_webkit_render_def allocate_framebuffer_def web_view_new_def render_def lit_def)
qed

end
