(* ===== verification/Console.thy ===== *)
theory Console
  imports Rust_Str
begin

text \<open>
  The VGA text console of \<open>drivers/vga.zig\<close>: the 2000 cells of the text buffer, the software
  cursor, the attribute, and the two cursor registers of the CRT controller (ports \<open>0x3D4\<close> and
  \<open>0x3D5\<close>, which only this driver uses). A cell index past the buffer is a write to other memory,
  \<open>Undef\<close>. Columns and rows are natural numbers; \<open>console_ok\<close> bounds them.
\<close>

section \<open>State\<close>

datatype color =
  Black | Blue | Green | Cyan | Red | Magenta | Brown | LightGrey | DarkGrey | LightBlue |
  LightGreen | LightCyan | LightRed | LightMagenta | Yellow | White

fun color_code :: "color \<Rightarrow> u8" where
  "color_code Black = 0"
| "color_code Blue = 1"
| "color_code Green = 2"
| "color_code Cyan = 3"
| "color_code Red = 4"
| "color_code Magenta = 5"
| "color_code Brown = 6"
| "color_code LightGrey = 7"
| "color_code DarkGrey = 8"
| "color_code LightBlue = 9"
| "color_code LightGreen = 10"
| "color_code LightCyan = 11"
| "color_code LightRed = 12"
| "color_code LightMagenta = 13"
| "color_code Yellow = 14"
| "color_code White = 15"

definition make_attr :: "color \<Rightarrow> color \<Rightarrow> u8" where
  "make_attr fg bg = color_code fg OR push_bit 4 (color_code bg)"

abbreviation VGA_WIDTH :: nat where "VGA_WIDTH \<equiv> 80"
abbreviation VGA_HEIGHT :: nat where "VGA_HEIGHT \<equiv> 25"
abbreviation VGA_CELLS :: nat where "VGA_CELLS \<equiv> 2000"

record console =
  screen :: "u16 list"
  cursor_col :: nat
  cursor_row :: nat
  default_attr :: u8
  crtc :: "u8 \<Rightarrow> u8"

section \<open>Cells and cursor\<close>

definition vga_cell :: "u8 \<Rightarrow> u8 \<Rightarrow> u16" where
  "vga_cell char attr = ucast char OR push_bit 8 (ucast attr)"

definition put_char_at :: "nat \<Rightarrow> nat \<Rightarrow> u8 \<Rightarrow> u8 \<Rightarrow> console \<Rightarrow> console outcome" where
  "put_char_at col row char attr con =
     (let index = row * VGA_WIDTH + col
      in if index < length (screen con)
         then Ret (con\<lparr>screen := (screen con)[index := vga_cell char attr]\<rparr>) else Undef)"

text \<open>The cast of the position to \<open>u16\<close> is checked.\<close>

definition update_cursor :: "nat \<Rightarrow> nat \<Rightarrow> console \<Rightarrow> console outcome" where
  "update_cursor col row con =
     (if row * VGA_WIDTH + col < 2 ^ 16
      then let pos = of_nat (row * VGA_WIDTH + col) :: u16
           in Ret (con\<lparr>crtc := (crtc con)(0x0F := ucast (pos AND 0xFF),
                                  0x0E := ucast (drop_bit 8 pos AND 0xFF))\<rparr>)
      else Panic)"

definition clear :: "console \<Rightarrow> console outcome" where
  "clear con =
     obind (ofold (\<lambda>r. ofold (\<lambda>c s. put_char_at c r 32 (default_attr s) s) [0..<VGA_WIDTH]) [0..<VGA_HEIGHT] con)
       (\<lambda>con1. update_cursor 0 0 (con1\<lparr>cursor_col := 0, cursor_row := 0\<rparr>))"

text \<open>\<open>vga_ptr()[dst] = vga_ptr()[src]\<close>.\<close>

definition copy_cell :: "nat \<Rightarrow> nat \<Rightarrow> console \<Rightarrow> console outcome" where
  "copy_cell dst src con =
     (if src < length (screen con) \<and> dst < length (screen con)
      then Ret (con\<lparr>screen := (screen con)[dst := screen con ! src]\<rparr>) else Undef)"

definition scroll :: "console \<Rightarrow> console outcome" where
  "scroll con =
     obind (ofold (\<lambda>r. ofold (\<lambda>c. copy_cell ((r - 1) * VGA_WIDTH + c) (r * VGA_WIDTH + c)) [0..<VGA_WIDTH])
              [1..<VGA_HEIGHT] con) (\<lambda>con1.
     obind (ofold (\<lambda>c s. put_char_at c (VGA_HEIGHT - 1) 32 (default_attr s) s) [0..<VGA_WIDTH] con1) (\<lambda>con2.
     let con3 = (if cursor_row con2 > 0 then con2\<lparr>cursor_row := cursor_row con2 - 1\<rparr> else con2)
     in update_cursor (cursor_col con3) (cursor_row con3) con3))"

definition console_init :: "console \<Rightarrow> console outcome" where
  "console_init con = clear (con\<lparr>default_attr := make_attr White Black\<rparr>)"

section \<open>Output\<close>

text \<open>The switch of \<open>put_char\<close>; a tab goes to the next multiple of 8.\<close>

definition place_char :: "u8 \<Rightarrow> console \<Rightarrow> console outcome" where
  "place_char char con =
     (if char = 10 then Ret (con\<lparr>cursor_col := 0, cursor_row := cursor_row con + 1\<rparr>)
      else if char = 13 then Ret (con\<lparr>cursor_col := 0\<rparr>)
      else if char = 9 then Ret (con\<lparr>cursor_col := (cursor_col con + 8) div 8 * 8\<rparr>)
      else if char = 8 then
        (if cursor_col con > 0
         then put_char_at (cursor_col con - 1) (cursor_row con) 32 (default_attr con)
                (con\<lparr>cursor_col := cursor_col con - 1\<rparr>)
         else Ret con)
      else obind (put_char_at (cursor_col con) (cursor_row con) char (default_attr con) con)
             (\<lambda>con1. Ret (con1\<lparr>cursor_col := cursor_col con1 + 1\<rparr>)))"

definition put_char :: "u8 \<Rightarrow> console \<Rightarrow> console outcome" where
  "put_char char con =
     obind (place_char char con) (\<lambda>con1.
     let con2 = (if cursor_col con1 \<ge> VGA_WIDTH
                 then con1\<lparr>cursor_col := 0, cursor_row := cursor_row con1 + 1\<rparr> else con1)
     in obind (if cursor_row con2 \<ge> VGA_HEIGHT then scroll con2 else Ret con2) (\<lambda>con3.
        update_cursor (cursor_col con3) (cursor_row con3) con3))"

definition print :: "bytes \<Rightarrow> console \<Rightarrow> console outcome" where
  "print = ofold put_char"

definition set_color :: "color \<Rightarrow> color \<Rightarrow> console \<Rightarrow> console" where
  "set_color fg bg con = con\<lparr>default_attr := make_attr fg bg\<rparr>"

definition set_cursor :: "nat \<Rightarrow> nat \<Rightarrow> console \<Rightarrow> console outcome" where
  "set_cursor col row con =
     (let con1 = con\<lparr>cursor_col := if col < VGA_WIDTH then col else VGA_WIDTH - 1,
                     cursor_row := if row < VGA_HEIGHT then row else VGA_HEIGHT - 1\<rparr>
      in update_cursor (cursor_col con1) (cursor_row con1) con1)"

text \<open>
  \<open>print_dec\<close> fills a buffer of 20 bytes with the digits, the last first, and prints it backwards;
  an index past the buffer is checked. \<open>print_hex\<close> leaves out leading zeros.
\<close>

function dec_loop :: "bytes \<Rightarrow> u64 \<Rightarrow> bytes outcome" where
  "dec_loop buf v =
     (if v = 0 then Ret buf
      else if length buf < 20 then dec_loop (buf @ [ucast (v mod 10) + 48]) (v div 10) else Panic)"
  by pat_completeness auto
termination
  by (relation "measure (\<lambda>(buf, v). unat v)") (auto simp: unat_div unat_gt_0)

declare dec_loop.simps [simp del]

definition print_dec :: "u64 \<Rightarrow> console \<Rightarrow> console outcome" where
  "print_dec value con =
     (if value = 0 then put_char 48 con
      else obind (dec_loop [] value) (\<lambda>buf. print (rev buf) con))"

definition hex_digit :: "u8 \<Rightarrow> u8" where
  "hex_digit n = lit ''0123456789ABCDEF'' ! unat (n AND 0xF)"

fun hex_loop :: "u64 \<Rightarrow> bool \<Rightarrow> nat list \<Rightarrow> bytes" where
  "hex_loop value started [] = []"
| "hex_loop value started (shift # shifts) =
     (let nibble = drop_bit shift value AND 0xF
      in if nibble \<noteq> 0 \<or> started \<or> shift = 0
         then hex_digit (ucast nibble) # hex_loop value True shifts
         else hex_loop value started shifts)"

definition print_hex :: "u64 \<Rightarrow> console \<Rightarrow> console outcome" where
  "print_hex value con = print (lit ''0x'' @ hex_loop value False (map (\<lambda>i. 60 - 4 * i) [0..<16])) con"

text \<open>\<open>print_cstr\<close> and \<open>vga_print_bytes\<close>, on the bytes they are given.\<close>

definition print_cstr :: "bytes \<Rightarrow> console \<Rightarrow> console outcome" where
  "print_cstr msg = ofold put_char (takeWhile (\<lambda>b. b \<noteq> 0) msg)"

definition vga_print_bytes :: "bytes \<Rightarrow> nat \<Rightarrow> console \<Rightarrow> console outcome" where
  "vga_print_bytes ptr len con =
     ofold (\<lambda>i s. if i < length ptr then put_char (ptr ! i) s else Undef) [0..<len] con"

section \<open>Bounds\<close>

definition console_ok :: "console \<Rightarrow> bool" where
  "console_ok con \<longleftrightarrow> length (screen con) = VGA_CELLS \<and> cursor_col con < VGA_WIDTH \<and> cursor_row con < VGA_HEIGHT"

text \<open>The position the CRT controller has.\<close>

definition hw_cursor :: "console \<Rightarrow> nat" where
  "hw_cursor con = unat (crtc con 0x0E) * 256 + unat (crtc con 0x0F)"

definition cursor_shown :: "console \<Rightarrow> bool" where
  "cursor_shown con \<longleftrightarrow> console_ok con \<and> hw_cursor con = cursor_row con * VGA_WIDTH + cursor_col con"

section \<open>Scrolling and clearing as list operations\<close>

lemma ofold_map: "ofold f (map g xs) s = ofold (f \<circ> g) xs s"
  by (induction xs arbitrary: s) (simp_all cong: obind_cong)

text \<open>Two nested loops over rows of \<open>n\<close> cells are one loop over the cells.\<close>

lemma ofold_rows: "ofold (\<lambda>r. ofold (\<lambda>c. f (r * n + c)) [0..<n]) [0..<k] s = ofold f [0..<k * n] s"
proof (induction k arbitrary: s)
  case (Suc k)
  have row: "ofold f [k * n..<k * n + n] = ofold (\<lambda>c. f (k * n + c)) [0..<n]"
  proof -
    have "[k * n..<k * n + n] = map (\<lambda>c. k * n + c) [0..<n]"
      using map_add_upt [of "k * n" n] by (simp only: add.commute)
    then show ?thesis by (simp only: fun_eq_iff ofold_map comp_def simp_thms)
  qed
  have "[0..<Suc k * n] = [0..<k * n] @ [k * n..<k * n + n]"
    using upt_add_eq_append [of 0 "k * n" n] by (simp add: add.commute)
  then have "ofold f [0..<Suc k * n] s = obind (ofold f [0..<k * n] s) (ofold f [k * n..<k * n + n])"
    by (simp only: ofold_append)
  also have "\<dots> = obind (ofold (\<lambda>r. ofold (\<lambda>c. f (r * n + c)) [0..<n]) [0..<k] s) (ofold (\<lambda>c. f (k * n + c)) [0..<n])"
    by (simp only: row Suc.IH)
  also have "\<dots> = ofold (\<lambda>r. ofold (\<lambda>c. f (r * n + c)) [0..<n]) [0..<Suc k] s"
    by (simp add: ofold_append cong: obind_cong)
  finally show ?case by (rule sym)
qed simp

lemma put_char_at_index: "put_char_at c r ch a con = put_char_at (r * VGA_WIDTH + c) 0 ch a con"
  by (simp add: put_char_at_def)

definition blank :: "console \<Rightarrow> u16" where
  "blank con = vga_cell 32 (default_attr con)"

lemma blank_screen [simp]: "blank (con\<lparr>screen := x\<rparr>) = blank con"
  by (simp add: blank_def)

lemma fill_cells:
  assumes "b + n \<le> length (screen con)"
  shows "ofold (\<lambda>i s. put_char_at (b + i) 0 32 (default_attr s) s) [0..<n] con
    = Ret (con\<lparr>screen := take b (screen con) @ replicate n (blank con) @ drop (b + n) (screen con)\<rparr>)"
  using assms
proof (induction n)
  case (Suc n)
  let ?xs = "take b (screen con) @ replicate n (blank con) @ drop (b + n) (screen con)"
  have "?xs[b + n := blank con] = take b (screen con) @ replicate (Suc n) (blank con) @ drop (b + Suc n) (screen con)"
    using Suc.prems list_update_length [of "take b (screen con) @ replicate n (blank con)"]
    by (simp add: Cons_nth_drop_Suc [symmetric] replicate_app_Cons_same)
  moreover have "put_char_at (b + n) 0 32 (default_attr con) (con\<lparr>screen := ?xs\<rparr>)
      = Ret (con\<lparr>screen := ?xs[b + n := blank con]\<rparr>)"
    using Suc.prems by (simp add: put_char_at_def blank_def Let_def)
  ultimately show ?case using Suc by (simp add: ofold_append)
qed simp

lemma shift_cells:
  assumes "w + n \<le> length (screen con)"
  shows "ofold (\<lambda>i. copy_cell i (w + i)) [0..<n] con
    = Ret (con\<lparr>screen := take n (drop w (screen con)) @ drop n (screen con)\<rparr>)"
  using assms
proof (induction n)
  case (Suc n)
  let ?xs = "take n (drop w (screen con)) @ drop n (screen con)"
  have "drop n (screen con) = screen con ! n # drop (Suc n) (screen con)"
    using Suc.prems by (simp add: Cons_nth_drop_Suc)
  moreover have "take (Suc n) (drop w (screen con)) = take n (drop w (screen con)) @ [screen con ! (w + n)]"
    using Suc.prems by (simp add: take_Suc_conv_app_nth)
  moreover have "?xs ! (w + n) = screen con ! (w + n)"
    using Suc.prems by (simp add: nth_append add.commute)
  moreover have "length (take n (drop w (screen con))) = n"
    using Suc.prems by simp
  ultimately have "?xs[n := ?xs ! (w + n)] = take (Suc n) (drop w (screen con)) @ drop (Suc n) (screen con)"
    using list_update_length [of "take n (drop w (screen con))"] by simp
  moreover have "copy_cell n (w + n) (con\<lparr>screen := ?xs\<rparr>) = Ret (con\<lparr>screen := ?xs[n := ?xs ! (w + n)]\<rparr>)"
    using Suc.prems by (simp add: copy_cell_def)
  ultimately show ?case using Suc by (simp add: ofold_append)
qed simp

lemma scroll_loop:
  assumes "length (screen con) = VGA_CELLS"
  shows "ofold (\<lambda>r. ofold (\<lambda>c. copy_cell ((r - 1) * VGA_WIDTH + c) (r * VGA_WIDTH + c)) [0..<VGA_WIDTH])
           [1..<VGA_HEIGHT] con
    = Ret (con\<lparr>screen := drop 80 (screen con) @ drop 1920 (screen con)\<rparr>)"
proof -
  have "[1..<VGA_HEIGHT] = map Suc [0..<24]"
    by (simp add: map_Suc_upt)
  then have "ofold (\<lambda>r. ofold (\<lambda>c. copy_cell ((r - 1) * VGA_WIDTH + c) (r * VGA_WIDTH + c)) [0..<VGA_WIDTH])
           [1..<VGA_HEIGHT] con
      = ofold (\<lambda>r. ofold (\<lambda>c. copy_cell (r * VGA_WIDTH + c) (VGA_WIDTH + (r * VGA_WIDTH + c))) [0..<VGA_WIDTH]) [0..<24] con"
    by (simp only: ofold_map comp_def diff_Suc_1 mult_Suc add.assoc)
  also have "\<dots> = ofold (\<lambda>i. copy_cell i (VGA_WIDTH + i)) [0..<24 * VGA_WIDTH] con"
    by (rule ofold_rows)
  finally show ?thesis using assms shift_cells [of 80 1920 con] by simp
qed

text \<open>\<open>scroll\<close> drops the first row and appends a blank one.\<close>

lemma scroll_eq:
  assumes "length (screen con) = VGA_CELLS" and "0 < cursor_row con"
  shows "scroll con = update_cursor (cursor_col con) (cursor_row con - 1)
    (con\<lparr>screen := drop VGA_WIDTH (screen con) @ replicate VGA_WIDTH (blank con), cursor_row := cursor_row con - 1\<rparr>)"
proof -
  let ?con = "con\<lparr>screen := drop 80 (screen con) @ drop 1920 (screen con)\<rparr>"
  have "ofold (\<lambda>c s. put_char_at c (VGA_HEIGHT - 1) 32 (default_attr s) s) [0..<VGA_WIDTH] ?con
      = ofold (\<lambda>i s. put_char_at (1920 + i) 0 32 (default_attr s) s) [0..<VGA_WIDTH] ?con"
    by (subst put_char_at_index) simp
  also have "\<dots> = Ret (con\<lparr>screen := drop 80 (screen con) @ replicate VGA_WIDTH (blank con)\<rparr>)"
    using fill_cells [of 1920 80 ?con] assms(1) by simp
  finally show ?thesis
    unfolding scroll_def scroll_loop [OF assms(1)] obind.simps Let_def using assms(2) by simp
qed

lemma clear_eq:
  assumes "length (screen con) = VGA_CELLS"
  shows "clear con = update_cursor 0 0
    (con\<lparr>screen := replicate VGA_CELLS (blank con), cursor_col := 0, cursor_row := 0\<rparr>)"
proof -
  have "ofold (\<lambda>r. ofold (\<lambda>c s. put_char_at c r 32 (default_attr s) s) [0..<VGA_WIDTH]) [0..<VGA_HEIGHT] con
      = ofold (\<lambda>r. ofold (\<lambda>c s. put_char_at (r * VGA_WIDTH + c) 0 32 (default_attr s) s) [0..<VGA_WIDTH]) [0..<VGA_HEIGHT] con"
    by (subst put_char_at_index) (rule refl)
  also have "\<dots> = ofold (\<lambda>i s. put_char_at i 0 32 (default_attr s) s) [0..<VGA_HEIGHT * VGA_WIDTH] con"
    by (rule ofold_rows)
  also have "\<dots> = Ret (con\<lparr>screen := replicate VGA_CELLS (blank con)\<rparr>)"
    using fill_cells [of 0 2000 con] assms by simp
  finally show ?thesis by (simp add: clear_def)
qed

section \<open>The cursor the hardware shows\<close>

lemma cursor_bytes:
  assumes "n < 2 ^ 16"
  shows "unat (ucast (drop_bit 8 (of_nat n :: u16) AND 0xFF) :: u8) * 256 + unat (ucast (of_nat n AND 0xFF :: u16) :: u8) = n"
proof -
  have mask: "(0xFF :: u16) = mask 8" by (simp add: mask_eq_exp_minus_1)
  have "n div 256 < 256" using assms by (simp add: less_mult_imp_div_less)
  with assms show ?thesis
    unfolding mask by (simp only: take_bit_eq_mask [symmetric] ucast_as_of_nat unsigned_take_bit_eq unat_drop_bit_eq)
      (simp add: take_bit_eq_mod drop_bit_eq_div)
qed

lemma update_cursor_shown:
  assumes "console_ok con"
  shows "\<exists>f. update_cursor (cursor_col con) (cursor_row con) con = Ret (con\<lparr>crtc := f\<rparr>)
    \<and> cursor_shown (con\<lparr>crtc := f\<rparr>)"
proof -
  define n where "n = cursor_row con * VGA_WIDTH + cursor_col con"
  have "n < 2 ^ 16"
    using assms by (simp add: console_ok_def n_def)
  then show ?thesis
    using assms cursor_bytes [of n]
    unfolding update_cursor_def cursor_shown_def hw_cursor_def console_ok_def Let_def n_def [symmetric]
    by (intro exI [of _ "(crtc con)(0x0F := ucast ((of_nat n :: u16) AND 0xFF), 0x0E := ucast (drop_bit 8 (of_nat n :: u16) AND 0xFF))"])
      (simp add: n_def)
qed

lemma put_char_at_ok:
  assumes "console_ok con" and "row < VGA_HEIGHT" and "col < VGA_WIDTH"
  shows "put_char_at col row ch a con = Ret (con\<lparr>screen := (screen con)[row * VGA_WIDTH + col := vga_cell ch a]\<rparr>)"
  using assms by (simp add: put_char_at_def console_ok_def Let_def)

text \<open>One character: it is placed, then the position wraps and the screen scrolls.\<close>

lemma place_char_bounds:
  assumes "console_ok con"
  shows "\<exists>con1. place_char ch con = Ret con1 \<and> length (screen con1) = VGA_CELLS
    \<and> (cursor_row con1 < VGA_HEIGHT \<and> cursor_col con1 \<le> VGA_WIDTH
       \<or> cursor_row con1 = VGA_HEIGHT \<and> cursor_col con1 = 0)"
proof -
  have "(cursor_col con + 8) div 8 * 8 \<le> VGA_WIDTH"
    using assms unfolding console_ok_def by presburger
  with assms show ?thesis
    using put_char_at_ok [of "con\<lparr>cursor_col := cursor_col con - 1\<rparr>" "cursor_row con" "cursor_col con - 1"]
      put_char_at_ok [of con "cursor_row con" "cursor_col con"]
    by (auto simp: place_char_def console_ok_def)
qed

lemma put_char_shown:
  assumes "console_ok con"
  shows "\<exists>con'. put_char ch con = Ret con' \<and> cursor_shown con'"
proof -
  obtain con1 where con1: "place_char ch con = Ret con1" "length (screen con1) = VGA_CELLS"
      "cursor_row con1 < VGA_HEIGHT \<and> cursor_col con1 \<le> VGA_WIDTH
       \<or> cursor_row con1 = VGA_HEIGHT \<and> cursor_col con1 = 0"
    using place_char_bounds [OF assms] by blast
  define con2 where "con2 = (if cursor_col con1 \<ge> VGA_WIDTH
                 then con1\<lparr>cursor_col := 0, cursor_row := cursor_row con1 + 1\<rparr> else con1)"
  have con2: "length (screen con2) = VGA_CELLS" "cursor_row con2 \<le> VGA_HEIGHT" "cursor_col con2 < VGA_WIDTH"
    using con1 by (auto simp: con2_def)
  have "\<exists>con3. (if cursor_row con2 \<ge> VGA_HEIGHT then scroll con2 else Ret con2) = Ret con3 \<and> console_ok con3"
  proof (cases "cursor_row con2 \<ge> VGA_HEIGHT")
    case True
    let ?con = "con2\<lparr>screen := drop VGA_WIDTH (screen con2) @ replicate VGA_WIDTH (blank con2), cursor_row := cursor_row con2 - 1\<rparr>"
    have "console_ok ?con" using True con2 by (simp add: console_ok_def)
    then show ?thesis
      using update_cursor_shown [of ?con] True con2 by (auto simp: scroll_eq cursor_shown_def)
  next
    case False
    with con2 show ?thesis by (simp add: console_ok_def)
  qed
  then show ?thesis
    using update_cursor_shown con1(1) unfolding put_char_def con2_def
    by (fastforce simp: Let_def)
qed

lemma cursor_shown_ok [dest]: "cursor_shown con \<Longrightarrow> console_ok con"
  by (simp add: cursor_shown_def)

lemma print_shown:
  assumes "cursor_shown con"
  shows "\<exists>con'. print msg con = Ret con' \<and> cursor_shown con'"
  unfolding print_def by (rule ofold_Ret [of cursor_shown]) (use assms put_char_shown in auto)

section \<open>Numbers\<close>

text \<open>The value a string of digits stands for, with the most significant digit first.\<close>

primrec digits_value :: "nat \<Rightarrow> (u8 \<Rightarrow> nat) \<Rightarrow> bytes \<Rightarrow> nat" where
  "digits_value b f [] = 0"
| "digits_value b f (d # ds) = f d * b ^ length ds + digits_value b f ds"

lemma digits_value_snoc: "digits_value b f (ds @ [d]) = digits_value b f ds * b + f d"
  by (induction ds) (simp_all add: algebra_simps)

definition dec_digit :: "u8 \<Rightarrow> nat" where
  "dec_digit d = unat d - 48"

definition is_dec_digit :: "u8 \<Rightarrow> bool" where
  "is_dec_digit d \<longleftrightarrow> 48 \<le> unat d \<and> unat d \<le> 57"

lemma unat_dec_digit: "unat (ucast (v mod 10 :: u64) + 48 :: u8) = unat v mod 10 + 48"
proof -
  have "unat v mod 10 < 10" by simp
  then have "unat v mod 10 + 48 < 256" by linarith
  then show ?thesis
    by (simp add: ucast_as_of_nat unat_mod unat_word_ariths)
qed

lemma dec_loop_digits:
  assumes "unat v < 10 ^ k" and "length buf + k \<le> 20"
  shows "\<exists>ds. dec_loop buf v = Ret (buf @ ds) \<and> length ds \<le> k \<and> list_all is_dec_digit ds
    \<and> digits_value 10 dec_digit (rev ds) = unat v \<and> (ds = [] \<longleftrightarrow> v = 0) \<and> (v \<noteq> 0 \<longrightarrow> last ds \<noteq> 48)"
  using assms
proof (induction k arbitrary: buf v)
  case 0
  then have "v = 0" by (simp add: unat_eq_zero)
  then show ?case by (simp add: dec_loop.simps [of buf 0])
next
  case (Suc k)
  show ?case
  proof (cases "v = 0")
    case True
    then show ?thesis by (simp add: dec_loop.simps [of buf 0])
  next
    case False
    let ?d = "ucast (v mod 10) + 48 :: u8"
    have "unat (v div 10) < 10 ^ k"
      using Suc.prems(1) by (simp add: unat_div less_mult_imp_div_less)
    then obtain ds where ds: "dec_loop (buf @ [?d]) (v div 10) = Ret (buf @ ?d # ds)" "length ds \<le> k"
        "list_all is_dec_digit ds" "digits_value 10 dec_digit (rev ds) = unat v div 10"
        "ds = [] \<longleftrightarrow> v div 10 = 0" "v div 10 \<noteq> 0 \<longrightarrow> last ds \<noteq> 48"
      using Suc.IH [of "v div 10" "buf @ [?d]"] Suc.prems(2) by (auto simp: unat_div)
    have "ds = [] \<Longrightarrow> ?d \<noteq> 48"
    proof -
      assume "ds = []"
      with ds(5) have "unat (v div 10) = 0" by simp
      then have "unat v div 10 = 0" by (simp add: unat_div)
      with False have "unat v mod 10 \<noteq> 0" by (simp add: unat_eq_zero div_eq_0_iff)
      then show "?d \<noteq> 48" using unat_dec_digit [of v] by force
    qed
    moreover have "dec_digit ?d = unat v mod 10" "is_dec_digit ?d"
      using mod_less_divisor [of 10 "unat v"] by (simp_all only: dec_digit_def is_dec_digit_def unat_dec_digit) auto
    moreover have "dec_loop buf v = dec_loop (buf @ [?d]) (v div 10)"
      using False Suc.prems(2) by (simp add: dec_loop.simps [of buf v])
    ultimately show ?thesis using ds False by (intro exI [of _ "?d # ds"]) (simp add: digits_value_snoc)
  qed
qed

text \<open>The hexadecimal digits.\<close>

definition hex_value :: "u8 \<Rightarrow> nat" where
  "hex_value d = (if unat d \<le> 57 then unat d - 48 else unat d - 55)"

lemma hex_value_digit: "n < 16 \<Longrightarrow> hex_value (lit ''0123456789ABCDEF'' ! n) = n"
proof -
  assume n: "n < 16"
  have "map hex_value (lit ''0123456789ABCDEF'') = [0..<16]"
    by (simp add: lit_def hex_value_def upt_rec)
  then have "map hex_value (lit ''0123456789ABCDEF'') ! n = n" using n by simp
  moreover have "length (lit ''0123456789ABCDEF'') = 16" by (simp add: lit_def)
  ultimately show ?thesis using n by (simp only: nth_map)
qed

lemma nibble_eq: "unat (drop_bit k value AND 0xF :: u64) = unat value div 2 ^ k mod 16"
proof -
  have "(0xF :: u64) = mask 4" by (simp add: mask_eq_exp_minus_1)
  then show ?thesis
    by (simp only: take_bit_eq_mask [symmetric] unsigned_take_bit_eq unat_drop_bit_eq) (simp add: take_bit_eq_mod drop_bit_eq_div)
qed

lemma hex_digit_nibble: "hex_value (hex_digit (ucast (drop_bit k value AND 0xF :: u64))) = unat value div 2 ^ k mod 16"
proof -
  have "unat (ucast (drop_bit k value AND 0xF :: u64) AND 0xF :: u8) = unat value div 2 ^ k mod 16"
  proof -
    have mask: "(0xF :: u8) = mask 4" by (simp add: mask_eq_exp_minus_1)
    have "unat value div 2 ^ k mod 16 < 256" by (rule less_trans [of _ 16]) simp_all
    then show ?thesis
      unfolding mask by (simp only: take_bit_eq_mask [symmetric] ucast_as_of_nat nibble_eq unsigned_take_bit_eq)
        (simp add: take_bit_eq_mod)
  qed
  then show ?thesis by (simp add: hex_digit_def hex_value_digit)
qed

lemma hex_loop_value:
  "digits_value 16 hex_value (hex_loop value st (map (\<lambda>i. 4 * (n - i)) [0..<Suc n])) = unat value mod 16 ^ Suc n
   \<and> (st \<longrightarrow> length (hex_loop value st (map (\<lambda>i. 4 * (n - i)) [0..<Suc n])) = Suc n)"
proof (induction n arbitrary: st)
  case 0
  show ?case using hex_digit_nibble [of 0] by simp
next
  case (Suc n)
  have tail: "map (\<lambda>i. 4 * (Suc n - i)) [0..<Suc (Suc n)] = 4 * Suc n # map (\<lambda>i. 4 * (n - i)) [0..<Suc n]"
    by (simp add: upt_conv_Cons map_Suc_upt [symmetric] comp_def del: upt_Suc)
  have "(2 :: nat) ^ (4 * Suc n) = 16 ^ Suc n"
    by (simp only: power_mult) simp
  then have top: "unat value mod 16 ^ Suc (Suc n)
      = (unat value div 2 ^ (4 * Suc n) mod 16) * 16 ^ Suc n + unat value mod 16 ^ Suc n"
    using mod_mult2_eq [of "unat value" "16 ^ Suc n" 16] by (simp only: power_Suc2 mult.commute)
  have "drop_bit (4 * Suc n) value AND 0xF = 0 \<longleftrightarrow> unat value div 2 ^ (4 * Suc n) mod 16 = 0"
    by (metis nibble_eq unat_eq_zero)
  then show ?case
    unfolding tail using Suc.IH top by (auto simp: Let_def hex_digit_nibble simp del: upt_Suc power_Suc)
qed

section \<open>The driver as a whole\<close>

text \<open>The public operations of the driver, as the rest of the kernel calls them.\<close>

datatype con_op =
  Init | Clear | Put_char u8 | Print bytes | Print_cstr bytes | Print_hex u64 | Print_dec u64 |
  Set_color color color | Set_cursor nat nat

fun con_exec :: "con_op \<Rightarrow> console \<Rightarrow> console outcome" where
  "con_exec Init con = console_init con"
| "con_exec Clear con = clear con"
| "con_exec (Put_char ch) con = put_char ch con"
| "con_exec (Print msg) con = print msg con"
| "con_exec (Print_cstr msg) con = print_cstr msg con"
| "con_exec (Print_hex v) con = print_hex v con"
| "con_exec (Print_dec v) con = print_dec v con"
| "con_exec (Set_color fg bg) con = Ret (set_color fg bg con)"
| "con_exec (Set_cursor col row) con = set_cursor col row con"

lemma clear_shown:
  assumes "length (screen con) = VGA_CELLS"
  shows "\<exists>con'. clear con = Ret con' \<and> cursor_shown con'"
  using update_cursor_shown [of "con\<lparr>screen := replicate VGA_CELLS (blank con), cursor_col := 0, cursor_row := 0\<rparr>"] assms
  by (auto simp: clear_eq console_ok_def)

lemma set_cursor_shown:
  assumes "console_ok con"
  shows "\<exists>con'. set_cursor col row con = Ret con' \<and> cursor_shown con'"
  using update_cursor_shown [of "con\<lparr>cursor_col := if col < VGA_WIDTH then col else VGA_WIDTH - 1,
                     cursor_row := if row < VGA_HEIGHT then row else VGA_HEIGHT - 1\<rparr>"] assms
  by (auto simp: set_cursor_def console_ok_def Let_def)

lemma con_exec_shown:
  assumes "cursor_shown con"
  shows "\<exists>con'. con_exec op con = Ret con' \<and> cursor_shown con'"
proof (cases op)
  case Init
  then show ?thesis
    using clear_shown [of "con\<lparr>default_attr := make_attr White Black\<rparr>"] assms
    by (simp add: console_init_def cursor_shown_def console_ok_def)
next
  case Clear
  then show ?thesis using clear_shown [of con] assms by (simp add: cursor_shown_def console_ok_def)
next
  case (Print_dec v)
  obtain ds where "dec_loop [] v = Ret ds"
    using dec_loop_digits [of v 20 "[]"] unat_u64_less [of v] by auto
  with Print_dec show ?thesis
    using print_shown [OF assms, of "rev ds"] put_char_shown [of con 48] assms by (auto simp: print_dec_def)
next
  case (Set_color fg bg)
  with assms show ?thesis by (simp add: set_color_def cursor_shown_def console_ok_def hw_cursor_def)
qed (use assms in \<open>auto simp: print_hex_def print_cstr_def print_def [symmetric] put_char_shown print_shown set_cursor_shown\<close>)

text \<open>
  C36. After \<open>init\<close>, no sequence of calls of the screen driver writes outside the text buffer,
  fails a checked cast or index, or loses track of the cursor: each call returns, the software
  cursor stays inside the 80 x 25 screen and the CRT controller's cursor registers hold its position.
\<close>

theorem console_safe:
  assumes "length (screen con) = VGA_CELLS"
  shows "\<exists>con'. ofold con_exec (Init # ops) con = Ret con' \<and> length (screen con') = VGA_CELLS
    \<and> cursor_col con' < VGA_WIDTH \<and> cursor_row con' < VGA_HEIGHT
    \<and> hw_cursor con' = cursor_row con' * VGA_WIDTH + cursor_col con'"
proof -
  obtain con1 where con1: "console_init con = Ret con1" "cursor_shown con1"
    using clear_shown [of "con\<lparr>default_attr := make_attr White Black\<rparr>"] assms by (auto simp: console_init_def)
  obtain con2 where "ofold con_exec ops con1 = Ret con2" "cursor_shown con2"
    using ofold_Ret [of cursor_shown con1 ops con_exec, OF con1(2) con_exec_shown] by blast
  with con1 show ?thesis by (simp add: cursor_shown_def console_ok_def)
qed

definition console_demo :: console where
  "console_demo = \<lparr>screen = replicate VGA_CELLS 0, cursor_col = 0, cursor_row = 0, default_attr = 0, crtc = \<lambda>_. 0\<rparr>"

theorem console_safe_witness:
  "\<exists>con'. ofold con_exec (Init # [Set_cursor 79 24, Print (lit ''ok''), Print_dec 42]) console_demo = Ret con'
    \<and> length (screen con') = VGA_CELLS \<and> cursor_col con' < VGA_WIDTH \<and> cursor_row con' < VGA_HEIGHT
    \<and> hw_cursor con' = cursor_row con' * VGA_WIDTH + cursor_col con'"
  by (rule console_safe) (simp add: console_demo_def)

text \<open>
  The number printers print the number: \<open>print_dec\<close> prints at most 20 decimal digits without a
  leading zero, \<open>print_hex\<close> prints \<open>0x\<close> and hexadecimal digits, and reading the digits back gives the
  value, for every 64-bit value.
\<close>

theorem number_printing:
  "(\<exists>ds. print_dec v con = print ds con \<and> 0 < length ds \<and> length ds \<le> 20 \<and> list_all is_dec_digit ds
      \<and> digits_value 10 dec_digit ds = unat v \<and> (hd ds = 48 \<longleftrightarrow> v = 0))
   \<and> (\<exists>hs. print_hex v con = print (lit ''0x'' @ hs) con \<and> digits_value 16 hex_value hs = unat v)"
proof
  show "\<exists>ds. print_dec v con = print ds con \<and> 0 < length ds \<and> length ds \<le> 20 \<and> list_all is_dec_digit ds
      \<and> digits_value 10 dec_digit ds = unat v \<and> (hd ds = 48 \<longleftrightarrow> v = 0)"
  proof (cases "v = 0")
    case True
    then show ?thesis
      by (intro exI [of _ "[48]"]) (simp add: print_dec_def print_def is_dec_digit_def dec_digit_def cong: obind_cong)
  next
    case False
    then obtain ds where "dec_loop [] v = Ret ds" "length ds \<le> 20" "list_all is_dec_digit ds"
        "digits_value 10 dec_digit (rev ds) = unat v" "ds \<noteq> []" "last ds \<noteq> 48"
      using dec_loop_digits [of v 20 "[]"] unat_u64_less [of v] by auto
    with False show ?thesis
      by (intro exI [of _ "rev ds"]) (simp add: print_dec_def hd_rev list_all_rev)
  qed
  have "map (\<lambda>i. 60 - 4 * i) [0..<16] = map (\<lambda>i. 4 * (15 - i)) [0..<Suc 15]"
    by (simp add: upt_rec)
  then have "digits_value 16 hex_value (hex_loop v False (map (\<lambda>i. 60 - 4 * i) [0..<16])) = unat v mod 16 ^ Suc 15"
    using hex_loop_value [of v False 15] by (simp only: simp_thms)
  then show "\<exists>hs. print_hex v con = print (lit ''0x'' @ hs) con \<and> digits_value 16 hex_value hs = unat v"
    using unat_u64_less [of v] unfolding print_hex_def by auto
qed

end
