(* ===== verification/Ports.thy ===== *)
theory Ports
  imports Console
begin

text \<open>
  Port input and output (\<open>arch/x86_64/io.zig\<close>) and the drivers that are written with it alone: the
  interrupt controller (\<open>drivers/pic.zig\<close>), the serial line (\<open>drivers/serial.zig\<close>) and the PCI bus scan
  (\<open>drivers/pci.zig\<close>). The devices are not code of the repository: a \<open>device\<close> is a parameter, any
  function that answers a read from the history of all port accesses, so that the theorems hold for
  every device unless they name what they need of it. The ports of the CRT controller belong to
  theory Console.
\<close>

section \<open>Port accesses\<close>

datatype io_event =
  In8 u16 u8 | In16 u16 u16 | In32 u16 u32 | Out8 u16 u8 | Out16 u16 u16 | Out32 u16 u32

record device =
  dev8 :: "io_event list \<Rightarrow> u16 \<Rightarrow> u8"
  dev16 :: "io_event list \<Rightarrow> u16 \<Rightarrow> u16"
  dev32 :: "io_event list \<Rightarrow> u16 \<Rightarrow> u32"

record platform =
  io_log :: "io_event list"
  con :: console

definition outb :: "u16 \<Rightarrow> u8 \<Rightarrow> platform \<Rightarrow> platform" where
  "outb port val p = p\<lparr>io_log := io_log p @ [Out8 port val]\<rparr>"

definition inb :: "device \<Rightarrow> u16 \<Rightarrow> platform \<Rightarrow> u8 \<times> platform" where
  "inb dev port p = (let v = dev8 dev (io_log p) port in (v, p\<lparr>io_log := io_log p @ [In8 port v]\<rparr>))"

definition outw :: "u16 \<Rightarrow> u16 \<Rightarrow> platform \<Rightarrow> platform" where
  "outw port val p = p\<lparr>io_log := io_log p @ [Out16 port val]\<rparr>"

definition inw :: "device \<Rightarrow> u16 \<Rightarrow> platform \<Rightarrow> u16 \<times> platform" where
  "inw dev port p = (let v = dev16 dev (io_log p) port in (v, p\<lparr>io_log := io_log p @ [In16 port v]\<rparr>))"

definition outl :: "u16 \<Rightarrow> u32 \<Rightarrow> platform \<Rightarrow> platform" where
  "outl port val p = p\<lparr>io_log := io_log p @ [Out32 port val]\<rparr>"

definition inl :: "device \<Rightarrow> u16 \<Rightarrow> platform \<Rightarrow> u32 \<times> platform" where
  "inl dev port p = (let v = dev32 dev (io_log p) port in (v, p\<lparr>io_log := io_log p @ [In32 port v]\<rparr>))"

definition io_wait :: "platform \<Rightarrow> platform" where
  "io_wait p = outb 0x80 0 p"

lemmas port_defs = outb_def inb_def outw_def inw_def outl_def inl_def io_wait_def

text \<open>A driver call on the screen.\<close>

definition on_con :: "(console \<Rightarrow> console outcome) \<Rightarrow> platform \<Rightarrow> platform outcome" where
  "on_con f p = obind (f (con p)) (\<lambda>c. Ret (p\<lparr>con := c\<rparr>))"

section \<open>Polling\<close>

text \<open>
  \<open>while (!done(inb(port))) {}\<close>. The loop need not end; then there is no result and the outcome of
  \<open>wait_until\<close> is \<open>Hang\<close>.
\<close>

partial_function (option) poll :: "device \<Rightarrow> u16 \<Rightarrow> (u8 \<Rightarrow> bool) \<Rightarrow> platform \<Rightarrow> platform option" where
  "poll dev port ready p =
     (case inb dev port p of (v, p1) \<Rightarrow> if ready v then Some p1 else poll dev port ready p1)"

declare poll.simps [code]

definition wait_until :: "device \<Rightarrow> u16 \<Rightarrow> (u8 \<Rightarrow> bool) \<Rightarrow> platform \<Rightarrow> platform outcome" where
  "wait_until dev port ready p = (case poll dev port ready p of None \<Rightarrow> Hang | Some p1 \<Rightarrow> Ret p1)"

text \<open>The platform after \<open>n\<close> reads of a port.\<close>

primrec polled :: "device \<Rightarrow> u16 \<Rightarrow> nat \<Rightarrow> platform \<Rightarrow> platform" where
  "polled dev port 0 p = p"
| "polled dev port (Suc n) p = polled dev port n (snd (inb dev port p))"

definition ready_after :: "device \<Rightarrow> u16 \<Rightarrow> (u8 \<Rightarrow> bool) \<Rightarrow> nat \<Rightarrow> platform \<Rightarrow> bool" where
  "ready_after dev port ready n p \<longleftrightarrow> ready (fst (inb dev port (polled dev port n p)))"

lemma poll_first_ready:
  assumes "ready_after dev port ready n p" and "\<And>k. k < n \<Longrightarrow> \<not> ready_after dev port ready k p"
  shows "poll dev port ready p = Some (polled dev port (Suc n) p)"
  using assms
proof (induction n arbitrary: p)
  case 0
  then show ?case by (subst poll.simps) (simp add: ready_after_def case_prod_beta)
next
  case (Suc n)
  have "\<not> ready_after dev port ready 0 p" using Suc.prems(2) by blast
  moreover have "poll dev port ready (snd (inb dev port p)) = Some (polled dev port (Suc n) (snd (inb dev port p)))"
  proof (rule Suc.IH)
    show "ready_after dev port ready n (snd (inb dev port p))"
      using Suc.prems(1) by (simp add: ready_after_def)
    show "\<not> ready_after dev port ready k (snd (inb dev port p))" if "k < n" for k
      using Suc.prems(2) [of "Suc k"] that by (simp add: ready_after_def)
  qed
  ultimately show ?case by (subst poll.simps) (simp add: ready_after_def case_prod_beta)
qed

lemma poll_result:
  assumes "poll dev port ready p = Some p'"
  shows "\<exists>n. ready_after dev port ready n p \<and> p' = polled dev port (Suc n) p"
  using assms
proof (induction rule: poll.raw_induct [rotated, consumes 1])
  case (1 poll dev port ready p p')
  show ?case
  proof (cases "ready (fst (inb dev port p))")
    case True
    with 1(2) show ?thesis by (intro exI [of _ 0]) (auto simp: ready_after_def split: prod.splits)
  next
    case False
    with 1(2) have "poll dev port ready (snd (inb dev port p)) = Some p'" by (auto split: prod.splits)
    from 1(1) [OF this] obtain n where "ready_after dev port ready n (snd (inb dev port p))"
        "p' = polled dev port (Suc n) (snd (inb dev port p))" by blast
    then show ?thesis by (intro exI [of _ "Suc n"]) (simp add: ready_after_def)
  qed
qed

text \<open>The loop ends exactly when the device becomes ready, after the first read that says so.\<close>

lemma wait_until_cases:
  obtains (ready) n where "wait_until dev port ready p = Ret (polled dev port (Suc n) p)"
      "ready_after dev port ready n p" "\<forall>k<n. \<not> ready_after dev port ready k p"
  | (never) "wait_until dev port ready p = Hang" "\<forall>n. \<not> ready_after dev port ready n p"
proof (cases "\<exists>n. ready_after dev port ready n p")
  case True
  then obtain n where n: "ready_after dev port ready n p" "\<forall>k<n. \<not> ready_after dev port ready k p"
    using LeastI_ex [of "\<lambda>n. ready_after dev port ready n p"] not_less_Least by blast
  then have "poll dev port ready p = Some (polled dev port (Suc n) p)"
    by (simp add: poll_first_ready)
  with n show ?thesis by (intro ready) (simp_all add: wait_until_def)
next
  case False
  then have "poll dev port ready p = None"
    using poll_result [of dev port ready p] by (cases "poll dev port ready p") blast+
  with False show ?thesis by (intro never) (simp_all add: wait_until_def)
qed

text \<open>What a driver wrote to the ports.\<close>

fun is_write :: "io_event \<Rightarrow> bool" where
  "is_write (Out8 _ _) = True"
| "is_write (Out16 _ _) = True"
| "is_write (Out32 _ _) = True"
| "is_write _ = False"

definition writes :: "platform \<Rightarrow> io_event list" where
  "writes p = filter is_write (io_log p)"

lemma writes_simps [simp]:
  "writes (outb port v p) = writes p @ [Out8 port v]"
  "writes (outw port x p) = writes p @ [Out16 port x]"
  "writes (outl port y p) = writes p @ [Out32 port y]"
  "writes (snd (inb dev port p)) = writes p"
  "writes (snd (inw dev port p)) = writes p"
  "writes (snd (inl dev port p)) = writes p"
  "writes (p\<lparr>con := c\<rparr>) = writes p"
  by (simp_all add: writes_def port_defs Let_def)

lemma con_simps [simp]:
  "con (outb port v p) = con p" "con (outw port x p) = con p" "con (outl port y p) = con p"
  "con (snd (inb dev port p)) = con p" "con (snd (inw dev port p)) = con p" "con (snd (inl dev port p)) = con p"
  by (simp_all add: port_defs Let_def)

lemma polled_simps [simp]: "writes (polled dev port n p) = writes p" "con (polled dev port n p) = con p"
  by (induction n arbitrary: p) simp_all

section \<open>Messages\<close>

definition say :: "rstr \<Rightarrow> platform \<Rightarrow> platform outcome" where
  "say msg = on_con (print msg)"

definition paint :: "color \<Rightarrow> color \<Rightarrow> platform \<Rightarrow> platform" where
  "paint fg bg p = p\<lparr>con := set_color fg bg (con p)\<rparr>"

abbreviation newline :: rstr where "newline \<equiv> [10]"

text \<open>A line in a colour, then white again.\<close>

definition announce :: "color \<Rightarrow> rstr \<Rightarrow> platform \<Rightarrow> platform outcome" where
  "announce c msg p = obind (say msg (paint c Black p)) (\<lambda>p1. Ret (paint White Black p1))"

lemma paint_simps [simp]: "writes (paint fg bg p) = writes p" "io_log (paint fg bg p) = io_log p"
    "cursor_shown (con (paint fg bg p)) = cursor_shown (con p)"
  by (simp_all add: paint_def writes_def set_color_def cursor_shown_def console_ok_def hw_cursor_def)

lemma say_returns:
  assumes "cursor_shown (con p)"
  shows "\<exists>p'. say msg p = Ret p' \<and> io_log p' = io_log p \<and> cursor_shown (con p')"
  using print_shown [OF assms, of msg] by (auto simp: say_def on_con_def)

lemma announce_returns:
  assumes "cursor_shown (con p)"
  shows "\<exists>p'. announce c msg p = Ret p' \<and> io_log p' = io_log p \<and> cursor_shown (con p')"
  using say_returns [of "paint c Black p" msg] assms by (auto simp: announce_def)

text \<open>An action that only draws on the screen returns and keeps the cursor in place.\<close>

definition screen_only :: "(platform \<Rightarrow> platform outcome) \<Rightarrow> bool" where
  "screen_only act \<longleftrightarrow> (\<forall>p. cursor_shown (con p) \<longrightarrow>
     (\<exists>p'. act p = Ret p' \<and> io_log p' = io_log p \<and> cursor_shown (con p')))"

lemma screen_only_bind: "screen_only a \<Longrightarrow> screen_only b \<Longrightarrow> screen_only (\<lambda>p. obind (a p) b)"
  unfolding screen_only_def by fastforce

lemma screen_only_say: "screen_only (say msg)"
  unfolding screen_only_def using say_returns by blast

lemma screen_only_con_exec: "screen_only (on_con (con_exec op))"
  unfolding screen_only_def
proof (intro allI impI)
  fix p :: platform
  assume "cursor_shown (con p)"
  then obtain c where "con_exec op (con p) = Ret c" "cursor_shown c" using con_exec_shown by blast
  then show "\<exists>p'. on_con (con_exec op) p = Ret p' \<and> io_log p' = io_log p \<and> cursor_shown (con p')"
    by (simp add: on_con_def)
qed

lemma screen_only_hex: "screen_only (on_con (print_hex v))"
  using screen_only_con_exec [of "Print_hex v"] by (simp add: screen_only_def on_con_def)

lemma screen_only_dec: "screen_only (on_con (print_dec v))"
  using screen_only_con_exec [of "Print_dec v"] by (simp add: screen_only_def on_con_def)

lemma screen_only_paint: "screen_only (\<lambda>p. Ret (paint fg bg p))"
  by (simp add: screen_only_def)

lemma screen_only_painted: "screen_only act \<Longrightarrow> screen_only (\<lambda>p. act (paint fg bg p))"
  unfolding screen_only_def by (metis paint_simps(2,3))

lemma screen_only_announce: "screen_only (announce c msg)"
  unfolding screen_only_def using announce_returns by blast

lemmas screen_only_intros = screen_only_bind screen_only_say screen_only_hex screen_only_dec
  screen_only_paint screen_only_announce screen_only_painted

lemma screen_only_hang:
  assumes "screen_only a" and "cursor_shown (con p)" and "\<And>p. cursor_shown (con p) \<Longrightarrow> b p = Hang"
  shows "obind (a p) b = Hang"
  using assms unfolding screen_only_def by fastforce

section \<open>What is printed\<close>

text \<open>An action prints a text when it returns and leaves the screen that printing the text leaves.\<close>

definition prints :: "(platform \<Rightarrow> platform outcome) \<Rightarrow> rstr \<Rightarrow> bool" where
  "prints act t \<longleftrightarrow> (\<forall>p. cursor_shown (con p) \<longrightarrow> (\<exists>p'. act p = Ret p' \<and> print t (con p) = Ret (con p')))"

lemma print_append: "print (s @ t) c = obind (print s c) (print t)"
  by (simp add: print_def ofold_append)

lemma print_keeps_shown: "cursor_shown c \<Longrightarrow> print t c = Ret c' \<Longrightarrow> cursor_shown c'"
  using print_shown [of c t] by auto

lemma prints_bind:
  assumes "prints a s" and "prints b t"
  shows "prints (\<lambda>p. obind (a p) b) (s @ t)"
  unfolding prints_def
proof (intro allI impI)
  fix p :: platform
  assume shown: "cursor_shown (con p)"
  obtain p1 where p1: "a p = Ret p1" "print s (con p) = Ret (con p1)"
    using assms(1) shown unfolding prints_def by blast
  then obtain p2 where "b p1 = Ret p2" "print t (con p1) = Ret (con p2)"
    using assms(2) print_keeps_shown [OF shown] unfolding prints_def by blast
  with p1 show "\<exists>p'. obind (a p) b = Ret p' \<and> print (s @ t) (con p) = Ret (con p')"
    by (simp add: print_append)
qed

lemma prints_Ret: "prints Ret []"
  by (simp add: prints_def print_def)

lemma prints_ofold: "(\<And>x. x \<in> set xs \<Longrightarrow> prints (f x) (t x)) \<Longrightarrow> prints (ofold f xs) (concat (map t xs))"
proof (induction xs)
  case Nil
  then show ?case using prints_Ret by (simp add: prints_def)
next
  case (Cons x xs)
  then have "prints (\<lambda>p. obind (f x p) (ofold f xs)) (t x @ concat (map t xs))"
    by (intro prints_bind) simp_all
  then show ?case by (simp add: prints_def)
qed

lemma prints_on_con: "(\<And>c. f c = print t c) \<Longrightarrow> prints (on_con f) t"
proof -
  assume "\<And>c. f c = print t c"
  then have "f = print t" by (simp add: fun_eq_iff)
  show ?thesis
    unfolding prints_def
  proof (intro allI impI)
    fix p :: platform
    assume "cursor_shown (con p)"
    then obtain c where "print t (con p) = Ret c" using print_shown by blast
    with \<open>f = print t\<close> show "\<exists>p'. on_con f p = Ret p' \<and> print t (con p) = Ret (con p')"
      by (intro exI [of _ "p\<lparr>con := c\<rparr>"]) (simp add: on_con_def)
  qed
qed

lemma prints_say: "prints (say t) t"
  unfolding say_def by (rule prints_on_con) (rule refl)

definition dec_text :: "u64 \<Rightarrow> rstr" where
  "dec_text v = (if v = 0 then [48] else case dec_loop [] v of Ret ds \<Rightarrow> rev ds | _ \<Rightarrow> [])"

definition hex_text :: "u64 \<Rightarrow> rstr" where
  "hex_text v = lit ''0x'' @ hex_loop v False (map (\<lambda>i. 60 - 4 * i) [0..<16])"

lemma prints_dec: "prints (on_con (print_dec v)) (dec_text v)"
proof (rule prints_on_con)
  fix c
  obtain ds where "dec_loop [] v = Ret ds"
    using dec_loop_digits [of v 20 "[]"] unat_u64_less [of v] by auto
  then show "print_dec v c = print (dec_text v) c"
    by (simp add: print_dec_def dec_text_def print_def cong: obind_cong)
qed

lemma prints_hex: "prints (on_con (print_hex v)) (hex_text v)"
  by (rule prints_on_con) (simp add: print_hex_def hex_text_def)

lemma prints_read:
  assumes "\<And>p. fst (r p) = v" and "\<And>p. con (snd (r p)) = con p" and "prints (f v) t"
  shows "prints (\<lambda>p. case r p of (x, p1) \<Rightarrow> f x p1) t"
  using assms unfolding prints_def case_prod_beta by metis

section \<open>The interrupt controller\<close>

definition pic_init :: "device \<Rightarrow> platform \<Rightarrow> platform outcome" where
  "pic_init dev p =
     (case inb dev 0x21 p of (mask1, p) \<Rightarrow>
      case inb dev 0xA1 p of (mask2, p) \<Rightarrow>
      let p = io_wait (outb 0x20 0x11 p);
          p = io_wait (outb 0xA0 0x11 p);
          p = io_wait (outb 0x21 0x20 p);
          p = io_wait (outb 0xA1 0x28 p);
          p = io_wait (outb 0x21 0x04 p);
          p = io_wait (outb 0xA1 0x02 p);
          p = io_wait (outb 0x21 0x01 p);
          p = io_wait (outb 0xA1 0x01 p);
          p = outb 0xA1 mask2 (outb 0x21 mask1 p)
      in announce Green (lit ''[PIC] 8259A initialized -- IRQs remapped.'' @ newline) p)"

definition set_master_mask :: "u8 \<Rightarrow> platform \<Rightarrow> platform" where
  "set_master_mask m p = outb 0x21 m p"

definition set_slave_mask :: "u8 \<Rightarrow> platform \<Rightarrow> platform" where
  "set_slave_mask m p = outb 0xA1 m p"

definition eoi_master :: "platform \<Rightarrow> platform" where
  "eoi_master p = outb 0x20 0x20 p"

definition eoi_slave :: "platform \<Rightarrow> platform" where
  "eoi_slave p = outb 0x20 0x20 (outb 0xA0 0x20 p)"

text \<open>
  The 8259A as its data sheet has it: a command byte with bit 4 starts the initialization and clears
  the mask; the next bytes on the data port are ICW2 (the vector base), ICW3 (the cascade, unless
  ICW1 says single) and ICW4 (if ICW1 asks for it); after that a byte on the data port is the mask.
\<close>

record pic8259 =
  pic_icw1 :: u8
  pic_step :: nat
  pic_base :: u8
  pic_cascade :: u8
  pic_mode :: u8
  pic_imr :: u8

definition pic_command :: "u8 \<Rightarrow> pic8259 \<Rightarrow> pic8259" where
  "pic_command v s = (if bit v 4 then s\<lparr>pic_icw1 := v, pic_imr := 0, pic_step := 2\<rparr> else s)"

definition pic_data :: "u8 \<Rightarrow> pic8259 \<Rightarrow> pic8259" where
  "pic_data v s =
     (let last_icw = (if bit (pic_icw1 s) 0 then 4 else 0)
      in if pic_step s = 2 then s\<lparr>pic_base := v AND 0xF8, pic_step := if bit (pic_icw1 s) 1 then last_icw else 3\<rparr>
         else if pic_step s = 3 then s\<lparr>pic_cascade := v, pic_step := last_icw\<rparr>
         else if pic_step s = 4 then s\<lparr>pic_mode := v, pic_step := 0\<rparr>
         else s\<lparr>pic_imr := v\<rparr>)"

fun pic_event :: "u16 \<Rightarrow> io_event \<Rightarrow> pic8259 \<Rightarrow> pic8259" where
  "pic_event port (Out8 q v) s =
     (if q = port then pic_command v s else if q = port + 1 then pic_data v s else s)"
| "pic_event port _ s = s"

text \<open>The controller at a port after a history; an interrupt line is delivered when it is not masked.\<close>

definition pic_after :: "u16 \<Rightarrow> io_event list \<Rightarrow> pic8259 \<Rightarrow> pic8259" where
  "pic_after port log = fold (pic_event port) log"

definition delivers :: "pic8259 \<Rightarrow> nat \<Rightarrow> bool" where
  "delivers s n \<longleftrightarrow> pic_step s = 0 \<and> \<not> bit (pic_imr s) n"

definition pic_vector :: "pic8259 \<Rightarrow> nat \<Rightarrow> u8" where
  "pic_vector s n = pic_base s + of_nat n"

text \<open>The port accesses of \<open>pic_init\<close> and their effect on the two controllers.\<close>

definition pic_init_log :: "u8 \<Rightarrow> u8 \<Rightarrow> io_event list" where
  "pic_init_log m1 m2 =
    [In8 0x21 m1, In8 0xA1 m2, Out8 0x20 0x11, Out8 0x80 0, Out8 0xA0 0x11, Out8 0x80 0,
     Out8 0x21 0x20, Out8 0x80 0, Out8 0xA1 0x28, Out8 0x80 0, Out8 0x21 0x04, Out8 0x80 0,
     Out8 0xA1 0x02, Out8 0x80 0, Out8 0x21 0x01, Out8 0x80 0, Out8 0xA1 0x01, Out8 0x80 0, Out8 0x21 m1, Out8 0xA1 m2]"

lemma pic_init_effect:
  "pic_after 0x20 (pic_init_log m1 m2) m = m\<lparr>pic_icw1 := 0x11, pic_step := 0, pic_base := 0x20, pic_cascade := 4,
      pic_mode := 1, pic_imr := m1\<rparr>"
  "pic_after 0xA0 (pic_init_log m1 m2) s = s\<lparr>pic_icw1 := 0x11, pic_step := 0, pic_base := 0x28, pic_cascade := 2,
      pic_mode := 1, pic_imr := m2\<rparr>"
  by (simp_all add: pic_init_log_def pic_after_def pic_command_def pic_data_def Let_def bit_simps)

lemma pic_init_run:
  fixes dev :: device
  assumes "cursor_shown (con p)"
  defines "m1 \<equiv> dev8 dev (io_log p) 0x21"
  defines "m2 \<equiv> dev8 dev (io_log p @ [In8 0x21 m1]) 0xA1"
  shows "\<exists>p'. pic_init dev p = Ret p' \<and> io_log p' = io_log p @ pic_init_log m1 m2 \<and> cursor_shown (con p')"
proof -
  have "pic_init dev p = announce Green (lit ''[PIC] 8259A initialized -- IRQs remapped.'' @ newline)
      (p\<lparr>io_log := io_log p @ pic_init_log m1 m2\<rparr>)"
    by (simp add: pic_init_def port_defs Let_def m1_def m2_def pic_init_log_def)
  then show ?thesis
    using announce_returns [of "p\<lparr>io_log := io_log p @ pic_init_log m1 m2\<rparr>"] assms(1) by auto
qed

text \<open>Only the writes matter to the interrupt controller.\<close>

lemma pic_event_read [simp]: "\<not> is_write e \<Longrightarrow> pic_event port e s = s"
  by (cases e) auto

lemma pic_after_writes: "pic_after port log s = pic_after port (filter is_write log) s"
  by (induction log arbitrary: s) (simp_all add: pic_after_def)

lemma pic_after_append: "pic_after port (l1 @ l2) s = pic_after port l2 (pic_after port l1 s)"
  by (simp add: pic_after_def)

lemma pic_after_log: "pic_after port (io_log p) s = pic_after port (writes p) s"
  unfolding writes_def by (rule pic_after_writes)

definition pic_demo :: pic8259 where
  "pic_demo = \<lparr>pic_icw1 = 0, pic_step = 3, pic_base = 8, pic_cascade = 0, pic_mode = 0, pic_imr = 0\<rparr>"

text \<open>
  \<open>pic_init\<close> programs the two controllers as intended, from any state they may be in: the
  initialization is complete, lines 0 to 7 of the master come in as vectors 0x20 to 0x27 and those of
  the slave as 0x28 to 0x2F, the slave sits on line 2, and both masks are what was read at the start.
\<close>

theorem pic_init_remaps:
  assumes "cursor_shown (con p)"
  shows "\<exists>p' log. pic_init dev p = Ret p' \<and> io_log p' = io_log p @ log \<and> cursor_shown (con p')
    \<and> (let master = pic_after 0x20 log m; slave = pic_after 0xA0 log s
       in pic_step master = 0 \<and> pic_step slave = 0
          \<and> (\<forall>n<8. pic_vector master n = 0x20 + of_nat n \<and> pic_vector slave n = 0x28 + of_nat n)
          \<and> pic_cascade master = 0x04 \<and> pic_cascade slave = 0x02 \<and> pic_mode master = 1 \<and> pic_mode slave = 1
          \<and> pic_imr master = dev8 dev (io_log p) 0x21
          \<and> pic_imr slave = dev8 dev (io_log p @ [In8 0x21 (dev8 dev (io_log p) 0x21)]) 0xA1)"
proof -
  let ?m1 = "dev8 dev (io_log p) 0x21"
  let ?m2 = "dev8 dev (io_log p @ [In8 0x21 ?m1]) 0xA1"
  obtain p' where "pic_init dev p = Ret p'" "io_log p' = io_log p @ pic_init_log ?m1 ?m2" "cursor_shown (con p')"
    using pic_init_run [OF assms] by blast
  then show ?thesis
    by (intro exI [of _ p'] exI [of _ "pic_init_log ?m1 ?m2"]) (simp add: pic_vector_def pic_init_effect)
qed

definition platform_demo :: platform where
  "platform_demo = \<lparr>io_log = [], con = console_demo\<rparr>"

definition quiet_device :: device where
  "quiet_device = \<lparr>dev8 = \<lambda>_ _. 0xFF, dev16 = \<lambda>_ _. 0xFFFF, dev32 = \<lambda>_ _. 0xFFFFFFFF\<rparr>"

lemma platform_demo_shown [simp]: "cursor_shown (con platform_demo)"
  by (simp add: platform_demo_def console_demo_def cursor_shown_def console_ok_def hw_cursor_def)

theorem pic_init_remaps_witness:
  "\<exists>p' log. pic_init quiet_device platform_demo = Ret p' \<and> io_log p' = io_log platform_demo @ log \<and> cursor_shown (con p')
    \<and> (let master = pic_after 0x20 log \<lparr>pic_icw1 = 0, pic_step = 3, pic_base = 8, pic_cascade = 0, pic_mode = 0, pic_imr = 0\<rparr>;
           slave = pic_after 0xA0 log \<lparr>pic_icw1 = 0, pic_step = 0, pic_base = 0x70, pic_cascade = 0, pic_mode = 0, pic_imr = 0\<rparr>
       in pic_step master = 0 \<and> pic_step slave = 0
          \<and> (\<forall>n<8. pic_vector master n = 0x20 + of_nat n \<and> pic_vector slave n = 0x28 + of_nat n)
          \<and> pic_cascade master = 0x04 \<and> pic_cascade slave = 0x02 \<and> pic_mode master = 1 \<and> pic_mode slave = 1
          \<and> pic_imr master = dev8 quiet_device (io_log platform_demo) 0x21
          \<and> pic_imr slave = dev8 quiet_device (io_log platform_demo @ [In8 0x21 (dev8 quiet_device (io_log platform_demo) 0x21)]) 0xA1)"
  by (rule pic_init_remaps) simp

section \<open>The serial line\<close>

abbreviation COM1 :: u16 where "COM1 \<equiv> 0x3F8"

definition serial_init :: "platform \<Rightarrow> platform outcome" where
  "serial_init p =
     (let p = outb (COM1 + 1) 0x00 p;
          p = outb (COM1 + 3) 0x80 p;
          p = outb (COM1 + 0) 0x03 p;
          p = outb (COM1 + 1) 0x00 p;
          p = outb (COM1 + 3) 0x03 p;
          p = outb (COM1 + 2) 0xC7 p;
          p = outb (COM1 + 4) 0x0B p
      in say (lit ''[SERIAL] COM1 initialized at 38400 baud.'' @ newline) p)"

definition serial_print :: "device \<Rightarrow> bytes \<Rightarrow> platform \<Rightarrow> platform outcome" where
  "serial_print dev msg =
     ofold (\<lambda>c p. obind (wait_until dev (COM1 + 5) (\<lambda>v. v AND 0x20 \<noteq> 0) p) (\<lambda>p1. Ret (outb (COM1 + 0) c p1))) msg"

definition serial_read :: "device \<Rightarrow> platform \<Rightarrow> u8 option \<times> platform" where
  "serial_read dev p =
     (case inb dev (COM1 + 5) p of (v, p1) \<Rightarrow>
      if v AND 0x01 \<noteq> 0 then (case inb dev (COM1 + 0) p1 of (c, p2) \<Rightarrow> (Some c, p2)) else (None, p1))"

text \<open>A line whose transmitter empties again and again.\<close>

definition transmits :: "device \<Rightarrow> bool" where
  "transmits dev \<longleftrightarrow> (\<forall>p. \<exists>n. ready_after dev (COM1 + 5) (\<lambda>v. v AND 0x20 \<noteq> 0) n p)"

lemma wait_until_returns:
  assumes "\<exists>n. ready_after dev port ready n p"
  shows "\<exists>p'. wait_until dev port ready p = Ret p' \<and> writes p' = writes p \<and> con p' = con p"
  using assms by (cases rule: wait_until_cases [of dev port ready p]) auto

text \<open>
  \<open>serial_print\<close> sends exactly the bytes of the message, in order, and returns, on every line
  whose transmitter always becomes empty again; on a line that is never ready it never returns, so
  that a missing serial port stops the caller.
\<close>

theorem serial_print_exact:
  "(transmits dev \<longrightarrow> (\<exists>p'. serial_print dev msg p = Ret p' \<and> writes p' = writes p @ map (Out8 COM1) msg))
   \<and> (msg \<noteq> [] \<and> (\<forall>n. \<not> ready_after dev (COM1 + 5) (\<lambda>v. v AND 0x20 \<noteq> 0) n p) \<longrightarrow> serial_print dev msg p = Hang)"
proof (intro conjI impI)
  assume dev: "transmits dev"
  show "\<exists>p'. serial_print dev msg p = Ret p' \<and> writes p' = writes p @ map (Out8 COM1) msg"
  proof (induction msg arbitrary: p)
    case (Cons c msg)
    obtain p1 where "wait_until dev (COM1 + 5) (\<lambda>v. v AND 0x20 \<noteq> 0) p = Ret p1" "writes p1 = writes p"
      using wait_until_returns dev unfolding transmits_def by meson
    with Cons.IH [of "outb (COM1 + 0) c p1"] show ?case by (simp add: serial_print_def)
  qed (simp add: serial_print_def)
next
  assume "msg \<noteq> [] \<and> (\<forall>n. \<not> ready_after dev (COM1 + 5) (\<lambda>v. v AND 0x20 \<noteq> 0) n p)"
  then show "serial_print dev msg p = Hang"
    by (cases msg; cases rule: wait_until_cases [of dev "COM1 + 5" "\<lambda>v. v AND 0x20 \<noteq> 0" p])
      (auto simp: serial_print_def)
qed

theorem serial_print_exact_witness:
  "transmits quiet_device
   \<and> (\<exists>p'. serial_print quiet_device (lit ''ok'') platform_demo = Ret p' \<and> writes p' = [Out8 COM1 111, Out8 COM1 107])
   \<and> serial_print (quiet_device\<lparr>dev8 := \<lambda>_ _. 0\<rparr>) (lit ''ok'') platform_demo = Hang"
proof (intro conjI)
  show tr: "transmits quiet_device"
    by (simp add: transmits_def ready_after_def inb_def quiet_device_def Let_def)
  then show "\<exists>p'. serial_print quiet_device (lit ''ok'') platform_demo = Ret p' \<and> writes p' = [Out8 COM1 111, Out8 COM1 107]"
    using serial_print_exact [of quiet_device "lit ''ok''" platform_demo] by (simp add: lit_def platform_demo_def writes_def)
  show "serial_print (quiet_device\<lparr>dev8 := \<lambda>_ _. 0\<rparr>) (lit ''ok'') platform_demo = Hang"
    using serial_print_exact [of "quiet_device\<lparr>dev8 := \<lambda>_ _. 0\<rparr>" "lit ''ok''" platform_demo]
    by (simp add: lit_def ready_after_def inb_def Let_def)
qed

end
