(* ===== verification/Keyboard.thy ===== *)
theory Keyboard
  imports Ports Fifo
begin

text \<open>
  The PS/2 keyboard of \<open>drivers/keyboard.zig\<close>: the ring of 256 bytes that the interrupt handler
  fills and the shell empties, the scancode tables, the interrupt handler and the initialization.
  The ring is an instance of the locale \<open>guarded_fifo\<close>, of capacity 255.
\<close>

section \<open>State and ring\<close>

record keyboard =
  ring_buf :: bytes
  ring_head :: nat
  ring_tail :: nat
  shift_pressed :: bool
  ctrl_pressed :: bool
  alt_pressed :: bool
  caps_lock :: bool
  debug_kb_count :: u8

abbreviation RING_BUF_SIZE :: nat where "RING_BUF_SIZE \<equiv> 256"

text \<open>Indexing the ring buffer is checked.\<close>

definition ring_put :: "u8 \<Rightarrow> keyboard \<Rightarrow> keyboard outcome" where
  "ring_put c kb =
     (let head = ring_head kb; tail = ring_tail kb; nxt = (head + 1) mod RING_BUF_SIZE
      in if nxt \<noteq> tail
         then if head < length (ring_buf kb)
              then Ret (kb\<lparr>ring_buf := (ring_buf kb)[head := c], ring_head := nxt\<rparr>) else Panic
         else Ret kb)"

definition read_key :: "keyboard \<Rightarrow> (u8 option \<times> keyboard) outcome" where
  "read_key kb =
     (let head = ring_head kb; tail = ring_tail kb
      in if head = tail then Ret (None, kb)
         else obind (index (ring_buf kb) tail) (\<lambda>c.
              Ret (Some c, kb\<lparr>ring_tail := (tail + 1) mod RING_BUF_SIZE\<rparr>)))"

text \<open>
  \<open>read_key\<close> runs with interrupts enabled: between its four accesses to the ring the interrupt
  handler may add keys, here the keys \<open>cs1\<close> after the load of the head, \<open>cs2\<close> after the load of the
  tail and \<open>cs3\<close> after the load of the byte.
\<close>

definition read_key_interrupted ::
  "u8 list \<Rightarrow> u8 list \<Rightarrow> u8 list \<Rightarrow> keyboard \<Rightarrow> (u8 option \<times> keyboard) outcome" where
  "read_key_interrupted cs1 cs2 cs3 kb =
     (let head = ring_head kb in
      obind (ofold ring_put cs1 kb) (\<lambda>kb1.
      let tail = ring_tail kb1 in
      obind (ofold ring_put cs2 kb1) (\<lambda>kb2.
      if head = tail then Ret (None, kb2)
      else obind (index (ring_buf kb2) tail) (\<lambda>c.
           obind (ofold ring_put cs3 kb2) (\<lambda>kb3.
           Ret (Some c, kb3\<lparr>ring_tail := (tail + 1) mod RING_BUF_SIZE\<rparr>))))))"

section \<open>Scancodes\<close>

text \<open>The tables, filled by runs of neighbouring scancodes.\<close>

definition fill_table :: "(nat \<times> rstr) list \<Rightarrow> bytes" where
  "fill_table runs = fold (\<lambda>(code, chars) t. overwrite t code chars) runs (replicate 128 0)"

definition SCANCODE_NORMAL :: bytes where
  "SCANCODE_NORMAL = fill_table
     [(0x01, [0x1B]), (0x02, lit ''1234567890-=''), (0x0E, [8, 9]), (0x10, lit ''qwertyuiop[]''), (0x1C, [10]),
      (0x1E, lit ''asdfghjkl;''), (0x28, [39, 96]), (0x2B, [92]), (0x2C, lit ''zxcvbnm,./''), (0x39, [32])]"

definition SCANCODE_SHIFT :: bytes where
  "SCANCODE_SHIFT = fill_table
     [(0x02, lit ''!@#$%^&*()_+''), (0x0E, [8, 9]), (0x10, lit ''QWERTYUIOP{}''), (0x1C, [10]),
      (0x1E, lit ''ASDFGHJKL:''), (0x28, [34, 126]), (0x2B, [124]), (0x2C, lit ''ZXCVBNM<>?''), (0x39, [32])]"

definition key_char :: "keyboard \<Rightarrow> u8 \<Rightarrow> u8" where
  "key_char kb code =
     (let ch = (if shift_pressed kb then SCANCODE_SHIFT ! unat code else SCANCODE_NORMAL ! unat code);
          ch = (if caps_lock kb \<and> 97 \<le> ch \<and> ch \<le> 122 then ch - 32 else ch);
          ch = (if caps_lock kb \<and> 65 \<le> ch \<and> ch \<le> 90 then ch + 32 else ch)
      in ch)"

section \<open>Interrupts and initialization\<close>

definition wait_write :: "device \<Rightarrow> platform \<Rightarrow> platform outcome" where
  "wait_write dev = wait_until dev 0x64 (\<lambda>v. v AND 0x02 = 0)"

definition wait_read :: "device \<Rightarrow> platform \<Rightarrow> platform outcome" where
  "wait_read dev = wait_until dev 0x64 (\<lambda>v. v AND 0x01 \<noteq> 0)"

definition cell :: "nat \<Rightarrow> u8 \<Rightarrow> u8 \<Rightarrow> platform \<Rightarrow> platform outcome" where
  "cell col ch attr = on_con (put_char_at col 0 ch attr)"

text \<open>The spinner and the scancode that the handler shows at the top right.\<close>

definition show_scancode :: "u8 \<Rightarrow> platform \<Rightarrow> platform outcome" where
  "show_scancode scancode p =
     obind (cell 70 83 0x0C p) (\<lambda>p.
     obind (cell 71 58 0x0C p) (\<lambda>p.
     obind (cell 72 (hex_digit (drop_bit 4 scancode AND 0xF)) 0x0C p) (\<lambda>p.
     cell 73 (hex_digit (scancode AND 0xF)) 0x0C p)))"

definition handle_keyboard_interrupt ::
  "device \<Rightarrow> keyboard \<times> platform \<Rightarrow> (keyboard \<times> platform) outcome" where
  "handle_keyboard_interrupt dev = (\<lambda>(kb, p).
     let kb = kb\<lparr>debug_kb_count := debug_kb_count kb + 1\<rparr> in
     obind (cell 79 ([124, 47, 45, 92] ! unat (debug_kb_count kb mod 4)) 0x0E p) (\<lambda>p.
     case inb dev 0x60 p of (scancode, p) \<Rightarrow>
     obind (show_scancode scancode p) (\<lambda>p.
     if scancode = 0xE0 then Ret (kb, eoi_master p)
     else let is_release = (scancode AND 0x80 \<noteq> 0); code = scancode AND 0x7F
          in if code = 0x2A \<or> code = 0x36 then Ret (kb\<lparr>shift_pressed := \<not> is_release\<rparr>, eoi_master p)
             else if code = 0x1D then Ret (kb\<lparr>ctrl_pressed := \<not> is_release\<rparr>, eoi_master p)
             else if code = 0x38 then Ret (kb\<lparr>alt_pressed := \<not> is_release\<rparr>, eoi_master p)
             else if code = 0x3A \<and> \<not> is_release then
               let kb = kb\<lparr>caps_lock := \<not> caps_lock kb\<rparr> in
               obind (wait_write dev p) (\<lambda>p.
               obind (wait_write dev (outb 0x64 0xED p)) (\<lambda>p.
               Ret (kb, eoi_master (outb 0x60 (if caps_lock kb then 4 else 0) p))))
             else if is_release then Ret (kb, eoi_master p)
             else let ch = key_char kb code in
               obind (if ch \<noteq> 0 then ring_put ch kb else Ret kb) (\<lambda>kb.
               Ret (kb, eoi_master p)))))"

definition keyboard_init :: "device \<Rightarrow> keyboard \<times> platform \<Rightarrow> (keyboard \<times> platform) outcome" where
  "keyboard_init dev = (\<lambda>(kb, p).
     let kb = kb\<lparr>shift_pressed := False, ctrl_pressed := False, alt_pressed := False, caps_lock := False,
                 ring_head := 0, ring_tail := 0\<rparr> in
     obind (wait_write dev p) (\<lambda>p.
     obind (wait_write dev (outb 0x64 0xAE p)) (\<lambda>p.
     obind (wait_read dev (outb 0x64 0x20 p)) (\<lambda>p.
     case inb dev 0x60 p of (cmd_byte, p) \<Rightarrow>
     obind (wait_write dev p) (\<lambda>p.
     obind (wait_write dev (outb 0x64 0x60 p)) (\<lambda>p.
     let p = outb 0x60 (cmd_byte OR 0x01) p;
         p = set_slave_mask 0xFF (set_master_mask 0xFD p)
     in obind (announce Green (lit ''[KB] PS/2 keyboard initialized -- IRQ1 active.'' @ newline) p) (\<lambda>p.
        Ret (kb, p))))))))"

section \<open>The ring is a queue\<close>

definition ring_ok :: "keyboard \<Rightarrow> bool" where
  "ring_ok kb \<longleftrightarrow> length (ring_buf kb) = RING_BUF_SIZE \<and> ring_head kb < RING_BUF_SIZE \<and> ring_tail kb < RING_BUF_SIZE"

text \<open>The keys that wait, the oldest first.\<close>

definition ring_count :: "keyboard \<Rightarrow> nat" where
  "ring_count kb = (ring_head kb + RING_BUF_SIZE - ring_tail kb) mod RING_BUF_SIZE"

definition keys :: "keyboard \<Rightarrow> u8 list" where
  "keys kb = map (\<lambda>i. ring_buf kb ! ((ring_tail kb + i) mod RING_BUF_SIZE)) [0..<ring_count kb]"

definition put_key :: "keyboard \<Rightarrow> u8 \<Rightarrow> keyboard" where
  "put_key kb c = (case ring_put c kb of Ret kb' \<Rightarrow> kb' | _ \<Rightarrow> kb)"

definition get_key :: "keyboard \<Rightarrow> u8 option \<times> keyboard" where
  "get_key kb = (case read_key kb of Ret r \<Rightarrow> r | _ \<Rightarrow> (None, kb))"

lemma ring_put_Ret: "ring_ok kb \<Longrightarrow> ring_put c kb = Ret (put_key kb c)"
  by (simp add: ring_ok_def put_key_def ring_put_def Let_def)

lemma read_key_Ret: "ring_ok kb \<Longrightarrow> read_key kb = Ret (get_key kb)"
  by (simp add: ring_ok_def get_key_def read_key_def index_def Let_def)

lemma put_key_eq:
  "ring_ok kb \<Longrightarrow> put_key kb c =
    (if (ring_head kb + 1) mod RING_BUF_SIZE = ring_tail kb then kb
     else kb\<lparr>ring_buf := (ring_buf kb)[ring_head kb := c], ring_head := (ring_head kb + 1) mod RING_BUF_SIZE\<rparr>)"
  by (simp add: ring_ok_def put_key_def ring_put_def Let_def)

lemma get_key_eq:
  "ring_ok kb \<Longrightarrow> get_key kb =
    (if ring_head kb = ring_tail kb then (None, kb)
     else (Some (ring_buf kb ! ring_tail kb), kb\<lparr>ring_tail := (ring_tail kb + 1) mod RING_BUF_SIZE\<rparr>))"
  by (simp add: ring_ok_def get_key_def read_key_def index_def Let_def)

text \<open>Arithmetic of the two indices.\<close>

lemma ring_count_cases:
  assumes "ring_ok kb"
  shows "ring_count kb = (if ring_tail kb \<le> ring_head kb then ring_head kb - ring_tail kb
    else ring_head kb + 256 - ring_tail kb)"
  using assms by (auto simp: ring_count_def ring_ok_def mod_if)

lemma succ_mod_cases: "(n + 1) mod RING_BUF_SIZE = (if n = 255 then 0 else n + 1)" if "n < RING_BUF_SIZE"
  using that by auto

lemma mod_ring: "n < 2 * RING_BUF_SIZE \<Longrightarrow> n mod RING_BUF_SIZE = (if n < RING_BUF_SIZE then n else n - RING_BUF_SIZE)"
  using le_mod_geq [of 256 n] by auto

lemma ring_slot:
  assumes "ring_ok kb" and "i < ring_count kb"
  shows "(ring_tail kb + i) mod RING_BUF_SIZE \<noteq> ring_head kb"
proof -
  have "i < 256" "ring_tail kb < 256" "ring_head kb < 256"
    using assms by (auto simp: ring_count_cases ring_ok_def split: if_splits)
  with assms show ?thesis
    unfolding ring_count_cases [OF assms(1)] by (auto simp: mod_ring split: if_splits)
qed

lemma ring_last: "ring_ok kb \<Longrightarrow> (ring_tail kb + ring_count kb) mod RING_BUF_SIZE = ring_head kb"
  by (auto simp: ring_count_cases ring_ok_def mod_if)

lemma ring_full: "ring_ok kb \<Longrightarrow> (ring_head kb + 1) mod RING_BUF_SIZE = ring_tail kb \<longleftrightarrow> \<not> ring_count kb < 255"
  by (auto simp: ring_count_cases ring_ok_def mod_if)

lemma ring_ok_put: "ring_ok kb \<Longrightarrow> ring_ok (put_key kb c)"
  by (simp add: put_key_eq) (simp add: ring_ok_def)

lemma ring_ok_get: "ring_ok kb \<Longrightarrow> ring_ok (snd (get_key kb))"
  by (simp add: get_key_eq) (simp add: ring_ok_def)

lemma ring_count_tail:
  assumes "ring_ok kb" and "ring_head kb \<noteq> ring_tail kb"
  shows "ring_count (kb\<lparr>ring_tail := (ring_tail kb + 1) mod RING_BUF_SIZE\<rparr>) = ring_count kb - 1 \<and> 0 < ring_count kb"
proof -
  define t where "t = (ring_tail kb + 1) mod RING_BUF_SIZE"
  have "ring_ok (kb\<lparr>ring_tail := t\<rparr>)"
    using assms(1) by (simp add: ring_ok_def t_def)
  from ring_count_cases [OF this]
  have "ring_count (kb\<lparr>ring_tail := t\<rparr>) = (if t \<le> ring_head kb then ring_head kb - t else ring_head kb + 256 - t)"
    by simp
  moreover have "t = (if ring_tail kb = 255 then 0 else ring_tail kb + 1)"
    unfolding t_def by (rule succ_mod_cases) (use assms in \<open>simp add: ring_ok_def\<close>)
  ultimately show ?thesis
    unfolding t_def [symmetric]
    using assms ring_count_cases [OF assms(1)] by (auto simp: ring_ok_def split: if_splits)
qed

lemma length_keys [simp]: "length (keys kb) = ring_count kb"
  by (simp add: keys_def)

lemma keys_put:
  assumes "ring_ok kb"
  shows "keys (put_key kb c) = (if length (keys kb) < 255 then keys kb @ [c] else keys kb)"
proof (cases "ring_count kb < 255")
  case True
  let ?kb = "kb\<lparr>ring_buf := (ring_buf kb)[ring_head kb := c], ring_head := (ring_head kb + 1) mod RING_BUF_SIZE\<rparr>"
  have put: "put_key kb c = ?kb"
    unfolding put_key_eq [OF assms] ring_full [OF assms] using True by simp
  then have "ring_ok ?kb" using ring_ok_put [OF assms] by metis
  then have count: "ring_count ?kb = Suc (ring_count kb)"
    using assms True by (auto simp: ring_count_cases ring_ok_def mod_ring split: if_splits)
  have "keys ?kb = map (\<lambda>i. (ring_buf kb)[ring_head kb := c] ! ((ring_tail kb + i) mod RING_BUF_SIZE)) [0..<Suc (ring_count kb)]"
    unfolding keys_def count by simp
  also have "\<dots> = keys kb @ [c]"
    using assms ring_slot [OF assms, THEN not_sym] ring_last [OF assms]
    by (auto simp: keys_def ring_ok_def intro!: nth_list_update_neq)
  finally show ?thesis using True put by simp
next
  case False
  then show ?thesis unfolding put_key_eq [OF assms] ring_full [OF assms] by simp
qed

lemma keys_get:
  assumes "ring_ok kb"
  shows "fst (get_key kb) = (case keys kb of [] \<Rightarrow> None | c # _ \<Rightarrow> Some c)" and "keys (snd (get_key kb)) = tl (keys kb)"
proof -
  have "fst (get_key kb) = (case keys kb of [] \<Rightarrow> None | c # _ \<Rightarrow> Some c) \<and> keys (snd (get_key kb)) = tl (keys kb)"
  proof (cases "ring_head kb = ring_tail kb")
    case True
    then have "keys kb = []" using assms by (simp add: keys_def ring_count_cases)
    with True assms show ?thesis by (simp add: get_key_eq)
  next
    case False
    let ?kb = "kb\<lparr>ring_tail := (ring_tail kb + 1) mod RING_BUF_SIZE\<rparr>"
    have get: "get_key kb = (Some (ring_buf kb ! ring_tail kb), ?kb)" using False assms by (simp add: get_key_eq)
    obtain n where n: "ring_count kb = Suc n" "ring_count ?kb = n"
      using ring_count_tail [OF assms False] by (cases "ring_count kb") auto
    have "keys kb = ring_buf kb ! ring_tail kb # map (\<lambda>i. ring_buf kb ! ((ring_tail kb + Suc i) mod RING_BUF_SIZE)) [0..<n]"
      using assms unfolding keys_def n by (simp add: upt_conv_Cons map_Suc_upt [symmetric] ring_ok_def comp_def del: upt_Suc)
    moreover have "keys ?kb = map (\<lambda>i. ring_buf kb ! ((ring_tail kb + Suc i) mod RING_BUF_SIZE)) [0..<n]"
      unfolding keys_def n by (simp add: mod_simps)
    ultimately show ?thesis using get by simp
  qed
  then show "fst (get_key kb) = (case keys kb of [] \<Rightarrow> None | c # _ \<Rightarrow> Some c)" "keys (snd (get_key kb)) = tl (keys kb)"
    by simp_all
qed

interpretation key_ring: guarded_fifo put_key get_key keys 255 ring_ok
  by unfold_locales (simp_all add: ring_ok_put ring_ok_get keys_put keys_get)

lemma puts_Ret: "ring_ok kb \<Longrightarrow> ofold ring_put cs kb = Ret (fold (\<lambda>c kb. put_key kb c) cs kb)"
  by (induction cs arbitrary: kb) (simp_all add: ring_put_Ret ring_ok_put)
lemma keys_empty: "ring_ok kb \<Longrightarrow> keys kb = [] \<longleftrightarrow> ring_head kb = ring_tail kb"
  using keys_get(1) [of kb] by (auto simp: get_key_eq split: list.splits if_splits)

lemma keys_hd: "ring_ok kb \<Longrightarrow> keys kb = c # cs \<Longrightarrow> ring_buf kb ! ring_tail kb = c"
  using keys_get(1) [of kb] by (auto simp: get_key_eq split: if_splits)

lemma puts_tail: "ring_ok kb \<Longrightarrow> ring_tail (fold (\<lambda>c kb. put_key kb c) cs kb) = ring_tail kb"
  by (induction cs arbitrary: kb) (simp_all add: ring_ok_put, simp add: put_key_eq)


definition keyboard_demo :: keyboard where
  "keyboard_demo = \<lparr>ring_buf = replicate RING_BUF_SIZE 0, ring_head = 0, ring_tail = 0, shift_pressed = False,
     ctrl_pressed = False, alt_pressed = False, caps_lock = False, debug_kb_count = 0\<rparr>"

lemma keyboard_demo_ok [simp]: "ring_ok keyboard_demo"
  by (simp add: ring_ok_def keyboard_demo_def)


section \<open>The interrupt handler\<close>

text \<open>The keyboard controller takes a command after some time (input buffer empty).\<close>

definition accepts :: "device \<Rightarrow> bool" where
  "accepts dev \<longleftrightarrow> (\<forall>p. \<exists>n. ready_after dev 0x64 (\<lambda>v. v AND 0x02 = 0) n p)"

lemma wait_write_returns:
  "accepts dev \<Longrightarrow> \<exists>p'. wait_write dev p = Ret p' \<and> writes p' = writes p \<and> con p' = con p"
  unfolding wait_write_def accepts_def by (rule wait_until_returns) blast

lemma cell_Ret:
  assumes "console_ok (con p)" and "col < VGA_WIDTH"
  shows "\<exists>s. cell col ch a p = Ret (p\<lparr>con := (con p)\<lparr>screen := s\<rparr>\<rparr>) \<and> length s = VGA_CELLS"
  using put_char_at_ok [OF assms(1) _ assms(2), of 0 ch a] assms(1)
  by (intro exI [of _ "(screen (con p))[col := vga_cell ch a]"]) (simp add: cell_def on_con_def console_ok_def)

lemma cell_returns:
  assumes "cursor_shown (con p)" and "col < VGA_WIDTH"
  shows "\<exists>p'. cell col ch a p = Ret p' \<and> io_log p' = io_log p \<and> cursor_shown (con p')"
  using cell_Ret [of p col ch a] assms by (auto simp: cursor_shown_def console_ok_def hw_cursor_def)

lemma show_scancode_returns:
  assumes "cursor_shown (con p)"
  shows "\<exists>p'. show_scancode sc p = Ret p' \<and> io_log p' = io_log p \<and> cursor_shown (con p')"
proof -
  obtain p1 where 1: "cell 70 83 0x0C p = Ret p1" "io_log p1 = io_log p" "cursor_shown (con p1)"
    using cell_returns [OF assms, of 70] by auto
  obtain p2 where 2: "cell 71 58 0x0C p1 = Ret p2" "io_log p2 = io_log p1" "cursor_shown (con p2)"
    using cell_returns [OF 1(3), of 71] by auto
  obtain p3 where 3: "cell 72 (hex_digit (drop_bit 4 sc AND 0xF)) 0x0C p2 = Ret p3" "io_log p3 = io_log p2" "cursor_shown (con p3)"
    using cell_returns [OF 2(3), of 72] by auto
  obtain p4 where 4: "cell 73 (hex_digit (sc AND 0xF)) 0x0C p3 = Ret p4" "io_log p4 = io_log p3" "cursor_shown (con p4)"
    using cell_returns [OF 3(3), of 73] by auto
  show ?thesis using 1 2 3 4 by (simp add: show_scancode_def)
qed

text \<open>A scancode is a release when its high bit is set.\<close>

lemma high_bit: "bit (sc :: u8) 7 \<longleftrightarrow> 128 \<le> sc"
proof -
  have "take_bit 7 sc = sc \<longleftrightarrow> \<not> bit sc 7"
  proof
    assume "take_bit 7 sc = sc"
    then show "\<not> bit sc 7" by (metis bit_take_bit_iff less_irrefl)
  next
    assume no: "\<not> bit sc 7"
    show "take_bit 7 sc = sc"
    proof (rule bit_word_eqI)
      fix n :: nat
      assume "n < LENGTH(8)"
      with no show "bit (take_bit 7 sc) n = bit sc n" by (cases "n = 7") (auto simp: bit_take_bit_iff)
    qed
  qed
  moreover have "take_bit 7 sc = sc \<longleftrightarrow> sc < 128"
    by (simp add: word_less_nat_alt take_bit_nat_eq_self_iff flip: unsigned_take_bit_eq word_unat_eq_iff)
      (simp add: word_unat_eq_iff unsigned_take_bit_eq take_bit_nat_eq_self_iff)
  ultimately show ?thesis by (metis linorder_not_less)
qed

lemma release_bit: "(sc :: u8) AND 0x80 \<noteq> 0 \<longleftrightarrow> 128 \<le> sc"
proof -
  have top: "(0x80 :: u8) = push_bit 7 1" by simp
  have "bit (sc AND 0x80) n = (n = 7 \<and> bit sc 7)" for n
    unfolding top bit_and_iff bit_push_bit_iff bit_1_iff by auto
  then show ?thesis by (metis bit_0_eq bot_apply bot_bool_def bit_word_eqI high_bit)
qed

lemma press_code: "(sc :: u8) < 128 \<Longrightarrow> sc AND 0x7F = sc"
  using less_mask_eq [of sc 7] by (simp add: mask_eq_exp_minus_1)

lemma table_entries:
  "map ((!) SCANCODE_NORMAL) [0x2A, 0x36, 0x1D, 0x38, 0x3A] = [0, 0, 0, 0, 0]"
  "map ((!) SCANCODE_SHIFT) [0x2A, 0x36, 0x1D, 0x38, 0x3A] = [0, 0, 0, 0, 0]"
  by code_simp+

lemma modifiers_silent: "sc \<in> {0x2A, 0x36, 0x1D, 0x38, 0x3A} \<Longrightarrow> key_char kb sc = 0"
  using table_entries by (auto simp: key_char_def Let_def)

text \<open>What the handler does with a scancode, after the accesses for the display.\<close>

definition key_event :: "u8 \<Rightarrow> keyboard \<Rightarrow> keyboard" where
  "key_event sc kb =
     (let code = sc AND 0x7F
      in if sc = 0xE0 then kb
         else if code = 0x2A \<or> code = 0x36 then kb\<lparr>shift_pressed := sc < 0x80\<rparr>
         else if code = 0x1D then kb\<lparr>ctrl_pressed := sc < 0x80\<rparr>
         else if code = 0x38 then kb\<lparr>alt_pressed := sc < 0x80\<rparr>
         else if sc = 0x3A then kb\<lparr>caps_lock := \<not> caps_lock kb\<rparr>
         else if sc < 0x80 \<and> key_char kb sc \<noteq> 0 then put_key kb (key_char kb sc) else kb)"

lemma ring_ok_flags [simp]:
  "ring_ok (kb\<lparr>shift_pressed := b\<rparr>) = ring_ok kb" "ring_ok (kb\<lparr>ctrl_pressed := b\<rparr>) = ring_ok kb"
  "ring_ok (kb\<lparr>alt_pressed := b\<rparr>) = ring_ok kb" "ring_ok (kb\<lparr>caps_lock := b\<rparr>) = ring_ok kb"
  "ring_ok (kb\<lparr>debug_kb_count := n\<rparr>) = ring_ok kb"
  by (simp_all add: ring_ok_def)

lemma keys_flags [simp]:
  "keys (kb\<lparr>shift_pressed := b\<rparr>) = keys kb" "keys (kb\<lparr>ctrl_pressed := b\<rparr>) = keys kb"
  "keys (kb\<lparr>alt_pressed := b\<rparr>) = keys kb" "keys (kb\<lparr>caps_lock := b\<rparr>) = keys kb"
  "keys (kb\<lparr>debug_kb_count := n\<rparr>) = keys kb" "key_char (kb\<lparr>debug_kb_count := n\<rparr>) = key_char kb"
  by (simp_all add: keys_def ring_count_def key_char_def fun_eq_iff)

lemma put_key_flags [simp]:
  "ring_ok kb \<Longrightarrow> shift_pressed (put_key kb c) = shift_pressed kb" "ring_ok kb \<Longrightarrow> ctrl_pressed (put_key kb c) = ctrl_pressed kb"
  "ring_ok kb \<Longrightarrow> alt_pressed (put_key kb c) = alt_pressed kb" "ring_ok kb \<Longrightarrow> caps_lock (put_key kb c) = caps_lock kb"
  by (simp_all add: put_key_eq)

lemma ring_ok_event: "ring_ok kb \<Longrightarrow> ring_ok (key_event sc kb)"
  by (simp add: key_event_def ring_ok_put Let_def)

lemma caps_press: "(sc :: u8) AND 0x7F = 0x3A \<and> \<not> (sc AND 0x80 \<noteq> 0) \<longleftrightarrow> sc = 0x3A"
  using press_code [of sc] by (auto simp: release_bit not_le)

lemma keyboard_irq_run:
  assumes "ring_ok kb" and "cursor_shown (con p)" and "accepts dev"
  defines "sc \<equiv> dev8 dev (io_log p) 0x60"
  shows "\<exists>p'. handle_keyboard_interrupt dev (kb, p) = Ret (key_event sc (kb\<lparr>debug_kb_count := debug_kb_count kb + 1\<rparr>), p')
    \<and> cursor_shown (con p')
    \<and> writes p' = writes p @ (if sc = 0x3A then [Out8 0x64 0xED, Out8 0x60 (if caps_lock kb then 0 else 4)] else [])
                  @ [Out8 0x20 0x20]"
proof -
  define kb0 where "kb0 = kb\<lparr>debug_kb_count := debug_kb_count kb + 1\<rparr>"
  have ok: "ring_ok kb0" and caps: "caps_lock kb0 = caps_lock kb" using assms(1) by (simp_all add: kb0_def)
  obtain p1 where 1: "cell 79 ([124, 47, 45, 92] ! unat (debug_kb_count kb0 mod 4)) 0x0E p = Ret p1"
      "io_log p1 = io_log p" "cursor_shown (con p1)"
    using cell_returns [OF assms(2), of 79] by auto
  define p2 where "p2 = snd (inb dev 0x60 p1)"
  have 2: "inb dev 0x60 p1 = (sc, p2)" "writes p2 = writes p" "cursor_shown (con p2)"
    using 1 by (simp_all add: p2_def sc_def) (simp_all add: inb_def writes_def Let_def)
  obtain p3 where 3: "show_scancode sc p2 = Ret p3" "writes p3 = writes p" "cursor_shown (con p3)"
    using show_scancode_returns [OF 2(3), of sc] 2(2) by (auto simp: writes_def)
  obtain p4 where 4: "wait_write dev p3 = Ret p4" "writes p4 = writes p" "con p4 = con p3"
    using wait_write_returns [OF assms(3)] 3(2) by metis
  obtain p5 where 5: "wait_write dev (outb 0x64 0xED p4) = Ret p5" "writes p5 = writes p @ [Out8 0x64 0xED]" "con p5 = con p3"
    using wait_write_returns [OF assms(3), of "outb 0x64 0xED p4"] 4 by auto
  have run: "handle_keyboard_interrupt dev (kb, p) =
      (if sc = 0xE0 then Ret (kb0, eoi_master p3)
       else let is_release = (sc AND 0x80 \<noteq> 0); code = sc AND 0x7F
          in if code = 0x2A \<or> code = 0x36 then Ret (kb0\<lparr>shift_pressed := \<not> is_release\<rparr>, eoi_master p3)
             else if code = 0x1D then Ret (kb0\<lparr>ctrl_pressed := \<not> is_release\<rparr>, eoi_master p3)
             else if code = 0x38 then Ret (kb0\<lparr>alt_pressed := \<not> is_release\<rparr>, eoi_master p3)
             else if code = 0x3A \<and> \<not> is_release then
               Ret (kb0\<lparr>caps_lock := \<not> caps_lock kb0\<rparr>, eoi_master (outb 0x60 (if \<not> caps_lock kb0 then 4 else 0) p5))
             else if is_release then Ret (kb0, eoi_master p3)
             else obind (if key_char kb0 code \<noteq> 0 then ring_put (key_char kb0 code) kb0 else Ret kb0)
               (\<lambda>kb. Ret (kb, eoi_master p3)))"
    unfolding handle_keyboard_interrupt_def prod.case Let_def kb0_def [symmetric] 1(1) 2(1) 3(1) 4(1) 5(1) obind.simps
    by (simp add: 4(1) 5(1))
  show ?thesis
    unfolding run kb0_def [symmetric] Let_def caps_press
    using 3 5 ring_put_Ret [OF ok] press_code [of sc]
    by (auto simp: key_event_def eoi_master_def release_bit caps not_le Let_def)
qed

text \<open>
  C33. Every keyboard interrupt is handled to the end and acknowledged exactly once, whatever byte
  the controller sends, if it takes the commands of Caps Lock: the last and only command to the
  interrupt controller is the end of interrupt; a press of Shift, Ctrl, Alt or Caps Lock sets its flag
  and a release of the first three clears it; a press of another key puts the character of the table
  into the ring if there is room; every other byte changes no key.
\<close>

theorem keyboard_irq_exact:
  assumes "ring_ok kb" and "cursor_shown (con p)" and "accepts dev"
  shows "\<exists>kb' p'. handle_keyboard_interrupt dev (kb, p) = Ret (kb', p') \<and> ring_ok kb' \<and> cursor_shown (con p')
    \<and> (let sc = dev8 dev (io_log p) 0x60; code = sc AND 0x7F
       in writes p' = writes p @ (if sc = 0x3A then [Out8 0x64 0xED, Out8 0x60 (if caps_lock kb then 0 else 4)] else [])
                      @ [Out8 0x20 0x20]
          \<and> shift_pressed kb' = (if sc \<noteq> 0xE0 \<and> (code = 0x2A \<or> code = 0x36) then sc < 0x80 else shift_pressed kb)
          \<and> ctrl_pressed kb' = (if sc \<noteq> 0xE0 \<and> code = 0x1D then sc < 0x80 else ctrl_pressed kb)
          \<and> alt_pressed kb' = (if sc \<noteq> 0xE0 \<and> code = 0x38 then sc < 0x80 else alt_pressed kb)
          \<and> caps_lock kb' = (caps_lock kb \<noteq> (sc = 0x3A))
          \<and> keys kb' = (if sc < 0x80 \<and> key_char kb sc \<noteq> 0 \<and> length (keys kb) < 255
                        then keys kb @ [key_char kb sc] else keys kb))"
proof -
  define sc where "sc = dev8 dev (io_log p) 0x60"
  define kb0 where "kb0 = kb\<lparr>debug_kb_count := debug_kb_count kb + 1\<rparr>"
  have ok: "ring_ok kb0" using assms(1) by (simp add: kb0_def)
  obtain p' where p': "handle_keyboard_interrupt dev (kb, p) = Ret (key_event sc kb0, p')" "cursor_shown (con p')"
      "writes p' = writes p @ (if sc = 0x3A then [Out8 0x64 0xED, Out8 0x60 (if caps_lock kb then 0 else 4)] else [])
                  @ [Out8 0x20 0x20]"
    using keyboard_irq_run [OF assms] unfolding sc_def kb0_def by blast
  have event: "shift_pressed (key_event sc kb0) = (if sc \<noteq> 0xE0 \<and> (sc AND 0x7F = 0x2A \<or> sc AND 0x7F = 0x36) then sc < 0x80 else shift_pressed kb)"
    "ctrl_pressed (key_event sc kb0) = (if sc \<noteq> 0xE0 \<and> sc AND 0x7F = 0x1D then sc < 0x80 else ctrl_pressed kb)"
    "alt_pressed (key_event sc kb0) = (if sc \<noteq> 0xE0 \<and> sc AND 0x7F = 0x38 then sc < 0x80 else alt_pressed kb)"
    "caps_lock (key_event sc kb0) = (caps_lock kb \<noteq> (sc = 0x3A))"
    using ok by (auto simp: key_event_def kb0_def Let_def)
  have "keys (key_event sc kb0) = (if sc < 0x80 \<and> key_char kb sc \<noteq> 0 \<and> length (keys kb) < 255
      then keys kb @ [key_char kb sc] else keys kb)"
  proof (cases "sc < 0x80")
    case True
    then show ?thesis
      using ok press_code [of sc] modifiers_silent [of sc kb] keys_put [OF ok]
      by (auto simp: key_event_def kb0_def Let_def)
  next
    case False
    then show ?thesis by (auto simp: key_event_def kb0_def Let_def)
  qed
  with p' event ring_ok_event [OF ok, of sc] show ?thesis
    unfolding sc_def [symmetric] Let_def by (intro exI [of _ "key_event sc kb0"] exI [of _ p'] conjI) simp_all
qed

definition ready_device :: device where
  "ready_device = quiet_device\<lparr>dev8 := \<lambda>_ port. if port = 0x60 then 0x1E else 0x01\<rparr>"

lemma ready_device_accepts: "accepts ready_device"
  by (simp add: accepts_def ready_after_def inb_def ready_device_def Let_def)

theorem keyboard_irq_exact_witness:
  "\<exists>kb' p'. handle_keyboard_interrupt ready_device (keyboard_demo, platform_demo) = Ret (kb', p')
    \<and> writes p' = [Out8 0x20 0x20] \<and> keys kb' = [97]"
proof -
  have "keys keyboard_demo = []" by (simp add: keyboard_demo_def keys_def ring_count_def)
  moreover have "SCANCODE_NORMAL ! 30 = 97" by code_simp
  then have "key_char keyboard_demo 0x1E = 97" by (simp add: key_char_def keyboard_demo_def)
  moreover have "dev8 ready_device (io_log platform_demo) 0x60 = 0x1E" by (simp add: ready_device_def)
  moreover have "writes platform_demo = []" by (simp add: writes_def platform_demo_def)
  ultimately show ?thesis
    using keyboard_irq_exact [OF keyboard_demo_ok platform_demo_shown ready_device_accepts] by (simp add: Let_def) blast
qed

lemma caps_correction:
  fixes ch :: u8
  defines "up \<equiv> if 97 \<le> ch \<and> ch \<le> 122 then ch - 32 else ch"
  defines "down \<equiv> if 65 \<le> up \<and> up \<le> 90 then up + 32 else up"
  shows "down = (if 65 \<le> ch \<and> ch \<le> 90 then ch + 32 else ch)" and "\<not> (65 \<le> down \<and> down \<le> 90)"
proof -
  have "down = (if 65 \<le> ch \<and> ch \<le> 90 then ch + 32 else ch) \<and> \<not> (65 \<le> down \<and> down \<le> 90)"
  proof (cases "97 \<le> ch \<and> ch \<le> 122")
    case True
    then have "unat (ch - 32) = unat ch - 32" using unat_sub [of 32 ch] by (simp add: word_le_nat_alt)
    with True have "65 \<le> ch - 32 \<and> ch - 32 \<le> 90 \<and> \<not> ch \<le> 90" by (auto simp: word_le_nat_alt)
    with True show ?thesis by (simp add: down_def up_def)
  next
    case False
    have "unat (ch + 32) = unat ch + 32" if "ch \<le> 90"
      using that by (simp add: word_le_nat_alt unat_word_ariths)
    then have "65 \<le> ch \<and> ch \<le> 90 \<Longrightarrow> \<not> ch + 32 \<le> 90" by (simp add: word_le_nat_alt)
    with False show ?thesis unfolding down_def up_def by (auto simp only: if_False split: if_splits)
  qed
  then show "down = (if 65 \<le> ch \<and> ch \<le> 90 then ch + 32 else ch)" "\<not> (65 \<le> down \<and> down \<le> 90)"
    by blast+
qed

text \<open>
  Caps Lock never types a capital letter: with it on, every key types the lower-case letter,
  also with Shift, because the second correction of the handler undoes the first.
\<close>

theorem caps_lock_inert:
  "caps_lock kb \<Longrightarrow> \<not> (65 \<le> key_char kb code \<and> key_char kb code \<le> 90)
    \<and> key_char kb code =
        (let ch = key_char (kb\<lparr>caps_lock := False\<rparr>) code in if 65 \<le> ch \<and> ch \<le> 90 then ch + 32 else ch)"
  using caps_correction [of "if shift_pressed kb then SCANCODE_SHIFT ! unat code else SCANCODE_NORMAL ! unat code"]
  by (simp add: key_char_def Let_def)

theorem caps_lock_inert_witness:
  "key_char (keyboard_demo\<lparr>caps_lock := True\<rparr>) 0x1E = 97
   \<and> key_char (keyboard_demo\<lparr>caps_lock := True, shift_pressed := True\<rparr>) 0x1E = 97"
proof -
  have "SCANCODE_NORMAL ! 30 = 97" "SCANCODE_SHIFT ! 30 = 65" by code_simp+
  then show ?thesis
    using caps_lock_inert [of "keyboard_demo\<lparr>caps_lock := True\<rparr>" "0x1E"]
      caps_lock_inert [of "keyboard_demo\<lparr>caps_lock := True, shift_pressed := True\<rparr>" "0x1E"]
    by (simp add: key_char_def keyboard_demo_def)
qed

section \<open>Start-up\<close>

text \<open>After the command that reads its mode byte, the controller offers the byte after some time.\<close>

definition answers :: "device \<Rightarrow> bool" where
  "answers dev \<longleftrightarrow> (\<forall>p. writes p \<noteq> [] \<and> last (writes p) = Out8 0x64 0x20 \<longrightarrow>
     (\<exists>n. ready_after dev 0x64 (\<lambda>v. v AND 0x01 \<noteq> 0) n p))"

lemma wait_read_returns:
  "answers dev \<Longrightarrow> writes p = w @ [Out8 0x64 0x20] \<Longrightarrow>
    \<exists>p'. wait_read dev p = Ret p' \<and> writes p' = writes p \<and> con p' = con p"
  unfolding wait_read_def answers_def by (rule wait_until_returns) simp

lemma keyboard_init_run:
  assumes "accepts dev" and "answers dev" and "cursor_shown (con p)"
  shows "\<exists>p' m. keyboard_init dev (kb, p) = Ret (kb\<lparr>shift_pressed := False, ctrl_pressed := False, alt_pressed := False,
      caps_lock := False, ring_head := 0, ring_tail := 0\<rparr>, p')
    \<and> cursor_shown (con p')
    \<and> writes p' = writes p @ [Out8 0x64 0xAE, Out8 0x64 0x20, Out8 0x64 0x60, Out8 0x60 (m OR 1), Out8 0x21 0xFD, Out8 0xA1 0xFF]"
proof -
  note ww = wait_write_returns [OF assms(1)]
  obtain p1 where 1: "wait_write dev p = Ret p1" "writes p1 = writes p" "con p1 = con p"
    using ww by metis
  obtain p2 where 2: "wait_write dev (outb 0x64 0xAE p1) = Ret p2" "writes p2 = writes p @ [Out8 0x64 0xAE]" "con p2 = con p"
    using ww [of "outb 0x64 0xAE p1"] 1 by auto
  obtain p3 where 3: "wait_read dev (outb 0x64 0x20 p2) = Ret p3"
      "writes p3 = writes p @ [Out8 0x64 0xAE, Out8 0x64 0x20]" "con p3 = con p"
    using wait_read_returns [OF assms(2), of "outb 0x64 0x20 p2"] 2 by auto
  define m where "m = fst (inb dev 0x60 p3)"
  define p4 where "p4 = snd (inb dev 0x60 p3)"
  have 4: "inb dev 0x60 p3 = (m, p4)" "writes p4 = writes p3" "con p4 = con p" by (simp_all add: m_def p4_def 3)
  obtain p5 where 5: "wait_write dev p4 = Ret p5" "writes p5 = writes p3" "con p5 = con p"
    using ww [of p4] 4 by auto
  obtain p6 where 6: "wait_write dev (outb 0x64 0x60 p5) = Ret p6"
      "writes p6 = writes p @ [Out8 0x64 0xAE, Out8 0x64 0x20, Out8 0x64 0x60]" "con p6 = con p"
    using ww [of "outb 0x64 0x60 p5"] 5 3 by auto
  define p7 where "p7 = set_slave_mask 0xFF (set_master_mask 0xFD (outb 0x60 (m OR 1) p6))"
  have 7: "writes p7 = writes p @ [Out8 0x64 0xAE, Out8 0x64 0x20, Out8 0x64 0x60, Out8 0x60 (m OR 1), Out8 0x21 0xFD, Out8 0xA1 0xFF]"
    "cursor_shown (con p7)"
    using 6 assms(3) by (simp_all add: p7_def set_slave_mask_def set_master_mask_def)
  obtain p8 where 8: "announce Green (lit ''[KB] PS/2 keyboard initialized -- IRQ1 active.'' @ newline) p7 = Ret p8"
      "writes p8 = writes p7" "cursor_shown (con p8)"
    using announce_returns [OF 7(2), of Green "lit ''[KB] PS/2 keyboard initialized -- IRQ1 active.'' @ newline"]
    by (auto simp: writes_def)
  have "keyboard_init dev (kb, p) = Ret (kb\<lparr>shift_pressed := False, ctrl_pressed := False, alt_pressed := False,
      caps_lock := False, ring_head := 0, ring_tail := 0\<rparr>, p8)"
    unfolding keyboard_init_def prod.case Let_def
    by (simp only: 1(1) 2(1) 3(1) 4(1) 5(1) 6(1) p7_def [symmetric] 8(1) obind.simps prod.case)
  with 7 8 show ?thesis by auto
qed

text \<open>The interrupts that the keyboard sends once it is running.\<close>

lemma irq_keeps_mask:
  "pic_after 0x20 ((if sc = 0x3A then [Out8 0x64 0xED, Out8 0x60 v] else []) @ [Out8 0x20 0x20]) m = m"
  by (simp add: pic_after_def pic_command_def bit_iff_odd)

lemma irq_keeps_slave:
  "pic_after 0xA0 ((if sc = 0x3A then [Out8 0x64 0xED, Out8 0x60 v] else []) @ [Out8 0x20 0x20]) s = s"
  by (simp add: pic_after_def)

lemma irqs_run:
  assumes "accepts dev" and "ring_ok kb" and "cursor_shown (con p)"
    and "pic_step (pic_after 0x20 (io_log p) m) = 0"
  shows "\<exists>kb' p'. ofold (\<lambda>_. handle_keyboard_interrupt dev) xs (kb, p) = Ret (kb', p')
    \<and> pic_after 0x20 (io_log p') m = pic_after 0x20 (io_log p) m \<and> pic_after 0xA0 (io_log p') s = pic_after 0xA0 (io_log p) s"
  using assms(2-)
proof (induction xs arbitrary: kb p)
  case (Cons x xs)
  define sc where "sc = dev8 dev (io_log p) 0x60"
  obtain p1 where p1: "handle_keyboard_interrupt dev (kb, p) = Ret (key_event sc (kb\<lparr>debug_kb_count := debug_kb_count kb + 1\<rparr>), p1)"
      "cursor_shown (con p1)"
      "writes p1 = writes p @ (if sc = 0x3A then [Out8 0x64 0xED, Out8 0x60 (if caps_lock kb then 0 else 4)] else [])
                  @ [Out8 0x20 0x20]"
    using keyboard_irq_run [OF Cons.prems(1,2) assms(1)] unfolding sc_def by blast
  have same: "pic_after 0x20 (io_log p1) m = pic_after 0x20 (io_log p) m" "pic_after 0xA0 (io_log p1) s = pic_after 0xA0 (io_log p) s"
    using Cons.prems(3) irq_keeps_mask irq_keeps_slave
    unfolding pic_after_log [of _ p1] pic_after_log [of _ p] p1(3) pic_after_append by metis+
  moreover have "ring_ok (key_event sc (kb\<lparr>debug_kb_count := debug_kb_count kb + 1\<rparr>))"
    using Cons.prems(1) by (simp add: ring_ok_event)
  ultimately obtain kb' p' where "ofold (\<lambda>_. handle_keyboard_interrupt dev) xs
      (key_event sc (kb\<lparr>debug_kb_count := debug_kb_count kb + 1\<rparr>), p1) = Ret (kb', p')"
      "pic_after 0x20 (io_log p') m = pic_after 0x20 (io_log p) m" "pic_after 0xA0 (io_log p') s = pic_after 0xA0 (io_log p) s"
    using Cons.IH [OF _ p1(2)] Cons.prems(3) by metis
  with p1(1) show ?case by simp
qed simp

text \<open>
  What \<open>keyboard_init\<close> leaves of the interrupt controllers that \<open>pic_init\<close> has programmed: line 1 of the
  master is open, every other line is masked.
\<close>

definition keyboard_only :: "io_event list \<Rightarrow> pic8259 \<Rightarrow> pic8259 \<Rightarrow> bool" where
  "keyboard_only log m s \<longleftrightarrow> (\<forall>i<8. delivers (pic_after 0x20 log m) i \<longleftrightarrow> i = 1) \<and> (\<forall>i<8. \<not> delivers (pic_after 0xA0 log s) i)
     \<and> pic_step (pic_after 0x20 log m) = 0"

lemma masks_keyboard_only:
  assumes "pic_step (pic_after 0x20 log m) = 0" "pic_imr (pic_after 0x20 log m) = 0xFD" "pic_imr (pic_after 0xA0 log s) = 0xFF"
  shows "keyboard_only log m s"
proof -
  have "list_all (\<lambda>i. bit (0xFD :: u8) i \<longleftrightarrow> i \<noteq> 1) [0..<8]" "list_all (bit (0xFF :: u8)) [0..<8]"
    by code_simp+
  then have "\<forall>i<8. bit (0xFD :: u8) i \<longleftrightarrow> i \<noteq> 1" "\<forall>i<8. bit (0xFF :: u8) i"
    unfolding list_all_iff by auto
  with assms show ?thesis by (auto simp: keyboard_only_def delivers_def)
qed

lemma keyboard_init_masks:
  assumes "accepts dev" and "answers dev" and "cursor_shown (con p)" and "io_log p = l @ pic_init_log m1 m2"
    and "length (ring_buf kb) = RING_BUF_SIZE"
  shows "\<exists>kb' p'. keyboard_init dev (kb, p) = Ret (kb', p') \<and> cursor_shown (con p') \<and> ring_ok kb' \<and> keys kb' = []
    \<and> keyboard_only (io_log p') m s"
proof -
  define kb' where "kb' = kb\<lparr>shift_pressed := False, ctrl_pressed := False, alt_pressed := False,
      caps_lock := False, ring_head := 0, ring_tail := 0\<rparr>"
  obtain p' c where p': "keyboard_init dev (kb, p) = Ret (kb', p')" "cursor_shown (con p')"
      "writes p' = writes p @ [Out8 0x64 0xAE, Out8 0x64 0x20, Out8 0x64 0x60, Out8 0x60 (c OR 1), Out8 0x21 0xFD, Out8 0xA1 0xFF]"
    using keyboard_init_run [OF assms(1-3), of kb] unfolding kb'_def by blast
  have steps: "pic_step (pic_after 0x20 (io_log p) m) = 0" "pic_step (pic_after 0xA0 (io_log p) s) = 0"
    by (simp_all add: assms(4) pic_after_append pic_init_effect)
  have "pic_after 0x20 (io_log p') m = (pic_after 0x20 (io_log p) m)\<lparr>pic_imr := 0xFD\<rparr>"
    "pic_after 0xA0 (io_log p') s = (pic_after 0xA0 (io_log p) s)\<lparr>pic_imr := 0xFF\<rparr>"
    using steps unfolding pic_after_log [of _ p'] p'(3) pic_after_append pic_after_log [of _ p, symmetric]
    by (simp_all add: pic_after_def pic_data_def Let_def)
  then have "keyboard_only (io_log p') m s" using steps by (intro masks_keyboard_only) simp_all
  moreover have "ring_ok kb'" "keys kb' = []"
    using assms(5) by (simp_all add: kb'_def ring_ok_def keys_def ring_count_def)
  ultimately show ?thesis using p'(1,2) by blast
qed

lemma irqs_keyboard_only:
  assumes "accepts dev" and "ring_ok kb" and "cursor_shown (con p)" and "keyboard_only (io_log p) m s"
  shows "\<exists>kb' p'. ofold (\<lambda>_. handle_keyboard_interrupt dev) xs (kb, p) = Ret (kb', p') \<and> keyboard_only (io_log p') m s"
  using irqs_run [OF assms(1-3), of m xs s] assms(4) unfolding keyboard_only_def by metis

end
