(* ===== verification/Interrupts.thy ===== *)
theory Interrupts
  imports Kernel Keyboard
begin

text \<open>
  Interrupt entry: the segment and gate descriptors of \<open>arch/x86_64/kernel/gdt.zig\<close> and \<open>idt.zig\<close>, the
  assembly stubs that build the trap frame on the stack, and the handlers they call, down to the
  Rust core. Loading the tables (\<open>lgdt\<close>, \<open>lidt\<close>) is the identity here; the descriptors are read back
  with the layout of the processor manual.
\<close>

section \<open>Segment descriptors\<close>

record gdt_entry =
  limit_low :: u16
  base_low :: u16
  base_middle :: u8
  access_byte :: u8
  flags_limit_high :: u8
  base_high :: u8

definition make_entry :: "u32 \<Rightarrow> u32 \<Rightarrow> u8 \<Rightarrow> u8 \<Rightarrow> gdt_entry" where
  "make_entry base limit access flags =
     \<lparr>limit_low = ucast (limit AND 0xFFFF), base_low = ucast (base AND 0xFFFF),
      base_middle = ucast (drop_bit 16 base AND 0xFF), access_byte = access,
      flags_limit_high = ucast (drop_bit 16 limit AND 0x0F) OR (flags AND 0xF0),
      base_high = ucast (drop_bit 24 base AND 0xFF)\<rparr>"

definition gdt_entries :: "gdt_entry list" where
  "gdt_entries =
     [make_entry 0 0 0x00 0x00, make_entry 0 0xFFFFFFFF 0x9A 0x20, make_entry 0 0xFFFFFFFF 0x92 0x00,
      make_entry 0 0xFFFFFFFF 0xFA 0x20, make_entry 0 0xFFFFFFFF 0xF2 0x00,
      make_entry 0 0 0x00 0x00, make_entry 0 0 0x00 0x00]"

abbreviation KERNEL_CODE_SEL :: u16 where "KERNEL_CODE_SEL \<equiv> 0x08"
abbreviation KERNEL_DATA_SEL :: u16 where "KERNEL_DATA_SEL \<equiv> 0x10"
abbreviation USER_CODE_SEL :: u16 where "USER_CODE_SEL \<equiv> 0x1B"
abbreviation USER_DATA_SEL :: u16 where "USER_DATA_SEL \<equiv> 0x23"

text \<open>What the processor reads: the selected entry, its base, privilege level and kind.\<close>

definition selected :: "u16 \<Rightarrow> gdt_entry" where
  "selected sel = gdt_entries ! unat (drop_bit 3 sel)"

definition seg_base :: "gdt_entry \<Rightarrow> u32" where
  "seg_base e = ucast (base_low e) OR push_bit 16 (ucast (base_middle e)) OR push_bit 24 (ucast (base_high e))"

definition seg_limit :: "gdt_entry \<Rightarrow> u32" where
  "seg_limit e = ucast (limit_low e) OR push_bit 16 (ucast (flags_limit_high e AND 0x0F))"

definition seg_present :: "gdt_entry \<Rightarrow> bool" where
  "seg_present e \<longleftrightarrow> bit (access_byte e) 7"

definition seg_dpl :: "gdt_entry \<Rightarrow> nat" where
  "seg_dpl e = unat (take_bit 2 (drop_bit 5 (access_byte e)))"

definition seg_code :: "gdt_entry \<Rightarrow> bool" where
  "seg_code e \<longleftrightarrow> bit (access_byte e) 4 \<and> bit (access_byte e) 3"

definition seg_data :: "gdt_entry \<Rightarrow> bool" where
  "seg_data e \<longleftrightarrow> bit (access_byte e) 4 \<and> \<not> bit (access_byte e) 3 \<and> bit (access_byte e) 1"

definition seg_long :: "gdt_entry \<Rightarrow> bool" where
  "seg_long e \<longleftrightarrow> bit (flags_limit_high e) 5"

section \<open>Gates\<close>

record idt_entry =
  offset_low :: u16
  selector :: u16
  ist :: u8
  type_attr :: u8
  offset_middle :: u16
  offset_high :: u32

definition make_gate :: "usize \<Rightarrow> u16 \<Rightarrow> u8 \<Rightarrow> u8 \<Rightarrow> idt_entry" where
  "make_gate handler sel ist_index attr =
     \<lparr>offset_low = ucast (handler AND 0xFFFF), selector = sel, ist = ist_index, type_attr = attr,
      offset_middle = ucast (drop_bit 16 handler AND 0xFFFF),
      offset_high = ucast (drop_bit 32 handler AND 0xFFFFFFFF)\<rparr>"

datatype stub =
  Stub_div_zero | Stub_invalid_opcode | Stub_double_fault | Stub_gpf | Stub_page_fault |
  Stub_syscall_int80 | Stub_irq_master | Stub_irq_slave | Stub_irq_timer | Stub_irq_keyboard

text \<open>\<open>idt_init\<close>, with the addresses that the linker gives the stubs as an argument.\<close>

definition idt_init :: "(stub \<Rightarrow> usize) \<Rightarrow> idt_entry list" where
  "idt_init addr =
     (let gate = (\<lambda>s attr. make_gate (addr s) KERNEL_CODE_SEL 0 attr)
      in (replicate 256 (make_gate 0 KERNEL_CODE_SEL 0 0x00))
        [0 := gate Stub_div_zero 0x8E,
         6 := gate Stub_invalid_opcode 0x8E,
         8 := gate Stub_double_fault 0x8E,
         13 := gate Stub_gpf 0x8E,
         14 := gate Stub_page_fault 0x8E,
         128 := gate Stub_syscall_int80 0xEE,
         0x20 := gate Stub_irq_timer 0x8E,
         0x21 := gate Stub_irq_keyboard 0x8E,
         0x22 := gate Stub_irq_master 0x8E, 0x23 := gate Stub_irq_master 0x8E,
         0x24 := gate Stub_irq_master 0x8E, 0x25 := gate Stub_irq_master 0x8E,
         0x26 := gate Stub_irq_master 0x8E, 0x27 := gate Stub_irq_master 0x8E,
         0x28 := gate Stub_irq_slave 0x8E, 0x29 := gate Stub_irq_slave 0x8E,
         0x2A := gate Stub_irq_slave 0x8E, 0x2B := gate Stub_irq_slave 0x8E,
         0x2C := gate Stub_irq_slave 0x8E, 0x2D := gate Stub_irq_slave 0x8E,
         0x2E := gate Stub_irq_slave 0x8E, 0x2F := gate Stub_irq_slave 0x8E])"

text \<open>A gate as the processor reads it; type 14 is an interrupt gate, type 15 a trap gate.\<close>

definition gate_target :: "idt_entry \<Rightarrow> usize" where
  "gate_target e = ucast (offset_low e) OR push_bit 16 (ucast (offset_middle e)) OR push_bit 32 (ucast (offset_high e))"

definition gate_present :: "idt_entry \<Rightarrow> bool" where
  "gate_present e \<longleftrightarrow> bit (type_attr e) 7"

definition gate_dpl :: "idt_entry \<Rightarrow> nat" where
  "gate_dpl e = unat (take_bit 2 (drop_bit 5 (type_attr e)))"

definition gate_type :: "idt_entry \<Rightarrow> nat" where
  "gate_type e = unat (take_bit 4 (type_attr e))"

text \<open>Which stub serves a vector, from the exception and interrupt numbers of the processor and the PIC.\<close>

definition vector_stub :: "nat \<Rightarrow> stub option" where
  "vector_stub v =
     (if v = 0 then Some Stub_div_zero else if v = 6 then Some Stub_invalid_opcode
      else if v = 8 then Some Stub_double_fault else if v = 13 then Some Stub_gpf
      else if v = 14 then Some Stub_page_fault else if v = 128 then Some Stub_syscall_int80
      else if v = 32 then Some Stub_irq_timer else if v = 33 then Some Stub_irq_keyboard
      else if 34 \<le> v \<and> v < 40 then Some Stub_irq_master
      else if 40 \<le> v \<and> v < 48 then Some Stub_irq_slave else None)"

lemma make_gate_target: "gate_target (make_gate handler sel i attr) = handler"
proof -
  have masks: "(0xFFFF :: u64) = mask 16" "(0xFFFFFFFF :: u64) = mask 32" by (simp_all add: mask_eq_exp_minus_1)
  show ?thesis
    unfolding gate_target_def make_gate_def idt_entry.simps masks take_bit_eq_mask [symmetric]
    by (rule bit_word_eqI, rename_tac n, case_tac "n < 32") (auto simp: bit_simps)
qed

lemma make_entry_base: "seg_base (make_entry base limit access flags) = base"
proof -
  have masks: "(0xFFFF :: u32) = mask 16" "(0xFF :: u32) = mask 8" by (simp_all add: mask_eq_exp_minus_1)
  show ?thesis
    unfolding seg_base_def make_entry_def gdt_entry.simps masks take_bit_eq_mask [symmetric]
    by (rule bit_word_eqI, rename_tac n, case_tac "n < 24") (auto simp: bit_simps)
qed

lemma make_entry_limit: "seg_limit (make_entry base limit access flags) = take_bit 20 limit"
proof -
  have masks: "(0xFFFF :: u32) = mask 16" "(0x0F :: u32) = mask 4" "(0x0F :: u8) = mask 4"
    by (simp_all add: mask_eq_exp_minus_1)
  have "list_all (\<lambda>n. \<not> bit (0xF0 :: u8) n) [0..<4]" by code_simp
  then have low: "n < 4 \<Longrightarrow> \<not> bit (0xF0 :: u8) n" for n by (auto simp: list_all_iff)
  show ?thesis
    unfolding seg_limit_def make_entry_def gdt_entry.simps masks take_bit_eq_mask [symmetric]
    by (rule bit_word_eqI, rename_tac n, case_tac "n < 16") (auto simp: bit_simps low)
qed

lemma idt_init_nth:
  assumes "v < 256"
  shows "idt_init addr ! v =
    (case vector_stub v of None \<Rightarrow> make_gate 0 KERNEL_CODE_SEL 0 0x00
     | Some s \<Rightarrow> make_gate (addr s) KERNEL_CODE_SEL 0 (if v = 128 then 0xEE else 0x8E))"
  using assms by (auto simp: idt_init_def vector_stub_def nth_list_update Let_def)

text \<open>
  The interrupt table sends every vector where it belongs: the five exceptions, the system call
  gate and the sixteen lines of the interrupt controllers reach their stubs through present gates in
  the kernel code segment, all other vectors are absent, and only the system call can be raised from
  user mode. Every gate, the system call included, is an interrupt gate.
\<close>

theorem idt_init_exact:
  assumes "v < 256"
  shows "selector (idt_init addr ! v) = KERNEL_CODE_SEL \<and>
    (case vector_stub v of
       None \<Rightarrow> \<not> gate_present (idt_init addr ! v)
     | Some s \<Rightarrow> gate_present (idt_init addr ! v) \<and> gate_target (idt_init addr ! v) = addr s
         \<and> gate_type (idt_init addr ! v) = 14 \<and> gate_dpl (idt_init addr ! v) = (if v = 128 then 3 else 0))"
proof -
  have attr: "bit (0x8E :: u8) 7" "bit (0xEE :: u8) 7" "unat (take_bit 4 (0x8E :: u8)) = 14" "unat (take_bit 4 (0xEE :: u8)) = 14"
    "unat (take_bit 2 (drop_bit 5 (0x8E :: u8))) = 0" "unat (take_bit 2 (drop_bit 5 (0xEE :: u8))) = 3"
    by code_simp+
  show ?thesis
    unfolding idt_init_nth [OF assms]
    by (cases "vector_stub v")
      (simp_all add: make_gate_target gate_present_def gate_type_def gate_dpl_def make_gate_def [of _ _ _ "0x8E"]
        make_gate_def [of _ _ _ "0xEE"] make_gate_def [of _ _ _ 0] attr)
qed

definition stub_demo :: "stub \<Rightarrow> usize" where
  "stub_demo s = (if s = Stub_syscall_int80 then 0x123456 else 0x2000)"

theorem idt_init_exact_witness:
  "gate_present (idt_init stub_demo ! 128) \<and> gate_target (idt_init stub_demo ! 128) = 0x123456
   \<and> gate_type (idt_init stub_demo ! 128) = 14 \<and> gate_dpl (idt_init stub_demo ! 128) = 3"
  using idt_init_exact [of 128 stub_demo] by (simp add: vector_stub_def stub_demo_def)

text \<open>
  Descriptors keep what they are made from (the whole handler address, the whole base, the low
  20 bits of the limit), and the four selectors of the kernel select what their names say: present
  code and data segments of privilege 0 and 3, the code segments 64-bit. The entries 5 and 6 for the
  task state segment are not present, so the processor has no kernel stack to switch to when an
  interrupt arrives in user mode.
\<close>

theorem descriptors_exact:
  "gate_target (make_gate handler sel i attr) = handler
   \<and> seg_base (make_entry base limit access flags) = base
   \<and> seg_limit (make_entry base limit access flags) = take_bit 20 limit
   \<and> list_all (\<lambda>(s, code, dpl). seg_present (selected s) \<and> seg_dpl (selected s) = dpl
          \<and> (if code then seg_code (selected s) \<and> seg_long (selected s) else seg_data (selected s)))
        [(KERNEL_CODE_SEL, True, 0), (KERNEL_DATA_SEL, False, 0), (USER_CODE_SEL, True, 3), (USER_DATA_SEL, False, 3)]
   \<and> \<not> seg_present (gdt_entries ! 5) \<and> \<not> seg_present (gdt_entries ! 6)"
proof (intro conjI)
  show "list_all (\<lambda>(s, code, dpl). seg_present (selected s) \<and> seg_dpl (selected s) = dpl
          \<and> (if code then seg_code (selected s) \<and> seg_long (selected s) else seg_data (selected s)))
        [(KERNEL_CODE_SEL, True, 0), (KERNEL_DATA_SEL, False, 0), (USER_CODE_SEL, True, 3), (USER_DATA_SEL, False, 3)]"
    by code_simp
  show "\<not> seg_present (gdt_entries ! 5)" "\<not> seg_present (gdt_entries ! 6)" by code_simp+
qed (simp_all add: make_gate_target make_entry_base make_entry_limit)

section \<open>The stubs\<close>

text \<open>
  The processor pushes \<open>ss\<close>, \<open>rsp\<close>, \<open>rflags\<close>, \<open>cs\<close>, \<open>rip\<close> and for some exceptions an error code; the stub
  pushes a 0 where there is none, then the 15 registers, and passes the stack pointer to the handler
  as a \<open>*TrapFrame\<close>. Stacks are lists, the top first; the struct lies at increasing addresses, so its
  fields are the list in order.
\<close>

datatype gpr = RAX | RBX | RCX | RDX | RSI | RDI | RBP | R8 | R9 | R10 | R11 | R12 | R13 | R14 | R15

record cpu =
  gpr_val :: "gpr \<Rightarrow> u64"
  cpu_rip :: u64
  cpu_cs :: u64
  cpu_rflags :: u64
  cpu_rsp :: u64
  cpu_ss :: u64

definition push_regs :: "gpr list \<Rightarrow> cpu \<Rightarrow> u64 list \<Rightarrow> u64 list" where
  "push_regs rs c st = fold (\<lambda>r st. gpr_val c r # st) rs st"

definition pushes :: "gpr list" where
  "pushes = [RAX, RBX, RCX, RDX, RSI, RDI, RBP, R8, R9, R10, R11, R12, R13, R14, R15]"

definition pops :: "gpr list" where
  "pops = [R15, R14, R13, R12, R11, R10, R9, R8, RBP, RDI, RSI, RDX, RCX, RBX, RAX]"

fun pop_regs :: "gpr list \<Rightarrow> cpu \<Rightarrow> u64 list \<Rightarrow> cpu \<times> u64 list" where
  "pop_regs (r # rs) c (v # st) = pop_regs rs (c\<lparr>gpr_val := (gpr_val c)(r := v)\<rparr>) st"
| "pop_regs _ c st = (c, st)"

text \<open>The fields of \<open>TrapFrame\<close> in the order of the declaration.\<close>

definition frame_at :: "u64 list \<Rightarrow> trap_frame" where
  "frame_at st =
     \<lparr>tf_r15 = st ! 0, tf_r14 = st ! 1, tf_r13 = st ! 2, tf_r12 = st ! 3, tf_r11 = st ! 4, tf_r10 = st ! 5,
      tf_r9 = st ! 6, tf_r8 = st ! 7, tf_rbp = st ! 8, tf_rdi = st ! 9, tf_rsi = st ! 10, tf_rdx = st ! 11,
      tf_rcx = st ! 12, tf_rbx = st ! 13, tf_rax = st ! 14, tf_error_code = st ! 15,
      tf_rip = st ! 16, tf_cs = st ! 17, tf_rflags = st ! 18, tf_rsp = st ! 19, tf_ss = st ! 20\<rparr>"

definition frame_words :: "trap_frame \<Rightarrow> u64 list" where
  "frame_words f =
     [tf_r15 f, tf_r14 f, tf_r13 f, tf_r12 f, tf_r11 f, tf_r10 f, tf_r9 f, tf_r8 f, tf_rbp f, tf_rdi f, tf_rsi f,
      tf_rdx f, tf_rcx f, tf_rbx f, tf_rax f, tf_error_code f, tf_rip f, tf_cs f, tf_rflags f, tf_rsp f, tf_ss f]"

definition iretq :: "u64 list \<Rightarrow> cpu \<Rightarrow> cpu" where
  "iretq st c = c\<lparr>cpu_rip := st ! 0, cpu_cs := st ! 1, cpu_rflags := st ! 2, cpu_rsp := st ! 3, cpu_ss := st ! 4\<rparr>"

definition isr_exit :: "trap_frame \<Rightarrow> cpu \<Rightarrow> cpu" where
  "isr_exit f c = (case pop_regs pops c (frame_words f) of (c1, st) \<Rightarrow> iretq (drop 1 st) c1)"

text \<open>\<open>isr_stub_with_err\<close> starts with the error code on the stack, \<open>isr_stub_no_err\<close> pushes 0 for it.\<close>

definition isr_stub_with_err ::
  "(trap_frame \<Rightarrow> 's \<Rightarrow> (trap_frame \<times> 's) outcome) \<Rightarrow> u64 \<Rightarrow> cpu \<Rightarrow> 's \<Rightarrow> (cpu \<times> 's) outcome" where
  "isr_stub_with_err handler_fn err c s =
     (let st = push_regs pushes c (err # [cpu_rip c, cpu_cs c, cpu_rflags c, cpu_rsp c, cpu_ss c])
      in obind (handler_fn (frame_at st) s) (\<lambda>(f, s'). Ret (isr_exit f c, s')))"

definition isr_stub_no_err ::
  "(trap_frame \<Rightarrow> 's \<Rightarrow> (trap_frame \<times> 's) outcome) \<Rightarrow> cpu \<Rightarrow> 's \<Rightarrow> (cpu \<times> 's) outcome" where
  "isr_stub_no_err handler_fn c s =
     (let st = push_regs pushes c (0 # [cpu_rip c, cpu_cs c, cpu_rflags c, cpu_rsp c, cpu_ss c])
      in obind (handler_fn (frame_at st) s) (\<lambda>(f, s'). Ret (isr_exit f c, s')))"

text \<open>The frame of a processor state, and the processor state of a frame, field by field.\<close>

definition cpu_frame :: "u64 \<Rightarrow> cpu \<Rightarrow> trap_frame" where
  "cpu_frame err c =
     \<lparr>tf_r15 = gpr_val c R15, tf_r14 = gpr_val c R14, tf_r13 = gpr_val c R13, tf_r12 = gpr_val c R12,
      tf_r11 = gpr_val c R11, tf_r10 = gpr_val c R10, tf_r9 = gpr_val c R9, tf_r8 = gpr_val c R8,
      tf_rbp = gpr_val c RBP, tf_rdi = gpr_val c RDI, tf_rsi = gpr_val c RSI, tf_rdx = gpr_val c RDX,
      tf_rcx = gpr_val c RCX, tf_rbx = gpr_val c RBX, tf_rax = gpr_val c RAX, tf_error_code = err,
      tf_rip = cpu_rip c, tf_cs = cpu_cs c, tf_rflags = cpu_rflags c, tf_rsp = cpu_rsp c, tf_ss = cpu_ss c\<rparr>"

fun frame_reg :: "trap_frame \<Rightarrow> gpr \<Rightarrow> u64" where
  "frame_reg f RAX = tf_rax f" | "frame_reg f RBX = tf_rbx f" | "frame_reg f RCX = tf_rcx f"
| "frame_reg f RDX = tf_rdx f" | "frame_reg f RSI = tf_rsi f" | "frame_reg f RDI = tf_rdi f"
| "frame_reg f RBP = tf_rbp f" | "frame_reg f R8 = tf_r8 f" | "frame_reg f R9 = tf_r9 f"
| "frame_reg f R10 = tf_r10 f" | "frame_reg f R11 = tf_r11 f" | "frame_reg f R12 = tf_r12 f"
| "frame_reg f R13 = tf_r13 f" | "frame_reg f R14 = tf_r14 f" | "frame_reg f R15 = tf_r15 f"

definition frame_cpu :: "trap_frame \<Rightarrow> cpu" where
  "frame_cpu f = \<lparr>gpr_val = frame_reg f, cpu_rip = tf_rip f, cpu_cs = tf_cs f, cpu_rflags = tf_rflags f,
     cpu_rsp = tf_rsp f, cpu_ss = tf_ss f\<rparr>"

lemma frame_entry:
  "frame_at (push_regs pushes c (err # [cpu_rip c, cpu_cs c, cpu_rflags c, cpu_rsp c, cpu_ss c])) = cpu_frame err c"
  by (simp add: frame_at_def push_regs_def pushes_def cpu_frame_def)

lemma frame_exit: "isr_exit f c = frame_cpu f"
proof -
  have "(gpr_val c)(R15 := tf_r15 f, R14 := tf_r14 f, R13 := tf_r13 f, R12 := tf_r12 f, R11 := tf_r11 f, R10 := tf_r10 f,
      R9 := tf_r9 f, R8 := tf_r8 f, RBP := tf_rbp f, RDI := tf_rdi f, RSI := tf_rsi f, RDX := tf_rdx f, RCX := tf_rcx f,
      RBX := tf_rbx f, RAX := tf_rax f) = frame_reg f"
  proof
    fix r
    show "((gpr_val c)(R15 := tf_r15 f, R14 := tf_r14 f, R13 := tf_r13 f, R12 := tf_r12 f, R11 := tf_r11 f, R10 := tf_r10 f,
      R9 := tf_r9 f, R8 := tf_r8 f, RBP := tf_rbp f, RDI := tf_rdi f, RSI := tf_rsi f, RDX := tf_rdx f, RCX := tf_rcx f,
      RBX := tf_rbx f, RAX := tf_rax f)) r = frame_reg f r"
      by (cases r) simp_all
  qed
  then show ?thesis
    by (simp add: isr_exit_def pops_def frame_words_def iretq_def frame_cpu_def)
qed

lemma frame_cpu_frame [simp]: "frame_cpu (cpu_frame err c) = c"
proof -
  have "frame_reg (cpu_frame err c) = gpr_val c"
  proof
    fix r show "frame_reg (cpu_frame err c) r = gpr_val c r" by (cases r) (simp_all add: cpu_frame_def)
  qed
  then show ?thesis by (simp add: frame_cpu_def) (simp add: cpu_frame_def)
qed

lemma stub_frames:
  "isr_stub_with_err handler_fn err c s = obind (handler_fn (cpu_frame err c) s) (\<lambda>(f, s'). Ret (frame_cpu f, s'))"
  "isr_stub_no_err handler_fn c s = obind (handler_fn (cpu_frame 0 c) s) (\<lambda>(f, s'). Ret (frame_cpu f, s'))"
  by (simp_all only: isr_stub_with_err_def isr_stub_no_err_def Let_def frame_entry frame_exit)

section \<open>Handlers\<close>

text \<open>The kernel as the interrupts find it; \<open>CR2\<close> is the processor's fault address register.\<close>

record system =
  sys_world :: world
  sys_kb :: keyboard
  sys_plat :: platform

definition on_plat :: "(platform \<Rightarrow> platform outcome) \<Rightarrow> system \<Rightarrow> system outcome" where
  "on_plat f s = obind (f (sys_plat s)) (\<lambda>p. Ret (s\<lparr>sys_plat := p\<rparr>))"

text \<open>\<open>while (true) hlt\<close>.\<close>

definition halt :: "platform \<Rightarrow> 'a outcome" where
  "halt p = Hang"

definition handle_div_zero :: "trap_frame \<Rightarrow> system \<Rightarrow> (trap_frame \<times> system) outcome" where
  "handle_div_zero frame s =
     (let p = paint LightRed Black (sys_plat s) in
      obind (say (lit ''[EXCEPTION #DE] Division by Zero!'' @ newline) p) (\<lambda>p.
      obind (say (lit ''  RIP='') p) (\<lambda>p.
      obind (on_con (print_hex (tf_rip frame)) p) (\<lambda>p.
      obind (say (lit '' CS='') p) (\<lambda>p.
      obind (on_con (print_hex (tf_cs frame)) p) (\<lambda>p.
      obind (say newline p) (\<lambda>p.
      halt (paint White Black p))))))))"

definition handle_invalid_opcode :: "trap_frame \<Rightarrow> system \<Rightarrow> (trap_frame \<times> system) outcome" where
  "handle_invalid_opcode frame s =
     (let p = paint LightRed Black (sys_plat s) in
      obind (say (lit ''[EXCEPTION #UD] Invalid Opcode at RIP='') p) (\<lambda>p.
      obind (on_con (print_hex (tf_rip frame)) p) (\<lambda>p.
      obind (say newline p) (\<lambda>p.
      halt (paint White Black p)))))"

definition handle_double_fault :: "trap_frame \<Rightarrow> system \<Rightarrow> (trap_frame \<times> system) outcome" where
  "handle_double_fault frame s =
     (let p = paint White Red (sys_plat s) in
      obind (say (newline @ lit ''*** KERNEL PANIC: Double Fault ***'' @ newline) p) (\<lambda>p.
      obind (say (lit ''RIP='') p) (\<lambda>p.
      obind (on_con (print_hex (tf_rip frame)) p) (\<lambda>p.
      obind (say (lit '' RSP='') p) (\<lambda>p.
      obind (on_con (print_hex (tf_rsp frame)) p) (\<lambda>p.
      obind (say newline p) halt))))))"

definition handle_gpf :: "trap_frame \<Rightarrow> system \<Rightarrow> (trap_frame \<times> system) outcome" where
  "handle_gpf frame s =
     (let p = paint LightRed Black (sys_plat s) in
      obind (say (lit ''[EXCEPTION #GP] General Protection Fault'' @ newline) p) (\<lambda>p.
      obind (say (lit ''  Error code='') p) (\<lambda>p.
      obind (on_con (print_hex (tf_error_code frame)) p) (\<lambda>p.
      obind (say (lit '' RIP='') p) (\<lambda>p.
      obind (on_con (print_hex (tf_rip frame)) p) (\<lambda>p.
      obind (say newline p) (\<lambda>p.
      halt (paint White Black p))))))))"

definition page_fault_report :: "u64 \<Rightarrow> trap_frame \<Rightarrow> platform \<Rightarrow> platform outcome" where
  "page_fault_report cr2_reg frame p =
     (let p = paint Yellow Black p; code = tf_error_code frame in
      obind (say (lit ''[EXCEPTION #PF] Page Fault'' @ newline) p) (\<lambda>p.
      obind (say (lit ''  Faulting addr (CR2)='') p) (\<lambda>p.
      obind (on_con (print_hex cr2_reg) p) (\<lambda>p.
      obind (say (newline @ lit ''  Error code='') p) (\<lambda>p.
      obind (on_con (print_hex code) p) (\<lambda>p.
      obind (say (if code AND 1 \<noteq> 0 then lit '' [Protection]'' else lit '' [Not-Present]'') p) (\<lambda>p.
      obind (say (if code AND 2 \<noteq> 0 then lit '' [Write]'' else lit '' [Read]'') p) (\<lambda>p.
      obind (say (if code AND 4 \<noteq> 0 then lit '' [User]'' else lit '' [Kernel]'') p) (\<lambda>p.
      obind (say (newline @ lit ''  RIP='') p) (\<lambda>p.
      obind (on_con (print_hex (tf_rip frame)) p) (\<lambda>p.
      obind (say (lit '' RSP='') p) (\<lambda>p.
      obind (on_con (print_hex (tf_rsp frame)) p) (\<lambda>p.
      obind (say newline p) (\<lambda>p.
      Ret (paint White Black p)))))))))))))))"

text \<open>The casts of the error code to \<open>u32\<close> is checked when the build has safety checks.\<close>

definition handle_page_fault :: "u64 \<Rightarrow> trap_frame \<Rightarrow> system \<Rightarrow> (trap_frame \<times> system) outcome" where
  "handle_page_fault cr2_reg frame s =
     obind (page_fault_report cr2_reg frame (sys_plat s)) (\<lambda>p.
     if tf_error_code frame \<ge> 2 ^ 32 then (if zig_safety (hw (sys_world s)) then Panic else Undef)
     else obind (vasm_handle_page_fault (sys_world s) cr2_reg) (\<lambda>(handled, w).
     if handled
     then obind (announce LightGreen (lit ''[#PF] Handled successfully by VASM.'' @ newline) p) (\<lambda>p.
          Ret (frame, s\<lparr>sys_world := w, sys_plat := p\<rparr>))
     else obind (say (lit ''[#PF] Unhandled Page Fault! Halting CPU.'' @ newline) (paint LightRed Black p)) halt))"

definition handle_syscall_int80 :: "bitflags \<Rightarrow> trap_frame \<Rightarrow> system \<Rightarrow> (trap_frame \<times> system) outcome" where
  "handle_syscall_int80 bf frame s =
     obind (rust_syscall_dispatch bf (sys_world s) (tf_rax frame) (tf_rdi frame) (tf_rsi frame) (tf_rdx frame)
              (tf_r10 frame) (tf_r8 frame) (tf_r9 frame)) (\<lambda>(result, w).
     Ret (frame\<lparr>tf_rax := result\<rparr>, s\<lparr>sys_world := w\<rparr>))"

definition handle_master_irq :: "trap_frame \<Rightarrow> system \<Rightarrow> (trap_frame \<times> system) outcome" where
  "handle_master_irq frame s = Ret (frame, s\<lparr>sys_plat := eoi_master (sys_plat s)\<rparr>)"

definition handle_slave_irq :: "trap_frame \<Rightarrow> system \<Rightarrow> (trap_frame \<times> system) outcome" where
  "handle_slave_irq frame s = Ret (frame, s\<lparr>sys_plat := eoi_slave (sys_plat s)\<rparr>)"

definition handle_timer_irq :: "u64 list \<Rightarrow> trap_frame \<Rightarrow> system \<Rightarrow> (trap_frame \<times> system) outcome" where
  "handle_timer_irq key_order frame s =
     obind (rust_kernel_tick key_order (Some frame) (sys_world s)) (\<lambda>(frame', w).
     Ret (the frame', s\<lparr>sys_world := w, sys_plat := eoi_master (sys_plat s)\<rparr>))"

definition handle_keyboard_irq :: "device \<Rightarrow> trap_frame \<Rightarrow> system \<Rightarrow> (trap_frame \<times> system) outcome" where
  "handle_keyboard_irq dev frame s =
     obind (handle_keyboard_interrupt dev (sys_kb s, sys_plat s)) (\<lambda>(kb, p).
     Ret (frame, s\<lparr>sys_kb := kb, sys_plat := p\<rparr>))"

text \<open>The environment of an interrupt: devices, the fault address, the order of the token table.\<close>

record environ =
  env_dev :: device
  env_bf :: bitflags
  env_cr2 :: u64
  env_keys :: "u64 list"
  env_err :: u64

fun run_stub :: "environ \<Rightarrow> stub \<Rightarrow> cpu \<Rightarrow> system \<Rightarrow> (cpu \<times> system) outcome" where
  "run_stub e Stub_div_zero c s = isr_stub_no_err handle_div_zero c s"
| "run_stub e Stub_invalid_opcode c s = isr_stub_no_err handle_invalid_opcode c s"
| "run_stub e Stub_double_fault c s = isr_stub_with_err handle_double_fault (env_err e) c s"
| "run_stub e Stub_gpf c s = isr_stub_with_err handle_gpf (env_err e) c s"
| "run_stub e Stub_page_fault c s = isr_stub_with_err (handle_page_fault (env_cr2 e)) (env_err e) c s"
| "run_stub e Stub_syscall_int80 c s = isr_stub_no_err (handle_syscall_int80 (env_bf e)) c s"
| "run_stub e Stub_irq_master c s = isr_stub_no_err handle_master_irq c s"
| "run_stub e Stub_irq_slave c s = isr_stub_no_err handle_slave_irq c s"
| "run_stub e Stub_irq_timer c s = isr_stub_no_err (handle_timer_irq (env_keys e)) c s"
| "run_stub e Stub_irq_keyboard c s = isr_stub_no_err (handle_keyboard_irq (env_dev e)) c s"

section \<open>What an interrupt does to the program it interrupts\<close>


lemma load_frame_cpu:
  "frame_cpu (load_frame ctx (cpu_frame err c)) = c\<lparr>cpu_rip := ctx_rip ctx, cpu_rsp := ctx_rsp ctx, cpu_cs := ctx_cs ctx,
     cpu_ss := ctx_ss ctx, cpu_rflags := ctx_rflags ctx\<rparr>"
proof -
  have "frame_reg (load_frame ctx (cpu_frame err c)) = gpr_val c"
  proof
    fix x show "frame_reg (load_frame ctx (cpu_frame err c)) x = gpr_val c x"
      by (cases x) (simp_all add: load_frame_def cpu_frame_def)
  qed
  then show ?thesis by (simp add: frame_cpu_def) (simp add: load_frame_def cpu_frame_def)
qed

lemma expire_keeps_sched: "expire_token t w = Ret w' \<Longrightarrow> k_sched w' = k_sched w"
  by (auto simp: expire_token_def modify_token_def obind_eq_Ret split: option.splits)

lemma tick_frame:
  assumes "rust_kernel_tick ks (Some f) w = Ret (f', w')"
  shows "f' = Some (case schedule_next (k_sched w) of (None, _) \<Rightarrow> f | (Some h, q) \<Rightarrow> load_frame (th_context (thread_at q h)) f)"
proof -
  define w1 where "w1 = w\<lparr>tick_count := tick_count w + 1\<rparr>"
  obtain w2 where w2: "ofold expire_token (expired_ids ks w1) w1 = Ret w2"
    using assms by (auto simp: rust_kernel_tick_def obind_eq_Ret w1_def Let_def)
  then have "k_sched w2 = k_sched w"
    by (rule ofold_invariant [where I = "\<lambda>v. k_sched v = k_sched w"]) (auto simp: w1_def dest: expire_keeps_sched)
  then show ?thesis
    using assms w2 by (auto simp: rust_kernel_tick_def w1_def [symmetric] Let_def split: prod.splits option.splits)
qed

text \<open>
  A timer interrupt that returns is acknowledged once, after the kernel's work, and resumes either
  the interrupted program exactly as it was or the thread the scheduler made active: at the
  instruction and stack pointers, segments and flags of that thread's context. The fifteen general
  registers are in both cases those of the interrupted program.
\<close>

theorem timer_interrupt_resumes:
  assumes "run_stub e Stub_irq_timer c s = Ret (c', s')"
  shows "writes (sys_plat s') = writes (sys_plat s) @ [Out8 0x20 0x20] \<and> gpr_val c' = gpr_val c
    \<and> (case schedule_next (k_sched (sys_world s)) of
         (None, _) \<Rightarrow> c' = c
       | (Some h, q) \<Rightarrow> let ctx = th_context (thread_at q h)
           in c' = c\<lparr>cpu_rip := ctx_rip ctx, cpu_rsp := ctx_rsp ctx, cpu_cs := ctx_cs ctx,
                     cpu_ss := ctx_ss ctx, cpu_rflags := ctx_rflags ctx\<rparr>)"
proof -
  obtain f' w' where tick: "rust_kernel_tick (env_keys e) (Some (cpu_frame 0 c)) (sys_world s) = Ret (f', w')"
    using assms by (auto simp: stub_frames handle_timer_irq_def obind_eq_Ret)
  from tick_frame [OF this] have f': "the f' = (case schedule_next (k_sched (sys_world s)) of
      (None, _) \<Rightarrow> cpu_frame 0 c | (Some h, q) \<Rightarrow> load_frame (th_context (thread_at q h)) (cpu_frame 0 c))"
    by (auto split: prod.splits option.splits)
  have "c' = frame_cpu (the f')" "s' = s\<lparr>sys_world := w', sys_plat := eoi_master (sys_plat s)\<rparr>"
    using assms tick by (auto simp: stub_frames handle_timer_irq_def)
  then show ?thesis
    unfolding f' by (auto simp: load_frame_cpu eoi_master_def Let_def split: prod.splits option.splits)
qed

text \<open>A world with one thread that is ready, and a processor in another program.\<close>

definition system_demo :: system where
  "system_demo = \<lparr>sys_world = (kernel_new machine_demo)\<lparr>k_sched := snd (spawn scheduler_new 1 (lit ''sh'') 0x400000)\<rparr>,
     sys_kb = keyboard_demo, sys_plat = platform_demo\<rparr>"

definition cpu_demo :: cpu where
  "cpu_demo = \<lparr>gpr_val = \<lambda>_. 7, cpu_rip = 0x1000, cpu_cs = 8, cpu_rflags = 0x202, cpu_rsp = 0x8000, cpu_ss = 0x10\<rparr>"

definition environ_demo :: environ where
  "environ_demo = \<lparr>env_dev = quiet_device, env_bf = bitflags_model, env_cr2 = 0x5000, env_keys = [], env_err = 4\<rparr>"

theorem timer_interrupt_resumes_witness:
  "\<exists>c' s'. run_stub environ_demo Stub_irq_timer cpu_demo system_demo = Ret (c', s')
    \<and> cpu_rip c' = 0x400000 \<and> cpu_cs c' = 0x1B \<and> gpr_val c' RAX = 7"
proof -
  let ?w = "sys_world system_demo"
  have sched: "schedule_next (k_sched ?w) = (Some 0, (k_sched ?w)\<lparr>active_thread := Some 0\<rparr>)"
    by (simp add: system_demo_def schedule_next_def spawn_def scheduler_new_def set_state_def modify_thread_def Let_def)
  obtain r where run: "run_stub environ_demo Stub_irq_timer cpu_demo system_demo = Ret r"
    using sched by (simp add: stub_frames handle_timer_irq_def rust_kernel_tick_def environ_demo_def expired_ids_def Let_def)
  obtain c' s' where r: "r = (c', s')" by (cases r)
  have "th_context (thread_at (k_sched ?w) 0) = user_context 0x400000"
    by (simp add: system_demo_def spawn_def scheduler_new_def Let_def)
  then show ?thesis
    using timer_interrupt_resumes [OF run [unfolded r]] sched run r
    by (simp add: user_context_def Let_def cpu_demo_def)
qed

lemma page_fault_report_screen: "screen_only (page_fault_report a f)"
  unfolding page_fault_report_def Let_def
  by (rule screen_only_painted [where act = "\<lambda>p. obind (say (lit ''[EXCEPTION #PF] Page Fault'' @ newline) p) _"])
    (intro screen_only_bind screen_only_say screen_only_hex screen_only_paint)

lemma halting_handlers:
  assumes "cursor_shown (con (sys_plat s))"
  shows "handle_div_zero f s = Hang" "handle_invalid_opcode f s = Hang" "handle_gpf f s = Hang" "handle_double_fault f s = Hang"
  using assms
  unfolding handle_div_zero_def handle_invalid_opcode_def handle_gpf_def handle_double_fault_def Let_def
  by (auto intro!: screen_only_hang screen_only_say screen_only_hex simp: halt_def)

text \<open>
  A page fault that the memory manager resolves is invisible to the program: it resumes at the
  same instruction with every register as it was. One that it does not resolve stops the machine, for
  a user program as for the kernel, and so does every other exception that has a handler.
\<close>

theorem exceptions_exact:
  assumes "cursor_shown (con (sys_plat s))"
  shows "(vasm_handle_page_fault (sys_world s) (env_cr2 e) = Ret (True, w') \<and> env_err e < 2 ^ 32 \<longrightarrow>
      (\<exists>s'. run_stub e Stub_page_fault c s = Ret (c, s') \<and> sys_world s' = w' \<and> sys_kb s' = sys_kb s))
    \<and> (vasm_handle_page_fault (sys_world s) (env_cr2 e) = Ret (False, w') \<and> env_err e < 2 ^ 32 \<longrightarrow>
      run_stub e Stub_page_fault c s = Hang)
    \<and> run_stub e Stub_div_zero c s = Hang \<and> run_stub e Stub_invalid_opcode c s = Hang
    \<and> run_stub e Stub_gpf c s = Hang \<and> run_stub e Stub_double_fault c s = Hang"
proof (intro conjI impI)
  obtain p where p: "page_fault_report (env_cr2 e) (cpu_frame (env_err e) c) (sys_plat s) = Ret p" "cursor_shown (con p)"
    using page_fault_report_screen assms unfolding screen_only_def by blast
  {
    assume ok: "vasm_handle_page_fault (sys_world s) (env_cr2 e) = Ret (True, w') \<and> env_err e < 2 ^ 32"
    obtain p' where "announce LightGreen (lit ''[#PF] Handled successfully by VASM.'' @ newline) p = Ret p'"
      using announce_returns [OF p(2)] by blast
    with ok p show "\<exists>s'. run_stub e Stub_page_fault c s = Ret (c, s') \<and> sys_world s' = w' \<and> sys_kb s' = sys_kb s"
      by (simp add: stub_frames handle_page_fault_def) (simp add: cpu_frame_def not_le)
  next
    assume "vasm_handle_page_fault (sys_world s) (env_cr2 e) = Ret (False, w') \<and> env_err e < 2 ^ 32"
    moreover obtain p' where "say (lit ''[#PF] Unhandled Page Fault! Halting CPU.'' @ newline) (paint LightRed Black p) = Ret p'"
      using say_returns [of "paint LightRed Black p"] p(2) by auto
    ultimately show "run_stub e Stub_page_fault c s = Hang"
      using p by (simp add: stub_frames handle_page_fault_def halt_def) (simp add: cpu_frame_def not_le)
  }
qed (use assms in \<open>simp_all add: stub_frames halting_handlers\<close>)

theorem exceptions_exact_witness:
  "run_stub environ_demo Stub_page_fault cpu_demo system_demo = Hang
   \<and> run_stub environ_demo Stub_gpf cpu_demo system_demo = Hang"
proof -
  have "vasm_handle_page_fault (sys_world system_demo) (env_cr2 environ_demo) = Ret (False, sys_world system_demo)"
    by (simp add: vasm_handle_page_fault_def system_demo_def spawn_def scheduler_new_def Let_def)
  moreover have "env_err environ_demo < 2 ^ 32" "cursor_shown (con (sys_plat system_demo))"
    by (simp_all add: environ_demo_def system_demo_def)
  ultimately show ?thesis using exceptions_exact [of system_demo environ_demo "sys_world system_demo" cpu_demo] by blast
qed

end
