(* ===== verification/Shell.thy ===== *)
theory Shell
  imports Interrupts
begin

text \<open>
  The interactive shell of \<open>kernel/shell.zig\<close>: the line editor, the tokenizer and the commands, on the
  kernel state (\<open>world\<close>), the keyboard and the screen. The line buffer lies in kernel memory, because
  the commands pass pointers into it to the Rust core. What \<open>ls\<close> and \<open>cat\<close> print is what the exports of
  theory Kernel print; the log messages of \<open>exec\<close> are left out, as everywhere.
\<close>

section \<open>State and environment\<close>

text \<open>
  The addresses of the line buffer and of the literal \<open>"/"\<close> are the compiler's choice, the orders of the
  two hash tables that \<open>ls\<close> walks are arbitrary.
\<close>

record shell_env =
  line_addr :: u64
  root_addr :: u64
  sh_bf :: bitflags
  sh_ramfs_keys :: "rstr list"
  sh_driver_keys :: "rstr list"

abbreviation LINE_BUF_SIZE :: nat where "LINE_BUF_SIZE \<equiv> 256"

definition line_text :: "shell_env \<Rightarrow> system \<Rightarrow> nat \<Rightarrow> bytes" where
  "line_text e s n = mem_read (mem (hw (sys_world s))) (line_addr e) n"

definition sys_put :: "u8 \<Rightarrow> system \<Rightarrow> system outcome" where
  "sys_put ch = on_plat (on_con (put_char ch))"

definition sys_say :: "rstr \<Rightarrow> system \<Rightarrow> system outcome" where
  "sys_say msg = on_plat (say msg)"

definition sys_paint :: "color \<Rightarrow> color \<Rightarrow> system \<Rightarrow> system" where
  "sys_paint fg bg s = s\<lparr>sys_plat := paint fg bg (sys_plat s)\<rparr>"

section \<open>Commands\<close>

definition print_prompt :: "system \<Rightarrow> system outcome" where
  "print_prompt = on_plat (announce LightGreen (lit ''lorifa$ ''))"

definition cmd_help :: "system \<Rightarrow> system outcome" where
  "cmd_help = on_plat (announce Cyan
     (lit ''Available commands:'' @ newline
      @ lit ''  help                  Show this help message'' @ newline
      @ lit ''  clear                 Clear the screen'' @ newline
      @ lit ''  status                Show memory and kernel status'' @ newline
      @ lit ''  diskinfo              Read sector 0 of ATA drive'' @ newline
      @ lit ''  ls <path>             List directory contents'' @ newline
      @ lit ''  cat <path>            Print file contents'' @ newline
      @ lit ''  exec <path>           Execute an ELF binary'' @ newline
      @ lit ''  echo <text>           Echo text back to the terminal'' @ newline
      @ lit ''  reboot                Halt the system'' @ newline))"

definition print_amount :: "rstr \<Rightarrow> nat \<Rightarrow> nat \<Rightarrow> platform \<Rightarrow> platform outcome" where
  "print_amount title mb pgs p =
     obind (say title p) (\<lambda>p.
     obind (on_con (print_dec (of_nat mb)) p) (\<lambda>p.
     obind (say (lit '' MB ('') p) (\<lambda>p.
     obind (on_con (print_dec (of_nat pgs)) p) (\<lambda>p.
     say (lit '' pages)'' @ newline) p))))"

text \<open>An underflow of the subtraction that gives the used pages is detected in a build with checks.\<close>

definition cmd_status :: "system \<Rightarrow> system outcome" where
  "cmd_status s =
     (let free_pgs = free_pages (phys (hw (sys_world s))); total_pgs = TOTAL_PAGES in
      if free_pgs > total_pgs then (if zig_safety (hw (sys_world s)) then Panic else Undef)
      else let used_pgs = total_pgs - free_pgs;
               total_mb = total_pgs * PAGE_SIZE div (1024 * 1024);
               used_mb = used_pgs * PAGE_SIZE div (1024 * 1024);
               free_mb = free_pgs * PAGE_SIZE div (1024 * 1024)
           in on_plat (\<lambda>p.
              obind (announce Yellow (lit ''--- Lofita Kernel Status ---'' @ newline) p) (\<lambda>p.
              obind (print_amount (lit ''  Total Memory: '') total_mb total_pgs p) (\<lambda>p.
              obind (print_amount (lit ''  Used Memory:  '') used_mb used_pgs p) (\<lambda>p.
              obind (print_amount (lit ''  Free Memory:  '') free_mb free_pgs p) (\<lambda>p.
              obind (say (lit ''  VGA: 80x25 text mode @ 0xB8000'' @ newline) p) (\<lambda>p.
              say (lit ''  Architecture: x86_64, Long Mode'' @ newline) p)))))) s)"

definition cmd_echo :: "bytes \<Rightarrow> system \<Rightarrow> system outcome" where
  "cmd_echo args s = obind (sys_say args s) (sys_say newline)"

definition cmd_diskinfo :: "system \<Rightarrow> system outcome" where
  "cmd_diskinfo s =
     obind (sys_say (lit ''Reading Sector 0 from ATA Primary Master...'' @ newline) s) (\<lambda>s.
     let buf = ata_read_sectors (disk (hw (sys_world s))) 0 1 in
     obind (sys_say (lit ''Boot Signature (bytes 510-511): 0x'') s) (\<lambda>s.
     obind (sys_say [hex_digit (drop_bit 4 (buf ! 511) AND 0xF), hex_digit (buf ! 511 AND 0xF),
                     hex_digit (drop_bit 4 (buf ! 510) AND 0xF), hex_digit (buf ! 510 AND 0xF)] s) (\<lambda>s.
     obind (sys_say newline s) (\<lambda>s.
     if buf ! 510 = 0x55 \<and> buf ! 511 = 0xAA
     then on_plat (announce LightGreen (lit ''MBR Boot Signature VALID!'' @ newline)) s
     else on_plat (announce LightRed (lit ''Invalid or missing Boot Signature.'' @ newline)) s))))"

text \<open>The argument is the address and the length of the slice \<open>args\<close>.\<close>

definition cmd_ls :: "shell_env \<Rightarrow> u64 \<Rightarrow> nat \<Rightarrow> system \<Rightarrow> system outcome" where
  "cmd_ls e p n s =
     (let (path, len) = (if n = 0 then (root_addr e, 1) else (p, n))
      in obind (rust_vfs_list_print (sh_ramfs_keys e) (sh_driver_keys e) (sys_world s) path (of_nat len)) (\<lambda>out.
         sys_say (concat out) s))"

definition cmd_cat :: "shell_env \<Rightarrow> u64 \<Rightarrow> nat \<Rightarrow> system \<Rightarrow> system outcome" where
  "cmd_cat e p n s =
     (if n = 0 then sys_say (lit ''Usage: cat <path>'' @ newline) s
      else obind (rust_vfs_cat_print (sys_world s) p (of_nat n)) (\<lambda>out. sys_say out s))"

definition cmd_exec :: "shell_env \<Rightarrow> u64 \<Rightarrow> nat \<Rightarrow> system \<Rightarrow> system outcome" where
  "cmd_exec e p n s =
     (if n = 0 then sys_say (lit ''Usage: exec <path>'' @ newline) s
      else obind (rust_spawn_process (sh_bf e) (sys_world s) p (of_nat n)) (\<lambda>w. Ret (s\<lparr>sys_world := w\<rparr>)))"

section \<open>Tokenizer and dispatch\<close>

definition blank_char :: "u8 \<Rightarrow> bool" where
  "blank_char c \<longleftrightarrow> c = 32 \<or> c = 9"

fun eq :: "bytes \<Rightarrow> bytes \<Rightarrow> bool" where
  "eq a b = (length a = length b \<and> list_all (\<lambda>(ca, cb). ca = cb) (zip a b))"

text \<open>Two loops: the end of the command, the start of the arguments.\<close>

function skip_while :: "(u8 \<Rightarrow> bool) \<Rightarrow> bytes \<Rightarrow> nat \<Rightarrow> nat" where
  "skip_while f line i = (if i < length line \<and> f (line ! i) then skip_while f line (i + 1) else i)"
  by pat_completeness auto
termination
  by (relation "measure (\<lambda>(f, line, i). length line - i)") auto

declare skip_while.simps [simp del]

definition split_line :: "bytes \<Rightarrow> nat \<times> nat" where
  "split_line line =
     (let cmd_end = skip_while (\<lambda>c. \<not> blank_char c) line 0
      in (cmd_end, skip_while blank_char line cmd_end))"

definition execute_line :: "shell_env \<Rightarrow> bytes \<Rightarrow> system \<Rightarrow> system outcome" where
  "execute_line e line s =
     (let (cmd_end, arg_start) = split_line line;
          cmd = take cmd_end line; args = drop arg_start line;
          ptr = line_addr e + of_nat arg_start; n = length line - arg_start
      in if cmd = [] then Ret s
         else if eq cmd (lit ''help'') then cmd_help s
         else if eq cmd (lit ''clear'') then on_plat (on_con clear) s
         else if eq cmd (lit ''status'') then cmd_status s
         else if eq cmd (lit ''diskinfo'') then cmd_diskinfo s
         else if eq cmd (lit ''ls'') then cmd_ls e ptr n s
         else if eq cmd (lit ''cat'') then cmd_cat e ptr n s
         else if eq cmd (lit ''exec'') then cmd_exec e ptr n s
         else if eq cmd (lit ''echo'') then cmd_echo args s
         else if eq cmd (lit ''reboot'') \<or> eq cmd (lit ''exit'') then
           obind (sys_say (lit ''System halted. Press Ctrl+Alt+Del or reset.'' @ newline) s) (\<lambda>s. halt (sys_plat s))
         else obind (sys_say (lit ''Unknown command: '') (sys_paint LightRed Black s)) (\<lambda>s.
              obind (sys_say cmd s) (\<lambda>s.
              obind (sys_say newline s) (\<lambda>s.
              sys_say (lit ''Type '' @ [39] @ lit ''help'' @ [39] @ lit '' for available commands.'' @ newline)
                (sys_paint White Black s)))))"

section \<open>The main loop\<close>

text \<open>One key; the second component of the state is \<open>line_len\<close>.\<close>

definition shell_key :: "shell_env \<Rightarrow> u8 \<Rightarrow> system \<times> nat \<Rightarrow> (system \<times> nat) outcome" where
  "shell_key e ch = (\<lambda>(s, line_len).
     if ch = 10 then
       obind (sys_put 10 s) (\<lambda>s.
       obind (execute_line e (line_text e s line_len) s) (\<lambda>s.
       obind (print_prompt s) (\<lambda>s. Ret (s, 0))))
     else if ch = 8 then
       if line_len > 0
       then obind (sys_put 8 s) (\<lambda>s. obind (sys_put 32 s) (\<lambda>s. obind (sys_put 8 s) (\<lambda>s. Ret (s, line_len - 1))))
       else Ret (s, line_len)
     else if ch = 9 then Ret (s, line_len)
     else if line_len < LINE_BUF_SIZE - 1
     then let w = sys_world s;
              w = w\<lparr>hw := (hw w)\<lparr>mem := mem_write (mem (hw w)) (line_addr e + of_nat line_len) [ch]\<rparr>\<rparr>
          in obind (sys_put ch (s\<lparr>sys_world := w\<rparr>)) (\<lambda>s. Ret (s, line_len + 1))
     else Ret (s, line_len))"

text \<open>One round of the loop: a waiting key is handled, otherwise the processor waits for an interrupt.\<close>

definition shell_round :: "shell_env \<Rightarrow> system \<times> nat \<Rightarrow> (system \<times> nat) outcome" where
  "shell_round e = (\<lambda>(s, line_len).
     obind (read_key (sys_kb s)) (\<lambda>(key, kb).
     case key of None \<Rightarrow> Ret (s, line_len) | Some ch \<Rightarrow> shell_key e ch (s\<lparr>sys_kb := kb\<rparr>, line_len)))"

section \<open>Tokenizing\<close>

lemma skip_while_eq: "i \<le> length line \<Longrightarrow> skip_while f line i = i + length (takeWhile f (drop i line))"
proof (induction f line i rule: skip_while.induct)
  case (1 f line i)
  show ?case
  proof (cases "i < length line")
    case True
    then have "drop i line = line ! i # drop (Suc i) line" by (simp add: Cons_nth_drop_Suc)
    with 1 True show ?thesis by (simp add: skip_while.simps [of f line i])
  next
    case False
    with 1 show ?thesis by (simp add: skip_while.simps [of f line "length line"])
  qed
qed

lemma eq_iff: "eq a b \<longleftrightarrow> a = b"
  by (simp add: list_eq_iff_zip_eq list_all_iff)

declare eq.simps [simp del]

lemma split_line_words:
  assumes "\<forall>c\<in>set cmd. \<not> blank_char c" and "\<forall>c\<in>set bl. blank_char c"
    and "args = [] \<or> bl \<noteq> [] \<and> \<not> blank_char (hd args)"
  shows "split_line (cmd @ bl @ args) = (length cmd, length cmd + length bl)"
proof -
  have "takeWhile (\<lambda>c. \<not> blank_char c) (bl @ args) = []"
    using assms(2,3) by (cases bl) auto
  then have cmd: "takeWhile (\<lambda>c. \<not> blank_char c) (cmd @ bl @ args) = cmd"
    using assms(1) by (simp add: takeWhile_append2)
  have "takeWhile blank_char args = []"
    using assms(3) by (cases args) auto
  then have "takeWhile blank_char (bl @ args) = bl"
    using assms(2) by (simp add: takeWhile_append2)
  with cmd show ?thesis by (simp add: split_line_def skip_while_eq Let_def)
qed

lemma execute_words:
  assumes "\<forall>c\<in>set cmd. \<not> blank_char c" and "\<forall>c\<in>set bl. blank_char c"
    and "args = [] \<or> bl \<noteq> [] \<and> \<not> blank_char (hd args)"
  shows "execute_line e (cmd @ bl @ args) s =
    (let ptr = line_addr e + of_nat (length cmd + length bl); n = length args in
     if cmd = [] then Ret s
     else if cmd = lit ''help'' then cmd_help s
     else if cmd = lit ''clear'' then on_plat (on_con clear) s
     else if cmd = lit ''status'' then cmd_status s
     else if cmd = lit ''diskinfo'' then cmd_diskinfo s
     else if cmd = lit ''ls'' then cmd_ls e ptr n s
     else if cmd = lit ''cat'' then cmd_cat e ptr n s
     else if cmd = lit ''exec'' then cmd_exec e ptr n s
     else if cmd = lit ''echo'' then cmd_echo args s
     else if cmd = lit ''reboot'' \<or> cmd = lit ''exit'' then
       obind (sys_say (lit ''System halted. Press Ctrl+Alt+Del or reset.'' @ newline) s) (\<lambda>s. halt (sys_plat s))
     else obind (sys_say (lit ''Unknown command: '') (sys_paint LightRed Black s)) (\<lambda>s.
          obind (sys_say cmd s) (\<lambda>s.
          obind (sys_say newline s) (\<lambda>s.
          sys_say (lit ''Type '' @ [39] @ lit ''help'' @ [39] @ lit '' for available commands.'' @ newline)
            (sys_paint White Black s)))))"
  unfolding execute_line_def split_line_words [OF assms] eq_iff by (simp add: Let_def)

text \<open>The argument pointer of a command that passes one: the memory there holds the arguments.\<close>

lemma args_in_memory:
  assumes "line_text e s (length line) = line" and "n + length args = length line" and "drop n line = args"
  shows "mem_read (mem (hw (sys_world s))) (line_addr e + of_nat n) (length args) = args"
proof -
  have "mem_read (mem (hw (sys_world s))) (line_addr e + of_nat n) (length args) = drop n (line_text e s (length line))"
    unfolding line_text_def mem_read_def assms(2) [symmetric]
    by (rule nth_equalityI) (simp_all add: add.assoc)
  with assms show ?thesis by simp
qed

section \<open>The line editor\<close>

text \<open>The line as a list: what a key does to it. Return runs it and is not an editing key.\<close>

definition edit_line :: "bytes \<Rightarrow> u8 \<Rightarrow> bytes" where
  "edit_line l ch =
     (if ch = 8 then butlast l else if ch = 9 then l
      else if length l < LINE_BUF_SIZE - 1 then l @ [ch] else l)"

text \<open>States that differ at most in the screen and in the first 255 bytes of the line buffer.\<close>

definition line_only :: "shell_env \<Rightarrow> system \<Rightarrow> system \<Rightarrow> bool" where
  "line_only e s s' \<longleftrightarrow> sys_kb s' = sys_kb s \<and> io_log (sys_plat s') = io_log (sys_plat s)
     \<and> (\<exists>m. sys_world s' = (sys_world s)\<lparr>hw := (hw (sys_world s))\<lparr>mem := m\<rparr>\<rparr>
          \<and> (\<forall>a. LINE_BUF_SIZE - 1 \<le> unat (a - line_addr e) \<longrightarrow> m a = mem (hw (sys_world s)) a))"

lemma line_only_refl: "line_only e s s"
  by (auto simp: line_only_def intro: exI [of _ "mem (hw (sys_world s))"])

lemma line_only_trans: "line_only e s t \<Longrightarrow> line_only e t u \<Longrightarrow> line_only e s u"
  by (auto simp: line_only_def)

lemma sys_put_returns:
  assumes "cursor_shown (con (sys_plat s))"
  shows "\<exists>p. sys_put ch s = Ret (s\<lparr>sys_plat := p\<rparr>) \<and> io_log p = io_log (sys_plat s) \<and> cursor_shown (con p)
    \<and> put_char ch (con (sys_plat s)) = Ret (con p)"
proof -
  obtain c where "put_char ch (con (sys_plat s)) = Ret c" "cursor_shown c"
    using put_char_shown [OF cursor_shown_ok [OF assms]] by blast
  then show ?thesis
    by (intro exI [of _ "(sys_plat s)\<lparr>con := c\<rparr>"]) (simp add: sys_put_def on_plat_def on_con_def)
qed

lemma line_text_write:
  assumes "n < LINE_BUF_SIZE - 1"
  shows "mem_read (mem_write m (a + of_nat n) [ch]) a (Suc n) = mem_read m a n @ [ch]"
    and "LINE_BUF_SIZE - 1 \<le> unat (x - a) \<Longrightarrow> mem_write m (a + of_nat n) [ch] x = m x"
proof -
  have other: "mem_write m (a + of_nat n) [ch] x = m x" if "x \<noteq> a + of_nat n" for x
    using that by (intro mem_write_other) (simp add: Suc_le_eq unat_gt_0)
  have ne: "a + of_nat i \<noteq> a + of_nat n" if "i < n" for i
  proof
    assume "a + of_nat i = a + (of_nat n :: u64)"
    then have "unat (of_nat i :: u64) = unat (of_nat n :: u64)" by simp
    with that assms show False by simp
  qed
  have "mem_write m (a + of_nat n) [ch] (a + of_nat n) = ch"
    by (simp add: mem_write_def)
  then show "mem_read (mem_write m (a + of_nat n) [ch]) a (Suc n) = mem_read m a n @ [ch]"
    using other ne by (simp add: mem_read_def)
  assume "LINE_BUF_SIZE - 1 \<le> unat (x - a)"
  with assms have "x \<noteq> a + of_nat n" by auto
  then show "mem_write m (a + of_nat n) [ch] x = m x" by (rule other)
qed

lemma line_text_length [simp]: "length (line_text e s n) = n"
  by (simp add: line_text_def)

lemma line_text_butlast: "line_text e s (n - 1) = butlast (line_text e s n)"
  by (cases n) (simp_all add: line_text_def mem_read_def)

lemma shell_key_edit:
  assumes "ch \<noteq> 10" and "cursor_shown (con (sys_plat s))" and "n \<le> LINE_BUF_SIZE - 1"
  shows "\<exists>s' n'. shell_key e ch (s, n) = Ret (s', n') \<and> n' \<le> LINE_BUF_SIZE - 1
    \<and> line_text e s' n' = edit_line (line_text e s n) ch \<and> cursor_shown (con (sys_plat s')) \<and> line_only e s s'"
proof -
  consider (del) "ch = 8" "n > 0" | (ins) "ch \<noteq> 8" "ch \<noteq> 9" "n < LINE_BUF_SIZE - 1"
    | (keep) "ch = 8 \<and> n = 0 \<or> ch = 9 \<or> ch \<noteq> 8 \<and> ch \<noteq> 9 \<and> n = LINE_BUF_SIZE - 1"
    using assms(3) by linarith
  then show ?thesis
  proof cases
    case del
    obtain p1 where 1: "sys_put 8 s = Ret (s\<lparr>sys_plat := p1\<rparr>)" "io_log p1 = io_log (sys_plat s)" "cursor_shown (con p1)"
      using sys_put_returns [OF assms(2)] by blast
    obtain p2 where 2: "sys_put 32 (s\<lparr>sys_plat := p1\<rparr>) = Ret (s\<lparr>sys_plat := p2\<rparr>)" "io_log p2 = io_log p1" "cursor_shown (con p2)"
      using sys_put_returns [of "s\<lparr>sys_plat := p1\<rparr>" 32] 1 by auto
    obtain p3 where 3: "sys_put 8 (s\<lparr>sys_plat := p2\<rparr>) = Ret (s\<lparr>sys_plat := p3\<rparr>)" "io_log p3 = io_log p2" "cursor_shown (con p3)"
      using sys_put_returns [of "s\<lparr>sys_plat := p2\<rparr>" 8] 2 by auto
    have "line_only e s (s\<lparr>sys_plat := p3\<rparr>)"
      using 1 2 3 line_only_refl [of e s] by (simp add: line_only_def)
    then show ?thesis
      using del 1 2 3 assms(3) line_text_butlast [of e s n]
      by (intro exI [of _ "s\<lparr>sys_plat := p3\<rparr>"] exI [of _ "n - 1"])
        (simp add: shell_key_def edit_line_def, simp add: line_text_def)
  next
    case ins
    define w where "w = (sys_world s)\<lparr>hw := (hw (sys_world s))\<lparr>mem := mem_write (mem (hw (sys_world s))) (line_addr e + of_nat n) [ch]\<rparr>\<rparr>"
    obtain p where p: "sys_put ch (s\<lparr>sys_world := w\<rparr>) = Ret (s\<lparr>sys_world := w, sys_plat := p\<rparr>)"
        "io_log p = io_log (sys_plat s)" "cursor_shown (con p)"
      using sys_put_returns [of "s\<lparr>sys_world := w\<rparr>" ch] assms(2) by auto
    have "line_only e s (s\<lparr>sys_world := w, sys_plat := p\<rparr>)"
      using p line_text_write(2) [OF ins(3)] by (auto simp: line_only_def w_def)
    moreover have "line_text e (s\<lparr>sys_world := w, sys_plat := p\<rparr>) (Suc n) = line_text e s n @ [ch]"
      using line_text_write(1) [OF ins(3)] by (simp add: line_text_def w_def)
    ultimately show ?thesis
      using ins p assms(1)
      by (intro exI [of _ "s\<lparr>sys_world := w, sys_plat := p\<rparr>"] exI [of _ "Suc n"])
        (simp add: shell_key_def edit_line_def Let_def w_def [symmetric])
  next
    case keep
    then show ?thesis
      using assms line_only_refl [of e s]
      by (intro exI [of _ s] exI [of _ n]) (auto simp: shell_key_def edit_line_def line_text_def mem_read_def)
  qed
qed

text \<open>
  C35. The line editor is the obvious editor of a list of at most 255 characters, and stays in its
  buffer: after any keys but Return, the line is what appending, deleting the last character and
  ignoring Tab and excess keys give; the screen cursor is right, and the rest of the kernel, all memory
  outside the buffer included, is untouched.
\<close>

theorem shell_edit_refines:
  assumes "cursor_shown (con (sys_plat s))" and "n \<le> 255" and "10 \<notin> set typed"
  shows "\<exists>s' n'. ofold (shell_key e) typed (s, n) = Ret (s', n') \<and> n' \<le> 255
    \<and> line_text e s' n' = fold (\<lambda>ch l. edit_line l ch) typed (line_text e s n)
    \<and> cursor_shown (con (sys_plat s')) \<and> line_only e s s'"
  using assms
proof (induction typed arbitrary: s n)
  case (Cons ch typed)
  obtain s1 n1 where 1: "shell_key e ch (s, n) = Ret (s1, n1)" "n1 \<le> 255"
      "line_text e s1 n1 = edit_line (line_text e s n) ch" "cursor_shown (con (sys_plat s1))" "line_only e s s1"
    using shell_key_edit [of ch s n e] Cons.prems by auto
  obtain s2 n2 where "ofold (shell_key e) typed (s1, n1) = Ret (s2, n2)" "n2 \<le> 255"
      "line_text e s2 n2 = fold (\<lambda>ch l. edit_line l ch) typed (line_text e s1 n1)"
      "cursor_shown (con (sys_plat s2))" "line_only e s1 s2"
    using Cons.IH [OF 1(4,2)] Cons.prems(3) by auto
  with 1 show ?case using line_only_trans [of e s s1 s2] by simp
qed (auto simp: line_only_refl)

definition shell_env_demo :: shell_env where
  "shell_env_demo = \<lparr>line_addr = 0x9000, root_addr = 0x500, sh_bf = bitflags_model, sh_ramfs_keys = [], sh_driver_keys = []\<rparr>"

lemma system_demo_shown [simp]: "cursor_shown (con (sys_plat system_demo))"
  by (simp add: system_demo_def)

theorem shell_edit_refines_witness:
  "\<exists>s' n'. ofold (shell_key shell_env_demo) [97, 98, 8, 9, 99] (system_demo, 0) = Ret (s', n') \<and> n' \<le> 255
    \<and> line_text shell_env_demo s' n' = [97, 99] \<and> cursor_shown (con (sys_plat s')) \<and> line_only shell_env_demo system_demo s'"
  using shell_edit_refines [of system_demo 0 "[97, 98, 8, 9, 99]" shell_env_demo]
  by (simp add: edit_line_def line_text_def mem_read_def)

section \<open>From the keys to the screen\<close>

lemma typed_echo:
  assumes "cursor_shown (con (sys_plat s))" and "n + length typed \<le> 255" and "set typed \<inter> {8, 9, 10} = {}"
  shows "\<exists>s'. ofold (shell_key e) typed (s, n) = Ret (s', n + length typed)
    \<and> line_text e s' (n + length typed) = line_text e s n @ typed
    \<and> print typed (con (sys_plat s)) = Ret (con (sys_plat s')) \<and> line_only e s s'"
  using assms
proof (induction typed arbitrary: s n)
  case (Cons ch typed)
  define w where "w = (sys_world s)\<lparr>hw := (hw (sys_world s))\<lparr>mem := mem_write (mem (hw (sys_world s))) (line_addr e + of_nat n) [ch]\<rparr>\<rparr>"
  obtain p where p: "sys_put ch (s\<lparr>sys_world := w\<rparr>) = Ret (s\<lparr>sys_world := w, sys_plat := p\<rparr>)"
      "io_log p = io_log (sys_plat s)" "cursor_shown (con p)" "put_char ch (con (sys_plat s)) = Ret (con p)"
    using sys_put_returns [of "s\<lparr>sys_world := w\<rparr>" ch] Cons.prems(1) by auto
  let ?s = "s\<lparr>sys_world := w, sys_plat := p\<rparr>"
  have n: "n < LINE_BUF_SIZE - 1" using Cons.prems(2) by simp
  have step: "shell_key e ch (s, n) = Ret (?s, Suc n)"
    using Cons.prems n p by (simp add: shell_key_def Let_def w_def [symmetric])
  have line: "line_text e ?s (Suc n) = line_text e s n @ [ch]"
    using line_text_write(1) [OF n] by (simp add: line_text_def w_def)
  have only: "line_only e s ?s"
    using p line_text_write(2) [OF n] by (auto simp: line_only_def w_def)
  obtain s' where "ofold (shell_key e) typed (?s, Suc n) = Ret (s', Suc n + length typed)"
      "line_text e s' (Suc n + length typed) = line_text e ?s (Suc n) @ typed"
      "print typed (con (sys_plat ?s)) = Ret (con (sys_plat s'))" "line_only e ?s s'"
    using Cons.IH [of ?s "Suc n"] Cons.prems p(3) by auto
  with step line p(4) line_only_trans [OF only] show ?case by (auto simp: print_def)
qed (simp add: print_def line_only_refl)

lemma sys_say_prints:
  assumes "cursor_shown (con (sys_plat s))"
  shows "\<exists>p. sys_say msg s = Ret (s\<lparr>sys_plat := p\<rparr>) \<and> io_log p = io_log (sys_plat s) \<and> cursor_shown (con p)
    \<and> print msg (con (sys_plat s)) = Ret (con p)"
proof -
  obtain c where "print msg (con (sys_plat s)) = Ret c" "cursor_shown c"
    using print_shown [OF assms] by blast
  then show ?thesis
    by (intro exI [of _ "(sys_plat s)\<lparr>con := c\<rparr>"]) (simp add: sys_say_def say_def on_plat_def on_con_def)
qed

lemma print_prompt_returns:
  assumes "cursor_shown (con (sys_plat s))"
  shows "\<exists>p. print_prompt s = Ret (s\<lparr>sys_plat := p\<rparr>) \<and> io_log p = io_log (sys_plat s) \<and> cursor_shown (con p)"
  using announce_returns [OF assms, of LightGreen "lit ''lorifa$ ''"] by (auto simp: print_prompt_def on_plat_def)

lemma line_only_screen: "line_only e s t \<Longrightarrow> io_log p = io_log (sys_plat t) \<Longrightarrow> line_only e s (t\<lparr>sys_plat := p\<rparr>)"
  by (simp add: line_only_def)

lemma cat_ramfs:
  assumes "raw_slice w p n = Ret path" and "from_utf8 path = Some path" and "ramfs (k_vfs w) path = Some file"
  shows "rust_vfs_cat_print w p n = Ret (print_content (content file))"
  using assms by (simp add: rust_vfs_cat_print_def utf8_or_def)

text \<open>
  C34. From the keyboard to the screen: typing \<open>cat\<close>, a path and Return at an empty prompt echoes the
  line, prints exactly the contents of the RAM file of that name (a text) and a new prompt, and leaves
  everything but the screen and the line buffer as it was. The path goes through the line buffer, the
  tokenizer, the pointer handed to the Rust core and the file table.
\<close>

theorem shell_cat_prints_file:
  assumes "cursor_shown (con (sys_plat s))" and "length path \<le> 251" and "path \<noteq> []"
    and "set path \<inter> {8, 9, 10, 32} = {}" and "from_utf8 path = Some path"
    and "unat (line_addr e) + 256 \<le> 2 ^ 64"
    and "ramfs (k_vfs (sys_world s)) path = Some file" and "from_utf8 (content file) = Some text"
  shows "\<exists>s1 s'. ofold (shell_key e) (lit ''cat '' @ path @ [10]) (s, 0) = Ret (s', 0) \<and> line_only e s s'
    \<and> print (lit ''cat '' @ path @ newline @ text @ newline) (con (sys_plat s)) = Ret (con (sys_plat s1))
    \<and> print_prompt s1 = Ret s'"
proof -
  let ?line = "lit ''cat '' @ path"
  have cat: "lit ''cat '' = [99, 97, 116, 32]" "lit ''cat'' = [99, 97, 116]" by (simp_all add: lit_def)
  obtain s1 where 1: "ofold (shell_key e) ?line (s, 0) = Ret (s1, length ?line)"
      "line_text e s1 (length ?line) = ?line" "print ?line (con (sys_plat s)) = Ret (con (sys_plat s1))" "line_only e s s1"
    using typed_echo [OF assms(1), of 0 ?line e] assms(2,4) by (auto simp: cat line_text_def mem_read_def)
  have shown1: "cursor_shown (con (sys_plat s1))" by (rule print_keeps_shown [OF assms(1) 1(3)])
  obtain p2 where 2: "sys_put 10 s1 = Ret (s1\<lparr>sys_plat := p2\<rparr>)" "io_log p2 = io_log (sys_plat s1)" "cursor_shown (con p2)"
      "put_char 10 (con (sys_plat s1)) = Ret (con p2)"
    using sys_put_returns [OF shown1] by blast
  let ?s2 = "s1\<lparr>sys_plat := p2\<rparr>"
  have line2: "line_text e ?s2 (length ?line) = ?line" using 1(2) by (simp add: line_text_def)
  have "raw_slice (sys_world ?s2) (line_addr e + 4) (of_nat (length path)) = Ret path"
  proof -
    have "unat (line_addr e + 4) = unat (line_addr e) + 4"
      using assms(6) unat_add64 [of "line_addr e" 4] by simp
    moreover have "mem_read (mem (hw (sys_world ?s2))) (line_addr e + 4) (length path) = path"
      using args_in_memory [OF line2, of 4 path] by (simp add: cat)
    ultimately show ?thesis
      using assms(2,6) by (auto simp: raw_slice_def)
  qed
  moreover have "ramfs (k_vfs (sys_world ?s2)) path = Some file"
    using 1(4) assms(7) by (auto simp: line_only_def)
  ultimately have out: "rust_vfs_cat_print (sys_world ?s2) (line_addr e + 4) (of_nat (length path)) = Ret (text @ newline)"
    using cat_ramfs [OF _ assms(5)] assms(8) by (simp add: print_content_def)
  obtain p3 where 3: "sys_say (text @ newline) ?s2 = Ret (s1\<lparr>sys_plat := p3\<rparr>)" "io_log p3 = io_log p2" "cursor_shown (con p3)"
      "print (text @ newline) (con p2) = Ret (con p3)"
    using sys_say_prints [of ?s2] 2(3) by auto
  let ?s3 = "s1\<lparr>sys_plat := p3\<rparr>"
  have exec: "execute_line e ?line ?s2 = Ret ?s3"
    using execute_words [of "lit ''cat''" "[32]" path e ?s2] assms(3,4) out 3(1)
    by (cases path) (simp_all add: cat blank_char_def cmd_cat_def lit_def)
  obtain p4 where 4: "print_prompt ?s3 = Ret (s1\<lparr>sys_plat := p4\<rparr>)" "io_log p4 = io_log p3" "cursor_shown (con p4)"
    using print_prompt_returns [of ?s3] 3(3) by auto
  have "ofold (shell_key e) (?line @ [10]) (s, 0) = Ret (s1\<lparr>sys_plat := p4\<rparr>, 0)"
  proof -
    have "shell_key e 10 (s1, length ?line) = Ret (s1\<lparr>sys_plat := p4\<rparr>, 0)"
      using 2(1) line2 exec 4(1) by (simp add: shell_key_def)
    then show ?thesis by (simp only: ofold_append [of _ ?line] 1(1) obind.simps ofold.simps)
  qed
  moreover have "print (?line @ newline @ text @ newline) (con (sys_plat s)) = Ret (con p3)"
    using print_append [of ?line "newline @ text @ newline"] print_append [of newline "text @ newline"] 1(3) 2(4) 3(4)
    by (simp add: print_def cong: obind_cong)
  moreover have "line_only e s (s1\<lparr>sys_plat := p4\<rparr>)"
    using line_only_screen [OF 1(4)] 2(2) 3(2) 4(2) by simp
  ultimately show ?thesis using 4(1)
    by (intro exI [of _ ?s3] exI [of _ "s1\<lparr>sys_plat := p4\<rparr>"]) simp
qed

definition cat_demo :: system where
  "cat_demo = system_demo\<lparr>sys_world := (kernel_new machine_demo)
     \<lparr>k_vfs := vfs_new\<lparr>ramfs := [lit ''/motd'' \<mapsto> \<lparr>rf_path = lit ''/motd'', content = lit ''hello''\<rparr>]\<rparr>\<rparr>\<rparr>"

theorem shell_cat_prints_file_witness:
  "\<exists>s1 s'. ofold (shell_key shell_env_demo) (lit ''cat '' @ lit ''/motd'' @ [10]) (cat_demo, 0) = Ret (s', 0)
    \<and> line_only shell_env_demo cat_demo s'
    \<and> print (lit ''cat '' @ lit ''/motd'' @ newline @ lit ''hello'' @ newline) (con (sys_plat cat_demo)) = Ret (con (sys_plat s1))
    \<and> print_prompt s1 = Ret s'"
proof (rule shell_cat_prints_file)
  show "cursor_shown (con (sys_plat cat_demo))" by (simp add: cat_demo_def)
  show "ramfs (k_vfs (sys_world cat_demo)) (lit ''/motd'') = Some \<lparr>rf_path = lit ''/motd'', content = lit ''hello''\<rparr>"
    by (simp add: cat_demo_def)
qed (simp_all add: lit_def shell_env_demo_def from_utf8_ascii)

section \<open>The status command\<close>

text \<open>Start-up counts the inner pages of every 4 MB block a second time.\<close>

lemma free_pages_blocks:
  assumes "\<And>i. i < 1024 * k \<Longrightarrow> f i = (if i mod 1024 = 0 then 1024 else 1)"
  shows "(\<Sum>i\<leftarrow>[0..<1024 * k]. f i) = 2047 * k"
  using assms
proof (induction k)
  case (Suc k)
  have "[0..<1024 * Suc k] = [0..<1024 * k] @ map (\<lambda>i. 1024 * k + i) [0..<1024]"
    using upt_add_eq_append [of 0 "1024 * k" 1024] map_add_upt [of "1024 * k" 1024] by (simp add: add.commute)
  moreover have "map (\<lambda>i. f (1024 * k + i)) [0..<1024] = 1024 # replicate 1023 1"
    using Suc.prems by (auto simp: list_eq_iff_nth_eq nth_Cons split: nat.splits)
  ultimately show ?case using Suc by (simp add: comp_def sum_list_replicate)
qed simp

lemma free_pages_init:
  assumes "\<not> initialized ph"
  shows "free_pages (ppa_init ph) = 32752"
proof -
  have "free_pages (ppa_init ph) = (\<Sum>i\<leftarrow>[0..<1024 * 16]. if i mod 1024 = 0 then 1024 else 1)"
    unfolding free_pages_def by (rule arg_cong [where f = sum_list]) (auto simp: ppa_init_meta [OF assms])
  also have "\<dots> = 2047 * 16" by (rule free_pages_blocks) simp
  finally show ?thesis by simp
qed

text \<open>Taking one page takes a free page of order 0 when there is one, and counts as one page less.\<close>

lemma alloc_single:
  assumes "initialized s" and "is_free (page_meta s j)" and "order (page_meta s j) = 0" and "j < TOTAL_PAGES"
  shows "\<exists>i<TOTAL_PAGES. is_free (page_meta s i) \<and> order (page_meta s i) = 0
    \<and> page_meta (snd (phys_alloc s 1)) = (page_meta s)(i := (page_meta s i)\<lparr>is_free := False\<rparr>)
    \<and> initialized (snd (phys_alloc s 1))"
proof -
  obtain i where i: "scan_order (page_meta s) 0 0 = Some i"
    using scan_order_zero [of 0 j "page_meta s"] assms by auto
  then have "find_block (page_meta s) 0 = Some (0, i)" by (subst find_block.simps) simp
  moreover have "find_order 0 1 = Some 0" by (subst find_order.simps) simp
  moreover have "split_block (page_meta s) i 0 0 = page_meta s" by (subst split_block.simps) simp
  ultimately show ?thesis
    using assms(1) scan_order_Some [OF i] by (auto simp: phys_alloc_def Let_def intro!: exI [of _ i])
qed

lemma free_pages_taken:
  assumes "i < TOTAL_PAGES" and "is_free (page_meta s i)" and "order (page_meta s i) = 0"
    and "page_meta t = (page_meta s)(i := (page_meta s i)\<lparr>is_free := False\<rparr>)"
  shows "free_pages s = free_pages t + 1"
proof -
  have up: "[0..<TOTAL_PAGES] = [0..<i] @ i # [Suc i..<TOTAL_PAGES]"
    using assms(1) upt_add_eq_append [of 0 i "TOTAL_PAGES - i"] upt_conv_Cons [of i TOTAL_PAGES] by simp
  let ?f = "\<lambda>s i. if is_free (page_meta s i) then 2 ^ order (page_meta s i) else (0 :: nat)"
  have "map (?f t) [0..<i] = map (?f s) [0..<i]" "map (?f t) [Suc i..<TOTAL_PAGES] = map (?f s) [Suc i..<TOTAL_PAGES]"
    by (rule map_cong; simp add: assms(4))+
  moreover have "?f s i = 1" "?f t i = 0" using assms(2,3) by (simp_all add: assms(4))
  ultimately show ?thesis
    by (simp only: free_pages_def up map_append list.map sum_list.append sum_list.Cons)
qed

lemma status_panics_if:
  "free_pages (phys (hw (sys_world s))) > TOTAL_PAGES \<Longrightarrow> zig_safety (hw (sys_world s)) \<Longrightarrow>
    execute_line e (lit ''status'') s = Panic"
  using execute_words [of "lit ''status''" "[]" "[]" e s]
  by (simp add: lit_def blank_char_def cmd_status_def)

lemma alloc_single_count:
  assumes "initialized s" and "is_free (page_meta s 1) \<and> order (page_meta s 1) = 0 \<or> is_free (page_meta s 2) \<and> order (page_meta s 2) = 0"
  shows "free_pages s = free_pages (snd (phys_alloc s 1)) + 1 \<and> initialized (snd (phys_alloc s 1))
    \<and> (\<exists>i. page_meta (snd (phys_alloc s 1)) = (page_meta s)(i := (page_meta s i)\<lparr>is_free := False\<rparr>))"
proof -
  obtain i where "i < TOTAL_PAGES" "is_free (page_meta s i)" "order (page_meta s i) = 0"
      "page_meta (snd (phys_alloc s 1)) = (page_meta s)(i := (page_meta s i)\<lparr>is_free := False\<rparr>)"
      "initialized (snd (phys_alloc s 1))"
    using assms(2) alloc_single [OF assms(1), of 1] alloc_single [OF assms(1), of 2] by auto
  then show ?thesis using free_pages_taken [of i s "snd (phys_alloc s 1)"] by blast
qed

lemma phys_after_paging:
  assumes "\<not> paging_initialized m" and "paging_global_init m = Ret m'"
  shows "phys m' = snd (phys_alloc (snd (phys_alloc (phys m) 1)) 1)"
  using assms by (auto simp: paging_global_init_def palloc_def zero_table_def set_entry_def Let_def split: prod.splits if_splits)

end
