(* ===== verification/Page_Walk.thy ===== *)
theory Page_Walk
  imports Machine
begin

text \<open>
  What the page tables of \<open>arch/x86_64/mm/paging.zig\<close> mean to the processor. \<open>hw_walk\<close> is the
  4-level page walk of x86_64 with its 1 GB and 2 MB pages and the permissions that all levels
  must grant; it is the specification, the operations are those of theory \<open>Machine\<close>. The
  tables form a tree in physical memory (\<open>descend\<close>); as long as no two paths of it share a
  page, \<open>PagingContext.map\<close> and \<open>PagingContext.unmap\<close> change the translation of exactly one
  page. Entries that map a huge page are not followed by the processor, but \<open>ensure_table\<close>
  follows them.
\<close>

section \<open>Entries of tables\<close>

abbreviation page_aligned :: "u64 \<Rightarrow> bool" where
  "page_aligned a \<equiv> a AND 0xFFF = 0"

text \<open>The memory seen as tables: the entry at an index of a page-aligned table.\<close>

definition ents :: "memory \<Rightarrow> u64 \<Rightarrow> u64 \<Rightarrow> u64" where
  "ents mm t i = (if page_aligned t \<and> i < 512 then read_u64 mm (entry_addr t i) else 0)"

lemma ents_outside: "\<not> (page_aligned t \<and> i < 512) \<Longrightarrow> ents mm t i = 0"
  unfolding ents_def by (rule if_not_P)

lemma aligned_mod: "page_aligned a \<longleftrightarrow> unat a mod 4096 = 0"
proof -
  have "a AND 0xFFF = take_bit 12 a"
    by (simp add: take_bit_eq_mask mask_eq_exp_minus_1)
  moreover have "unat (take_bit 12 a) = unat a mod 4096"
    by (simp only: unsigned_take_bit_eq) (simp add: take_bit_eq_mod)
  ultimately show ?thesis by (metis unat_eq_zero)
qed

lemma aligned_fits: "page_aligned t \<Longrightarrow> unat t + 4096 \<le> 2 ^ 64"
proof -
  assume "page_aligned t"
  then obtain q where q: "unat t = 4096 * q" by (auto simp: aligned_mod)
  have "unat t < 2 ^ 64" using unsigned_less [of t] by simp
  then show ?thesis using q by simp
qed

lemma unat_entry_addr:
  assumes "page_aligned t" and "i < 512"
  shows "unat (entry_addr t i) = unat t + 8 * unat i"
proof -
  have i: "unat i < 512" using assms(2) by (simp add: word_less_nat_alt)
  note t = aligned_fits [OF assms(1)]
  have "unat (8 * i) = 8 * unat i" using i by (simp add: unat_word_ariths)
  then show ?thesis using i t by (simp add: entry_addr_def unat_word_ariths)
qed

text \<open>A write of \<open>n\<close> bytes at \<open>y\<close> does not reach \<open>x\<close>.\<close>

lemma out_of_reach:
  assumes "unat y + n \<le> 2 ^ 64" and "unat x < unat y \<or> unat y + n \<le> unat (x :: u64)"
  shows "n \<le> unat (x - y)"
proof (cases "y \<le> x")
  case True
  then show ?thesis using assms(2) by (auto simp: unat_sub word_le_nat_alt)
next
  case False
  then have "x < y" by simp
  moreover have "unat y < 2 ^ 64" using unsigned_less [of y] by simp
  ultimately have "unat (x - y) = unat x + (2 ^ 64 - unat y)"
    by (simp add: unat_sub_if' word_less_nat_alt word_le_nat_alt)
  then show ?thesis using assms(1) by simp
qed

lemma byte_of_entry:
  assumes "page_aligned t" and "i < 512" and "k < 8"
  shows "unat (entry_addr t i + of_nat k) = unat t + 8 * unat i + k"
proof -
  have "unat i < 512" using assms(2) by (simp add: word_less_nat_alt)
  then show ?thesis
    using assms unat_entry_addr [OF assms(1,2)] aligned_fits [OF assms(1)]
    by (simp add: unat_word_ariths unat_of_nat take_bit_nat_eq_self)
qed

lemma aligned_apart:
  assumes "page_aligned t" and "page_aligned u" and "t \<noteq> u"
  shows "unat t + 4096 \<le> unat u \<or> unat u + 4096 \<le> unat t"
proof -
  from assms(1,2) obtain p q where "unat t = 4096 * p" "unat u = 4096 * q"
    by (auto simp: aligned_mod elim!: dvdE)
  moreover have "unat t \<noteq> unat u" using assms(3) by (simp add: word_unat_eq_iff)
  ultimately show ?thesis by (cases p q rule: linorder_cases) auto
qed

lemma ents_set_entry:
  assumes "page_aligned t" and "i < 512"
  shows "ents (mem (set_entry m (entry_addr t i) v)) =
    (ents (mem m))(t := (ents (mem m) t)(i := v))"
proof (intro ext)
  fix u j
  show "ents (mem (set_entry m (entry_addr t i) v)) u j =
      ((ents (mem m))(t := (ents (mem m) t)(i := v))) u j"
  proof (cases "page_aligned u \<and> j < 512 \<and> (u, j) \<noteq> (t, i)")
    case True
    have j: "unat i < 512" "unat j < 512" using True assms by (simp_all add: word_less_nat_alt)
    have "8 \<le> unat (entry_addr u j + of_nat k - entry_addr t i)" if "k < 8" for k
    proof (rule out_of_reach)
      show "unat (entry_addr t i) + 8 \<le> 2 ^ 64"
        using assms j aligned_fits [of t] by (simp add: unat_entry_addr)
      have "t \<noteq> u \<or> unat i < unat j \<or> unat j < unat i"
        using True by (auto simp: word_unat_eq_iff)
      then show "unat (entry_addr u j + of_nat k) < unat (entry_addr t i) \<or>
          unat (entry_addr t i) + 8 \<le> unat (entry_addr u j + of_nat k)"
        using aligned_apart [of t u] assms True that j
        by (cases "t = u") (auto simp: unat_entry_addr byte_of_entry)
    qed
    then have "read_u64 (write_u64 (mem m) (entry_addr t i) v) (entry_addr u j) =
        read_u64 (mem m) (entry_addr u j)"
      by (simp add: read_u64_def write_u64_def mem_read_write_other)
    then show ?thesis using True by (auto simp: ents_def set_entry_def)
  next
    case False
    then consider "(u, j) = (t, i)" | "(u, j) \<noteq> (t, i)" "\<not> (page_aligned u \<and> j < 512)" by blast
    then show ?thesis
    proof cases
      case 1
      then show ?thesis using assms by (simp add: ents_def set_entry_def)
    next
      case 2
      then show ?thesis by (auto simp: ents_outside)
    qed
  qed
qed

lemma ents_zero_table:
  assumes "page_aligned t"
  shows "ents (mem (zero_table m t)) = (ents (mem m))(t := \<lambda>_. 0)"
proof (intro ext)
  fix u j
  have fits: "unat t + 4096 \<le> 2 ^ 64" using assms by (rule aligned_fits)
  show "ents (mem (zero_table m t)) u j = ((ents (mem m))(t := \<lambda>_. 0)) u j"
  proof (cases "page_aligned u \<and> j < 512")
    case True
    then have j: "unat j < 512" by (simp add: word_less_nat_alt)
    show ?thesis
    proof (cases "u = t")
      case u: True
      have "unat (entry_addr t j + of_nat k - t) < 4096" if "k < 8" for k
      proof -
        have "t \<le> entry_addr t j + of_nat k"
          using True u that by (simp add: word_le_nat_alt byte_of_entry)
        then show ?thesis using True u that j by (simp add: unat_sub word_le_nat_alt byte_of_entry)
      qed
      then have "mem_read (mem (zero_table m t)) (entry_addr t j) 8 = replicate 8 0"
        by (intro nth_equalityI) (simp_all add: mem_read_def zero_table_def mem_write_def)
      then show ?thesis
        using True u by (simp add: ents_def read_u64_def numeral_eq_Suc)
    next
      case u: False
      have "4096 \<le> unat (entry_addr u j + of_nat k - t)" if "k < 8" for k
        using aligned_apart [of t u] assms True that j u fits
        by (intro out_of_reach) (auto simp: byte_of_entry)
      then have "read_u64 (mem (zero_table m t)) (entry_addr u j) = read_u64 (mem m) (entry_addr u j)"
        by (simp add: read_u64_def zero_table_def mem_read_write_other)
      then show ?thesis using True u by (simp add: ents_def)
    qed
  qed (auto simp: ents_def)
qed

section \<open>The processor's page walk\<close>

text \<open>
  Bits of an entry: 0 present, 1 writable, 2 user, 7 page size, 63 no-execute. \<open>va_index n\<close> is the
  index a virtual address has at level \<open>n\<close>: 3 for the PML4, 0 for the page table.
\<close>

definition va_index :: "nat \<Rightarrow> u64 \<Rightarrow> u64" where
  "va_index n va = drop_bit (12 + 9 * n) va AND 0x1FF"

record xlat =
  xl_phys :: u64
  xl_write :: bool
  xl_user :: bool
  xl_exec :: bool

definition page_frame :: "nat \<Rightarrow> u64 \<Rightarrow> u64 \<Rightarrow> xlat" where
  "page_frame n e va = \<lparr>
     xl_phys = (e AND PHYS_ADDR_MASK AND NOT (mask (12 + 9 * n))) OR (va AND mask (12 + 9 * n)),
     xl_write = bit e 1, xl_user = bit e 2, xl_exec = (\<not> bit e 63)\<rparr>"

definition restrict_by :: "u64 \<Rightarrow> xlat \<Rightarrow> xlat" where
  "restrict_by e x = x\<lparr>xl_write := xl_write x \<and> bit e 1, xl_user := xl_user x \<and> bit e 2,
     xl_exec := xl_exec x \<and> \<not> bit e 63\<rparr>"

primrec hw_walk :: "nat \<Rightarrow> (u64 \<Rightarrow> u64 \<Rightarrow> u64) \<Rightarrow> u64 \<Rightarrow> u64 \<Rightarrow> xlat option" where
  "hw_walk 0 T t va =
     (let e = T t (va_index 0 va) in if bit e 0 then Some (page_frame 0 e va) else None)"
| "hw_walk (Suc n) T t va =
     (let e = T t (va_index (Suc n) va)
      in if \<not> bit e 0 then None
         else if bit e 7 then (if Suc n \<le> 2 then Some (page_frame (Suc n) e va) else None)
         else map_option (restrict_by e) (hw_walk n T (e AND PHYS_ADDR_MASK) va))"

definition translate :: "machine \<Rightarrow> u64 \<Rightarrow> u64 \<Rightarrow> xlat option" where
  "translate m root va = hw_walk 3 (ents (mem m)) root va"

lemma present_iff: "e AND PF_PRESENT = 0 \<longleftrightarrow> \<not> bit e 0"
  by (simp add: PF_PRESENT_def and_one_eq bit_0 odd_iff_mod_2_eq_one)

lemma va_index_less [simp]: "va_index n va < 512"
  unfolding va_index_def by (rule le_less_trans [OF word_and_le1]) simp

lemma va_split_index:
  "va_pml4 (va_split v) = va_index 3 v" "va_pdpt (va_split v) = va_index 2 v"
  "va_pd (va_split v) = va_index 1 v" "va_pt (va_split v) = va_index 0 v"
  by (simp_all add: va_split_def va_index_def)

lemma mask_aligned [simp]: "page_aligned (e AND PHYS_ADDR_MASK)"
  by (simp add: PHYS_ADDR_MASK_def and.assoc)

section \<open>The tree of tables\<close>

text \<open>
  An entry leads to a table when it is present and not a huge page. \<open>tables n T t\<close> are the
  table pages below the table \<open>t\<close> of level \<open>n\<close>; \<open>tree_ok\<close> says that no page is used twice and
  that none is at address 0.
\<close>

definition link :: "u64 \<Rightarrow> bool" where
  "link e \<longleftrightarrow> bit e 0 \<and> \<not> bit e 7"

abbreviation child :: "u64 \<Rightarrow> u64" where
  "child e \<equiv> e AND PHYS_ADDR_MASK"

primrec tables :: "nat \<Rightarrow> (u64 \<Rightarrow> u64 \<Rightarrow> u64) \<Rightarrow> u64 \<Rightarrow> u64 set" where
  "tables 0 T t = {t}"
| "tables (Suc n) T t = insert t (\<Union>i\<in>{i. i < 512 \<and> link (T t i)}. tables n T (child (T t i)))"

primrec tree_ok :: "nat \<Rightarrow> (u64 \<Rightarrow> u64 \<Rightarrow> u64) \<Rightarrow> u64 \<Rightarrow> bool" where
  "tree_ok 0 T t \<longleftrightarrow> page_aligned t \<and> t \<noteq> 0"
| "tree_ok (Suc n) T t \<longleftrightarrow> page_aligned t \<and> t \<noteq> 0 \<and>
     (\<forall>i<512. link (T t i) \<longrightarrow> t \<notin> tables n T (child (T t i)) \<and> tree_ok n T (child (T t i))) \<and>
     (\<forall>i<512. \<forall>j<512. i \<noteq> j \<longrightarrow> link (T t i) \<longrightarrow> link (T t j) \<longrightarrow>
        tables n T (child (T t i)) \<inter> tables n T (child (T t j)) = {})"

text \<open>A property of the present entries on the path of an address above the page table.\<close>

primrec path_all :: "(u64 \<Rightarrow> bool) \<Rightarrow> nat \<Rightarrow> (u64 \<Rightarrow> u64 \<Rightarrow> u64) \<Rightarrow> u64 \<Rightarrow> u64 \<Rightarrow> bool" where
  "path_all P 0 T t va \<longleftrightarrow> True"
| "path_all P (Suc n) T t va \<longleftrightarrow>
     (let e = T t (va_index (Suc n) va) in bit e 0 \<longrightarrow> P e \<and> path_all P n T (child e) va)"

abbreviation no_huge :: "nat \<Rightarrow> (u64 \<Rightarrow> u64 \<Rightarrow> u64) \<Rightarrow> u64 \<Rightarrow> u64 \<Rightarrow> bool" where
  "no_huge \<equiv> path_all (\<lambda>e. \<not> bit e 7)"

lemma root_in_tables [simp]: "t \<in> tables n T t"
  by (cases n) simp_all

lemma tree_ok_aligned: "tree_ok n T t \<Longrightarrow> page_aligned t"
  by (cases n) simp_all

lemma tree_ok_nonzero: "tree_ok n T t \<Longrightarrow> t \<noteq> 0"
  by (cases n) simp_all

lemma child_tables:
  "i < 512 \<Longrightarrow> link (T t i) \<Longrightarrow> tables n T (child (T t i)) \<subseteq> tables (Suc n) T t"
  by auto

text \<open>Changes outside the tables of a tree do not affect it.\<close>

lemma tables_frame:
  "(\<And>u. u \<in> tables n T t \<Longrightarrow> T' u = T u) \<Longrightarrow> tables n T' t = tables n T t"
proof (induction n arbitrary: t)
  case (Suc n)
  have t: "T' t = T t" using Suc.prems by simp
  have "tables n T' (child (T t i)) = tables n T (child (T t i))" if "i < 512" "link (T t i)" for i
    using that Suc.prems by (intro Suc.IH) (meson child_tables subsetD)
  then show ?case by (auto simp: t)
qed simp

lemma tree_ok_frame:
  "(\<And>u. u \<in> tables n T t \<Longrightarrow> T' u = T u) \<Longrightarrow> tree_ok n T' t = tree_ok n T t"
proof (induction n arbitrary: t)
  case (Suc n)
  have t: "T' t = T t" using Suc.prems by simp
  have "tables n T' (child (T t i)) = tables n T (child (T t i)) \<and>
      tree_ok n T' (child (T t i)) = tree_ok n T (child (T t i))" if "i < 512" "link (T t i)" for i
    using that Suc.prems by (intro conjI Suc.IH tables_frame) (meson child_tables subsetD)+
  then show ?case by (simp add: t)
qed simp

lemma hw_walk_frame:
  "(\<And>u. u \<in> tables n T t \<Longrightarrow> T' u = T u) \<Longrightarrow> hw_walk n T' t va = hw_walk n T t va"
proof (induction n arbitrary: t)
  case (Suc n)
  have t: "T' t = T t" using Suc.prems by simp
  let ?e = "T t (va_index (Suc n) va)"
  have "hw_walk n T' (child ?e) va = hw_walk n T (child ?e) va" if "link ?e"
    using that Suc.prems by (intro Suc.IH) (meson child_tables subsetD va_index_less)
  then show ?case by (simp add: t Let_def link_def)
qed (simp add: Let_def)

lemma no_huge_frame:
  "(\<And>u. u \<in> tables n T t \<Longrightarrow> T' u = T u) \<Longrightarrow> no_huge n T' t va = no_huge n T t va"
proof (induction n arbitrary: t)
  case (Suc n)
  have t: "T' t = T t" using Suc.prems by simp
  let ?e = "T t (va_index (Suc n) va)"
  have "no_huge n T' (child ?e) va = no_huge n T (child ?e) va" if "link ?e"
    using that Suc.prems by (intro Suc.IH) (meson child_tables subsetD va_index_less)
  then show ?case by (auto simp: t Let_def link_def)
qed simp

section \<open>Pages for new tables\<close>

text \<open>
  A table takes one page. While there are free pages of order 0, the allocator hands out one of
  them and changes nothing else; \<open>single_pages\<close> are their addresses.
\<close>

definition page_address :: "ppa \<Rightarrow> nat \<Rightarrow> u64" where
  "page_address s j = pool_base s + of_nat (j * PAGE_SIZE)"

definition single_pages :: "machine \<Rightarrow> u64 set" where
  "single_pages m = page_address (phys m) `
     {j. j < TOTAL_PAGES \<and> is_free (page_meta (phys m) j) \<and> order (page_meta (phys m) j) = 0}"

definition pool_mapped :: "machine \<Rightarrow> bool" where
  "pool_mapped m \<longleftrightarrow> pool_ok (phys m) \<and> initialized (phys m) \<and>
     unat (pool_base (phys m)) + MEMORY_SIZE \<le> 2 ^ 52"

lemma unat_page_address:
  assumes "pool_ok s" and "j < TOTAL_PAGES"
  shows "unat (page_address s j) = unat (pool_base s) + j * PAGE_SIZE"
proof -
  have "unat (pool_base s) + j * PAGE_SIZE < 2 ^ 64" using assms by (simp add: pool_ok_def)
  then show ?thesis
    by (simp add: page_address_def unat_word_ariths unat_of_nat mod_simps take_bit_eq_mod)
qed

lemma page_address_eq:
  assumes "pool_ok s" and "i < TOTAL_PAGES" and "j < TOTAL_PAGES"
  shows "page_address s i = page_address s j \<longleftrightarrow> i = j"
  using unat_page_address [OF assms(1,2)] unat_page_address [OF assms(1,3)]
  by (metis add_left_cancel mult_right_cancel zero_neq_numeral)

lemma finite_single_pages [simp]: "finite (single_pages m)"
  by (simp add: single_pages_def)

lemma single_page:
  assumes "pool_mapped m" and "a \<in> single_pages m"
  shows "a \<noteq> 0" and "page_aligned a" and "unat a < 2 ^ 52"
proof -
  from assms(2) obtain j where j: "j < TOTAL_PAGES" "a = page_address (phys m) j"
    by (auto simp: single_pages_def)
  from assms(1) have ok: "pool_ok (phys m)" and top: "unat (pool_base (phys m)) + MEMORY_SIZE \<le> 2 ^ 52"
    by (simp_all add: pool_mapped_def)
  note u = unat_page_address [OF ok j(1)]
  have "0 < unat (pool_base (phys m))" using ok by (simp add: pool_ok_def unat_gt_0)
  then have "0 < unat a" using u j(2) by simp
  then show "a \<noteq> 0" by (simp add: unat_gt_0)
  show "page_aligned a" using ok u j(2) by (auto simp: aligned_mod pool_ok_def)
  show "unat a < 2 ^ 52" using u j top by simp
qed

lemma single_page_range:
  assumes "pool_mapped m" and "a \<in> single_pages m"
  shows "unat a < unat (pool_base (phys m)) + MEMORY_SIZE"
  using assms unat_page_address [of "phys m"] by (auto simp: single_pages_def pool_mapped_def)

lemma palloc_single:
  assumes "pool_mapped m" and "single_pages m \<noteq> {}"
  obtains a m1 where "palloc m 1 = (a, m1)" "a \<in> single_pages m" "pool_mapped m1"
    "single_pages m1 = single_pages m - {a}" "mem m1 = mem m"
    "kernel_paging m1 = kernel_paging m" "paging_initialized m1 = paging_initialized m" "cr3 m1 = cr3 m"
    "zig_safety m1 = zig_safety m"
proof -
  let ?s = "phys m" and ?pm = "page_meta (phys m)"
  from assms(1) have ok: "pool_ok ?s" "initialized ?s" by (simp_all add: pool_mapped_def)
  from assms(2) obtain j where "j < TOTAL_PAGES" "is_free (?pm j)" "order (?pm j) = 0"
    by (auto simp: single_pages_def)
  then obtain k where k: "scan_order ?pm 0 0 = Some k" using scan_order_zero [of 0 j ?pm] by auto
  note free = scan_order_Some [OF k]
  define s1 where "s1 = ?s\<lparr>page_meta := ?pm(k := (?pm k)\<lparr>is_free := False\<rparr>)\<rparr>"
  have eq: "palloc m 1 = (page_address ?s k, m\<lparr>phys := s1\<rparr>)"
    using ok(2) k
    by (simp add: palloc_def phys_alloc_def find_order.simps [of 0] find_block.simps [of _ 0]
        split_block.simps page_address_def s1_def Let_def)
  have addr: "page_address s1 = page_address ?s" by (simp add: fun_eq_iff page_address_def s1_def)
  show thesis
  proof (rule that [OF eq])
    show "page_address ?s k \<in> single_pages m" using free by (simp add: single_pages_def)
    show "pool_mapped (m\<lparr>phys := s1\<rparr>)"
      using assms(1) by (simp add: pool_mapped_def pool_ok_def s1_def)
    have "{j. j < TOTAL_PAGES \<and> is_free (page_meta s1 j) \<and> order (page_meta s1 j) = 0} =
        {j. j < TOTAL_PAGES \<and> is_free (?pm j) \<and> order (?pm j) = 0} - {k}"
      by (auto simp: s1_def)
    then show "single_pages (m\<lparr>phys := s1\<rparr>) = single_pages m - {page_address ?s k}"
      using free page_address_eq [OF ok(1)] by (auto simp: single_pages_def addr)
  qed simp_all
qed

section \<open>Mapping a page\<close>

text \<open>\<open>PagingContext.map\<close> level by level.\<close>

primrec map_from :: "nat \<Rightarrow> machine \<Rightarrow> u64 \<Rightarrow> u64 \<Rightarrow> u64 \<Rightarrow> (bool \<times> machine) outcome" where
  "map_from 0 m t va e =
     obind (invlpg (set_entry m (entry_addr t (va_index 0 va)) e) va) (\<lambda>m1. Ret (True, m1))"
| "map_from (Suc n) m t va e =
     obind (ensure_table m (entry_addr t (va_index (Suc n) va))) (\<lambda>(r, m1).
       case r of None \<Rightarrow> Ret (False, m1) | Some u \<Rightarrow> map_from n m1 u va e)"

lemma pg_map_levels:
  "pg_map m pml4 v p f = map_from 3 m pml4 v ((p AND PHYS_ADDR_MASK) OR f OR PF_PRESENT)"
  unfolding pg_map_def va_split_index Let_def numeral_3_eq_3 numeral_2_eq_2 One_nat_def map_from.simps
  by (rule refl)

text \<open>The check of \<open>invlpg\<close> passes for every page-aligned address but 0.\<close>

definition invlpg_passes :: "machine \<Rightarrow> u64 \<Rightarrow> bool" where
  "invlpg_passes m va \<longleftrightarrow> \<not> (zig_safety m \<and> (va = 0 \<or> va AND 7 \<noteq> 0))"

lemma aligned_passes:
  assumes "page_aligned va" and "va \<noteq> 0"
  shows "invlpg_passes m va"
proof -
  have "va AND 7 = (va AND 0xFFF) AND 7" by (simp add: and.assoc)
  then have "va AND 7 = 0" using assms(1) by simp
  with assms(2) show ?thesis by (simp add: invlpg_passes_def)
qed

lemma bit_phys_mask: "bit PHYS_ADDR_MASK k \<longleftrightarrow> 12 \<le> k \<and> k < 52"
proof -
  have eq: "PHYS_ADDR_MASK = push_bit 12 (mask 40)"
    by (simp add: PHYS_ADDR_MASK_def mask_eq_exp_minus_1 push_bit_eq_mult)
  show ?thesis unfolding eq by (auto simp: bit_push_bit_iff bit_mask_iff simp del: mask_numeral)
qed

lemma aligned_low_bits: "page_aligned a \<Longrightarrow> k < 12 \<Longrightarrow> \<not> bit a k"
proof
  assume a: "page_aligned a" "k < 12" "bit a k"
  have eq: "0xFFF = (mask 12 :: u64)" by (simp add: mask_eq_exp_minus_1)
  have "bit (a AND 0xFFF) k"
    unfolding eq using a by (simp add: bit_and_iff bit_mask_iff del: mask_numeral)
  with a show False by simp
qed

lemma small_high_bits:
  assumes "unat (a :: u64) < 2 ^ 52" and "52 \<le> k"
  shows "\<not> bit a k"
proof
  assume "bit a k"
  then have "bit (unat a) k" by (simp add: bit_unsigned_iff)
  moreover have "unat a = take_bit 52 (unat a)"
    using assms(1) by (simp only: take_bit_nat_eq_self)
  ultimately show False using assms(2) by (metis bit_take_bit_iff not_le)
qed

lemma bit_flag_present: "bit PF_PRESENT k \<longleftrightarrow> k = 0"
  by (simp add: PF_PRESENT_def bit_1_iff)

lemma bit_flag_writable: "bit PF_WRITABLE k \<longleftrightarrow> k = 1"
  using bit_exp_iff [of 1 k, where ?'a = u64] by (auto simp: PF_WRITABLE_def)

lemma bit_flag_user: "bit PF_USER k \<longleftrightarrow> k = 2"
  using bit_exp_iff [of 2 k, where ?'a = u64] by (auto simp: PF_USER_def)

lemma bit_flag_nx: "bit PF_NO_EXECUTE k \<longleftrightarrow> k = 63"
  using bit_exp_iff [of 63 k, where ?'a = u64] by (auto simp: PF_NO_EXECUTE_def)

lemmas bit_flags = bit_flag_present bit_flag_writable bit_flag_user bit_flag_nx bit_phys_mask

lemma entry_of_table:
  assumes "page_aligned a" and "unat a < 2 ^ 52"
  defines "e \<equiv> a OR PF_PRESENT OR PF_WRITABLE OR PF_USER"
  shows "child e = a" and "bit e 0" "bit e 1" "bit e 2" "\<not> bit e 7" "\<not> bit e 63"
proof -
  show "bit e 0" "bit e 1" "bit e 2" "\<not> bit e 7" "\<not> bit e 63"
    using aligned_low_bits [OF assms(1)] small_high_bits [OF assms(2)]
    by (simp_all add: e_def bit_or_iff bit_flags)
  show "child e = a"
  proof (rule bit_word_eqI)
    fix k assume "k < LENGTH(64)"
    show "bit (child e) k = bit a k"
      using aligned_low_bits [OF assms(1), of k] small_high_bits [OF assms(2), of k]
      by (auto simp: e_def bit_or_iff bit_and_iff bit_flags simp flip: not_less)
  qed
qed

text \<open>
  The effect of a mapping below a table \<open>t\<close> of level \<open>n\<close>: at most \<open>k\<close> pages are taken, only
  tables of the tree and pages taken are written, the tree stays one, and the translation
  changes for the page of \<open>va\<close> only. The permissions of that page are those of the entry
  limited by the tables that were there before.
\<close>

definition same_page :: "nat \<Rightarrow> u64 \<Rightarrow> u64 \<Rightarrow> bool" where
  "same_page n va va' \<longleftrightarrow> (\<forall>k\<le>n. va_index k va' = va_index k va)"

definition mapped :: "nat \<Rightarrow> (u64 \<Rightarrow> u64 \<Rightarrow> u64) \<Rightarrow> u64 \<Rightarrow> u64 \<Rightarrow> u64 \<Rightarrow> u64 \<Rightarrow> xlat" where
  "mapped n T t va e va' = \<lparr>
     xl_phys = (e AND PHYS_ADDR_MASK) OR (va' AND 0xFFF),
     xl_write = (bit e 1 \<and> path_all (\<lambda>x. bit x 1) n T t va),
     xl_user = (bit e 2 \<and> path_all (\<lambda>x. bit x 2) n T t va),
     xl_exec = (\<not> bit e 63 \<and> path_all (\<lambda>x. \<not> bit x 63) n T t va)\<rparr>"

definition taken :: "machine \<Rightarrow> machine \<Rightarrow> u64 set" where
  "taken m m1 = single_pages m - single_pages m1"

definition map_effect :: "nat \<Rightarrow> nat \<Rightarrow> machine \<Rightarrow> machine \<Rightarrow> u64 \<Rightarrow> u64 \<Rightarrow> u64 \<Rightarrow> bool" where
  "map_effect k n m m1 t va e \<longleftrightarrow>
     (let T = ents (mem m); T1 = ents (mem m1) in
      pool_mapped m1 \<and> single_pages m1 \<subseteq> single_pages m \<and>
      card (single_pages m) \<le> card (single_pages m1) + k \<and>
      kernel_paging m1 = kernel_paging m \<and> paging_initialized m1 = paging_initialized m \<and>
      cr3 m1 = cr3 m \<and> zig_safety m1 = zig_safety m \<and>
      tree_ok n T1 t \<and> tables n T1 t \<subseteq> tables n T t \<union> taken m m1 \<and>
      (\<forall>u. u \<notin> tables n T t \<union> taken m m1 \<longrightarrow> T1 u = T u) \<and>
      (\<forall>va'. no_huge n T1 t va' = no_huge n T t va') \<and>
      (0 < n \<longrightarrow> (\<forall>i. bit (T t i) 0 \<longrightarrow> T1 t i = T t i)) \<and>
      (\<forall>va'. hw_walk n T1 t va' =
         (if same_page n va va' then Some (mapped n T t va e va') else hw_walk n T t va')))"

lemma same_page_Suc:
  "same_page (Suc n) va va' \<longleftrightarrow> va_index (Suc n) va' = va_index (Suc n) va \<and> same_page n va va'"
  by (auto simp: same_page_def le_Suc_eq)

lemma restrict_mapped:
  assumes "link (T t (va_index (Suc n) va))"
  shows "restrict_by (T t (va_index (Suc n) va)) (mapped n T (child (T t (va_index (Suc n) va))) va e va') =
    mapped (Suc n) T t va e va'"
  using assms by (auto simp: restrict_by_def mapped_def link_def Let_def)

text \<open>
  A change confined to the tables below one entry of \<open>t\<close>, and to pages outside the tree, keeps
  the tree and is seen only through that entry.
\<close>

lemma subtree_change:
  assumes tree: "tree_ok (Suc n) T t" and i: "i < 512" "link (T t i)"
    and out: "\<And>u. u \<notin> D \<Longrightarrow> T1 u = T u"
    and D: "D \<inter> tables (Suc n) T t \<subseteq> tables n T (child (T t i))"
    and sub: "tables n T1 (child (T t i)) \<subseteq> D" and ok: "tree_ok n T1 (child (T t i))"
  shows "tree_ok (Suc n) T1 t" and "tables (Suc n) T1 t \<subseteq> tables (Suc n) T t \<union> D"
    and "T1 t = T t"
    and "hw_walk (Suc n) T1 t va' =
      (if va_index (Suc n) va' = i
       then map_option (restrict_by (T t i)) (hw_walk n T1 (child (T t i)) va')
       else hw_walk (Suc n) T t va')"
    and "no_huge (Suc n) T1 t va' =
      (if va_index (Suc n) va' = i then no_huge n T1 (child (T t i)) va'
       else no_huge (Suc n) T t va')"
proof -
  define c where "c = (\<lambda>j. child (T t j))"
  have "t \<notin> tables n T (c i)" using tree i by (simp add: c_def)
  then have tD: "t \<notin> D" using D by (auto simp: c_def)
  then show t: "T1 t = T t" by (rule out)
  have dis: "tables n T (c j) \<inter> D = {}" if "j < 512" "link (T t j)" "j \<noteq> i" for j
  proof -
    have "tables n T (c j) \<inter> tables n T (c i) = {}" using tree that i by (simp add: c_def)
    then show ?thesis using D child_tables [of j T t n] that by (auto simp: c_def)
  qed
  then have agree: "T1 u = T u" if "u \<in> tables n T (c j)" "j < 512" "link (T t j)" "j \<noteq> i" for u j
    using that out by blast
  have fr: "tables n T1 (c j) = tables n T (c j)" "tree_ok n T1 (c j) = tree_ok n T (c j)"
    "hw_walk n T1 (c j) a = hw_walk n T (c j) a" "no_huge n T1 (c j) a = no_huge n T (c j) a"
    if "j < 512" "link (T t j)" "j \<noteq> i" for j a
    using agree that by - (rule tables_frame tree_ok_frame hw_walk_frame no_huge_frame, blast)+
  show "tables (Suc n) T1 t \<subseteq> tables (Suc n) T t \<union> D"
  proof -
    have "tables n T1 (c j) \<subseteq> tables (Suc n) T t \<union> D" if "j < 512" "link (T t j)" for j
      using that sub fr(1) [of j] child_tables [of j T t n] by (cases "j = i") (auto simp: c_def)
    then show ?thesis by (auto simp: t c_def)
  qed
  show "tree_ok (Suc n) T1 t"
  proof -
    have "t \<notin> tables n T1 (c j) \<and> tree_ok n T1 (c j)" if "j < 512" "link (T t j)" for j
      using that tree fr(1,2) [of j] sub ok tD by (cases "j = i") (auto simp: c_def)
    moreover have "tables n T1 (c j) \<inter> tables n T1 (c l) = {}"
      if "j < 512" "link (T t j)" "l < 512" "link (T t l)" "j \<noteq> l" for j l
      using that tree fr(1) [of j] fr(1) [of l] sub dis [of j] dis [of l]
      by (cases "j = i"; cases "l = i") (auto simp: c_def)
    ultimately show ?thesis using tree by (simp add: t c_def)
  qed
  show "hw_walk (Suc n) T1 t va' =
      (if va_index (Suc n) va' = i
       then map_option (restrict_by (T t i)) (hw_walk n T1 (child (T t i)) va')
       else hw_walk (Suc n) T t va')"
    using fr(3) [of "va_index (Suc n) va'" va'] i by (auto simp: t Let_def c_def link_def)
  show "no_huge (Suc n) T1 t va' =
      (if va_index (Suc n) va' = i then no_huge n T1 (child (T t i)) va'
       else no_huge (Suc n) T t va')"
    using fr(4) [of "va_index (Suc n) va'" va'] i by (auto simp: t Let_def c_def link_def)
qed

lemma map_effect_lift:
  fixes m m1 :: machine
  defines "T \<equiv> ents (mem m)" and "T1 \<equiv> ents (mem m1)"
  assumes tree: "tree_ok (Suc n) T t" and lnk: "link (T t (va_index (Suc n) va))"
    and busy: "tables (Suc n) T t \<inter> single_pages m = {}"
    and eff: "map_effect k n m m1 (child (T t (va_index (Suc n) va))) va e"
  shows "map_effect k (Suc n) m m1 t va e"
proof -
  define i where "i = va_index (Suc n) va"
  define D where "D = tables n T (child (T t i)) \<union> taken m m1"
  have i: "i < 512" "link (T t i)" using lnk by (simp_all add: i_def)
  note eff' = eff [folded i_def, unfolded map_effect_def Let_def, folded T_def T1_def]
  have D: "D \<inter> tables (Suc n) T t \<subseteq> tables n T (child (T t i))"
    using busy by (auto simp: D_def taken_def)
  have out: "T1 u = T u" if "u \<notin> D" for u using eff' that by (simp add: D_def)
  have sub: "tables n T1 (child (T t i)) \<subseteq> D" using eff' by (simp add: D_def)
  have ok: "tree_ok n T1 (child (T t i))" using eff' by simp
  note ch = subtree_change [OF tree i out D sub ok]
  have kid: "tables n T (child (T t i)) \<subseteq> tables (Suc n) T t" using child_tables [of i T t n] i by simp
  have walk: "hw_walk n T1 (child (T t i)) va' =
      (if same_page n va va' then Some (mapped n T (child (T t i)) va e va')
       else hw_walk n T (child (T t i)) va')" for va'
    using eff' by simp
  have "hw_walk (Suc n) T1 t va' =
      (if same_page (Suc n) va va' then Some (mapped (Suc n) T t va e va')
       else hw_walk (Suc n) T t va')" for va'
    using ch(4) [of va'] walk [of va'] i restrict_mapped [of T t n va e va', folded i_def]
    by (auto simp: same_page_Suc Let_def link_def simp flip: i_def)
  moreover have "no_huge n T1 (child (T t i)) va' = no_huge n T (child (T t i)) va'" for va'
    using eff' by simp
  then have "no_huge (Suc n) T1 t va' = no_huge (Suc n) T t va'" for va'
    using ch(5) [of va'] i by (auto simp: Let_def link_def)
  moreover have "\<forall>j. bit (T t j) 0 \<longrightarrow> T1 t j = T t j" using ch(3) by simp
  moreover have "tables (Suc n) T1 t \<subseteq> tables (Suc n) T t \<union> taken m m1"
    using ch(2) kid unfolding D_def by blast
  moreover have "\<forall>u. u \<notin> tables (Suc n) T t \<union> taken m m1 \<longrightarrow> T1 u = T u"
    using out kid unfolding D_def by blast
  ultimately show ?thesis
    using ch(1) eff' unfolding map_effect_def Let_def T_def [symmetric] T1_def [symmetric] by blast
qed

text \<open>Linking a fresh, empty table changes no translation.\<close>

lemma empty_table:
  assumes "\<And>i. T t i = 0" and "page_aligned t" and "t \<noteq> 0"
  shows "tables n T t = {t}" and "tree_ok n T t" and "path_all P n T t va" and "hw_walk n T t va = None"
  using assms by (cases n; simp add: link_def)+

lemma link_fresh:
  fixes m m2 :: machine
  defines "T \<equiv> ents (mem m)" and "T2 \<equiv> ents (mem m2)"
  assumes tree: "tree_ok (Suc n) T t" and i: "i < 512" "\<not> bit (T t i) 0"
    and raw: "raw \<notin> tables (Suc n) T t" "page_aligned raw" "raw \<noteq> 0"
    and e0: "link e0" "child e0 = raw"
    and T2: "T2 = T(raw := \<lambda>_. 0, t := (T t)(i := e0))"
  shows "tree_ok (Suc n) T2 t" and "tables (Suc n) T2 t = insert raw (tables (Suc n) T t)"
    and "hw_walk (Suc n) T2 t va = hw_walk (Suc n) T t va"
    and "P e0 \<Longrightarrow> va_index (Suc n) va = i \<Longrightarrow> path_all P (Suc n) T2 t va = path_all P (Suc n) T t va"
    and "no_huge (Suc n) T2 t va = no_huge (Suc n) T t va"
proof -
  have rt: "raw \<noteq> t" using raw(1) by auto
  have new: "T2 raw j = 0" for j using rt by (simp add: T2)
  note empty = empty_table [of T2 raw, OF new raw(2,3)]
  have agree: "T2 u = T u" if "u \<in> tables n T (child (T t j))" "j < 512" "link (T t j)" for u j
  proof -
    have "u \<noteq> t" using tree that by auto
    moreover have "u \<noteq> raw" using raw(1) child_tables [of j T t n] that by auto
    ultimately show ?thesis by (simp add: T2)
  qed
  have fr: "tables n T2 (child (T t j)) = tables n T (child (T t j))"
    "tree_ok n T2 (child (T t j)) = tree_ok n T (child (T t j))"
    "hw_walk n T2 (child (T t j)) a = hw_walk n T (child (T t j)) a"
    "no_huge n T2 (child (T t j)) a = no_huge n T (child (T t j)) a"
    if "j < 512" "link (T t j)" for j a
    using agree that by - (rule tables_frame tree_ok_frame hw_walk_frame no_huge_frame, blast)+
  have ent: "T2 t j = (if j = i then e0 else T t j)" for j by (simp add: T2)
  have nl: "\<not> link (T t i)" using i by (simp add: link_def)
  have kid: "raw \<notin> tables n T (child (T t j))" if "j < 512" "link (T t j)" for j
    using raw(1) child_tables [of j T t n] that by auto
  show "tables (Suc n) T2 t = insert raw (tables (Suc n) T t)"
  proof -
    have L: "{j. j < 512 \<and> link (T2 t j)} = insert i {j. j < 512 \<and> link (T t j)}"
      using i e0 by (auto simp: ent)
    have "(\<Union>j\<in>{j. j < 512 \<and> link (T t j)}. tables n T2 (child (T2 t j))) =
        (\<Union>j\<in>{j. j < 512 \<and> link (T t j)}. tables n T (child (T t j)))"
      using nl by (intro SUP_cong refl) (auto simp: ent fr(1))
    then show ?thesis by (simp only: tables.simps L UN_insert) (simp add: ent e0 empty(1) insert_commute)
  qed
  show "tree_ok (Suc n) T2 t"
  proof -
    have "t \<notin> tables n T2 (child (T2 t j)) \<and> tree_ok n T2 (child (T2 t j))"
      if "j < 512" "link (T2 t j)" for j
      using that tree fr(1,2) [of j] empty(1,2) e0 rt by (cases "j = i") (auto simp: ent)
    moreover have "tables n T2 (child (T2 t j)) \<inter> tables n T2 (child (T2 t l)) = {}"
      if "j < 512" "link (T2 t j)" "l < 512" "link (T2 t l)" "j \<noteq> l" for j l
      using that tree fr(1) [of j] fr(1) [of l] empty(1) e0 kid [of j] kid [of l]
      by (cases "j = i"; cases "l = i") (auto simp: ent)
    ultimately show ?thesis using tree by simp
  qed
  show "hw_walk (Suc n) T2 t va = hw_walk (Suc n) T t va"
    using fr(3) [of "va_index (Suc n) va" va] empty(4) e0 i
    by (auto simp: ent Let_def link_def)
  show "path_all P (Suc n) T2 t va = path_all P (Suc n) T t va" if "P e0" "va_index (Suc n) va = i"
    using that e0 i empty(3) by (simp add: ent Let_def)
  show "no_huge (Suc n) T2 t va = no_huge (Suc n) T t va"
    using fr(4) [of "va_index (Suc n) va" va] empty(3) e0 i by (auto simp: ent Let_def link_def)
qed

lemma leaf_effect:
  assumes "pool_mapped m" and "page_aligned t" and "t \<noteq> 0" and "bit e 0"
  shows "map_effect 0 0 m (set_entry m (entry_addr t (va_index 0 va)) e) t va e"
proof -
  have p: "page_frame 0 e va' = mapped 0 T t va e va'" for T va'
  proof -
    have "0xFFF = (mask 12 :: u64)" by (simp add: mask_eq_exp_minus_1)
    moreover have "e AND PHYS_ADDR_MASK AND NOT (mask 12) = e AND PHYS_ADDR_MASK"
      by (rule bit_word_eqI) (auto simp: bit_and_iff bit_not_iff bit_phys_mask bit_mask_iff)
    ultimately show ?thesis by (simp add: page_frame_def mapped_def)
  qed
  let ?m1 = "set_entry m (entry_addr t (va_index 0 va)) e"
  have "phys ?m1 = phys m" "kernel_paging ?m1 = kernel_paging m"
    "paging_initialized ?m1 = paging_initialized m" "cr3 ?m1 = cr3 m" "zig_safety ?m1 = zig_safety m"
    by (simp_all add: set_entry_def)
  then show ?thesis
    using assms p
    by (simp add: map_effect_def Let_def ents_set_entry taken_def single_pages_def pool_mapped_def
        same_page_def)
qed

lemma map_effect_relink:
  assumes eff: "map_effect k (Suc n) m2 m3 t va e"
    and tab: "tables (Suc n) (ents (mem m2)) t = insert raw (tables (Suc n) (ents (mem m)) t)"
    and walk: "\<And>a. hw_walk (Suc n) (ents (mem m2)) t a = hw_walk (Suc n) (ents (mem m)) t a"
    and map: "\<And>a. mapped (Suc n) (ents (mem m2)) t va e a = mapped (Suc n) (ents (mem m)) t va e a"
    and huge: "\<And>a. no_huge (Suc n) (ents (mem m2)) t a = no_huge (Suc n) (ents (mem m)) t a"
    and root: "\<And>i. bit (ents (mem m) t i) 0 \<Longrightarrow> ents (mem m2) t i = ents (mem m) t i"
    and raw: "raw \<in> single_pages m" "single_pages m2 = single_pages m - {raw}"
    and out: "\<And>u. u \<noteq> raw \<Longrightarrow> u \<noteq> t \<Longrightarrow> ents (mem m2) u = ents (mem m) u"
    and regs: "kernel_paging m2 = kernel_paging m" "paging_initialized m2 = paging_initialized m"
      "cr3 m2 = cr3 m" "zig_safety m2 = zig_safety m"
  shows "map_effect (Suc k) (Suc n) m m3 t va e"
proof -
  note eff' = eff [unfolded map_effect_def Let_def]
  have "card (single_pages m) = Suc (card (single_pages m2))"
    unfolding raw(2) by (rule card_Suc_Diff1 [symmetric]) (simp_all add: raw(1))
  moreover have "single_pages m3 \<subseteq> single_pages m2" using eff' by blast
  then have tk: "taken m m3 = insert raw (taken m2 m3)" using raw by (auto simp: taken_def)
  moreover have "\<forall>u. u \<notin> tables (Suc n) (ents (mem m)) t \<union> taken m m3 \<longrightarrow>
      ents (mem m3) u = ents (mem m) u"
  proof (intro allI impI)
    fix u assume u: "u \<notin> tables (Suc n) (ents (mem m)) t \<union> taken m m3"
    then have "u \<noteq> raw" "u \<noteq> t" by (auto simp: tk)
    then have "u \<notin> tables (Suc n) (ents (mem m2)) t \<union> taken m2 m3"
      using u unfolding tab tk by blast
    then have "ents (mem m3) u = ents (mem m2) u" using eff' by blast
    with out \<open>u \<noteq> raw\<close> \<open>u \<noteq> t\<close> show "ents (mem m3) u = ents (mem m) u" by simp
  qed
  ultimately show ?thesis
    using eff' tab raw regs by (auto simp: map_effect_def Let_def walk map huge root
        simp del: tables.simps hw_walk.simps tree_ok.simps path_all.simps)
qed

text \<open>\<open>ensure_table\<close> on an entry that is not present links a fresh, empty table.\<close>

lemma ensure_fresh:
  fixes m :: machine
  defines "T \<equiv> ents (mem m)"
  assumes ok: "pool_mapped m" "single_pages m \<noteq> {}" and tree: "tree_ok (Suc n) T t"
    and busy: "tables (Suc n) T t \<inter> single_pages m = {}" and i: "i < 512" "\<not> bit (T t i) 0"
  obtains raw m2 e0 where "ensure_table m (entry_addr t i) = Ret (Some raw, m2)" "raw \<in> single_pages m"
    "pool_mapped m2" "single_pages m2 = single_pages m - {raw}" "page_aligned raw" "raw \<noteq> 0"
    "link e0" "child e0 = raw" "bit e0 1" "bit e0 2" "\<not> bit e0 63"
    "raw \<notin> tables (Suc n) T t" "ents (mem m2) = T(raw := \<lambda>_. 0, t := (T t)(i := e0))"
    "kernel_paging m2 = kernel_paging m" "paging_initialized m2 = paging_initialized m" "cr3 m2 = cr3 m"
    "zig_safety m2 = zig_safety m"
proof -
  have al: "page_aligned t" using tree by (rule tree_ok_aligned)
  from ok obtain raw m1 where m1: "palloc m 1 = (raw, m1)" "raw \<in> single_pages m"
      "pool_mapped m1" "single_pages m1 = single_pages m - {raw}" "mem m1 = mem m"
      "kernel_paging m1 = kernel_paging m" "paging_initialized m1 = paging_initialized m"
      "cr3 m1 = cr3 m" "zig_safety m1 = zig_safety m"
    by (rule palloc_single)
  define e0 where "e0 = raw OR PF_PRESENT OR PF_WRITABLE OR PF_USER"
  define m2 where "m2 = set_entry (zero_table m1 raw) (entry_addr t i) e0"
  note r = single_page [OF ok(1) m1(2)]
  note b = entry_of_table [OF r(2,3), folded e0_def]
  have et: "ensure_table m (entry_addr t i) = Ret (Some raw, m2)"
    using i r(1) m1(1) al by (simp add: ensure_table_def present_iff m2_def e0_def T_def ents_def)
  have new: "raw \<notin> tables (Suc n) T t" using busy m1(2) by blast
  then have rt: "raw \<noteq> t" by auto
  have T2: "ents (mem m2) = T(raw := \<lambda>_. 0, t := (T t)(i := e0))"
    using rt i(1) by (simp add: m2_def ents_set_entry al ents_zero_table r(2) m1(5) T_def)
  have same: "phys m2 = phys m1" "kernel_paging m2 = kernel_paging m"
      "paging_initialized m2 = paging_initialized m" "cr3 m2 = cr3 m" "zig_safety m2 = zig_safety m"
    by (simp_all add: m2_def set_entry_def zero_table_def m1)
  then have "pool_mapped m2" "single_pages m2 = single_pages m - {raw}"
    using m1(3,4) by (simp_all add: pool_mapped_def single_pages_def)
  then show thesis using that [OF et m1(2)] r(1,2) b new T2 same by (simp add: link_def)
qed

lemma map_from_effect:
  assumes "pool_mapped m" and "n \<le> card (single_pages m)" and "tree_ok n (ents (mem m)) t"
    and "tables n (ents (mem m)) t \<inter> single_pages m = {}"
    and "no_huge n (ents (mem m)) t va" and "bit e 0" and "invlpg_passes m va"
  shows "\<exists>m1. map_from n m t va e = Ret (True, m1) \<and> map_effect n n m m1 t va e"
  using assms
proof (induction n arbitrary: m t)
  case 0
  then show ?case using leaf_effect by (simp add: invlpg_def invlpg_passes_def)
next
  case (Suc n)
  let ?T = "ents (mem m)" and ?i = "va_index (Suc n) va"
  let ?a = "entry_addr t ?i"
  have al: "page_aligned t" using Suc.prems(3) by (rule tree_ok_aligned)
  have rd: "read_u64 (mem m) ?a = ?T t ?i" by (simp add: ents_def al)
  show ?case
  proof (cases "bit (?T t ?i) 0")
    case True
    then have lnk: "link (?T t ?i)" and nh: "no_huge n ?T (child (?T t ?i)) va"
      using Suc.prems(5) by (simp_all add: Let_def link_def)
    have "child (?T t ?i) \<noteq> 0" using tree_ok_nonzero [of n ?T] Suc.prems(3) lnk by simp
    then have et: "ensure_table m ?a = Ret (Some (child (?T t ?i)), m)"
      using True by (simp add: ensure_table_def rd present_iff table_ptr_def)
    have "tables n ?T (child (?T t ?i)) \<inter> single_pages m = {}"
      using Suc.prems(4) child_tables [of ?i ?T t n] lnk by auto
    then obtain m1 where m1: "map_from n m (child (?T t ?i)) va e = Ret (True, m1)"
        "map_effect n n m m1 (child (?T t ?i)) va e"
      using Suc.IH [of m "child (?T t ?i)"] Suc.prems lnk nh by auto
    from map_effect_lift [OF Suc.prems(3) lnk Suc.prems(4) m1(2)]
    have "map_effect (Suc n) (Suc n) m m1 t va e" by (auto simp: map_effect_def Let_def)
    with m1(1) et show ?thesis by simp
  next
    case False
    have ne: "single_pages m \<noteq> {}" using Suc.prems(2) by auto
    obtain raw m2 e0 where et: "ensure_table m ?a = Ret (Some raw, m2)" and raw: "raw \<in> single_pages m"
        and pages: "pool_mapped m2" "single_pages m2 = single_pages m - {raw}"
        and ra: "page_aligned raw" "raw \<noteq> 0"
        and e0: "link e0" "child e0 = raw" and b: "bit e0 1" "bit e0 2" "\<not> bit e0 63"
        and new: "raw \<notin> tables (Suc n) ?T t"
        and T2: "ents (mem m2) = ?T(raw := \<lambda>_. 0, t := (?T t)(?i := e0))"
        and same: "kernel_paging m2 = kernel_paging m" "paging_initialized m2 = paging_initialized m"
          "cr3 m2 = cr3 m" "zig_safety m2 = zig_safety m"
      by (rule ensure_fresh [OF Suc.prems(1) ne Suc.prems(3,4) va_index_less False])
    note lf = link_fresh [OF Suc.prems(3) va_index_less False new ra e0 T2]
    have zero: "ents (mem m2) raw j = 0" for j using new by (auto simp: T2)
    note em = empty_table [of "ents (mem m2)" raw, OF zero ra]
    have "n \<le> card (single_pages m2)" using Suc.prems(2) raw by (simp add: pages)
    then obtain m3 where m3: "map_from n m2 raw va e = Ret (True, m3)" "map_effect n n m2 m3 raw va e"
      using Suc.IH [of m2 raw] pages em Suc.prems(6,7) same(4) by (auto simp: invlpg_passes_def)
    have ti: "ents (mem m2) t ?i = e0" by (simp add: T2)
    have "tables (Suc n) (ents (mem m2)) t \<inter> single_pages m2 = {}"
      using Suc.prems(4) lf(2) pages(2) by blast
    from map_effect_lift [OF lf(1), of va, unfolded ti e0(2), OF e0(1) this m3(2)]
    have "map_effect n (Suc n) m2 m3 t va e" .
    then have "map_effect (Suc n) (Suc n) m m3 t va e"
    proof (rule map_effect_relink [OF _ lf(2,3)])
      show "mapped (Suc n) (ents (mem m2)) t va e a = mapped (Suc n) ?T t va e a" for a
        using lf(4) [of _ va] b by (simp add: mapped_def del: path_all.simps)
      show "no_huge (Suc n) (ents (mem m2)) t a = no_huge (Suc n) ?T t a" for a by (rule lf(5))
      show "ents (mem m2) t i = ?T t i" if "bit (?T t i) 0" for i using that False by (auto simp: T2)
    qed (use raw pages(2) same T2 in auto)
    with m3(1) et show ?thesis by simp
  qed
qed

section \<open>Unmapping a page\<close>

primrec unmap_from :: "nat \<Rightarrow> machine \<Rightarrow> u64 \<Rightarrow> u64 \<Rightarrow> machine outcome" where
  "unmap_from 0 m t va = invlpg (set_entry m (entry_addr t (va_index 0 va)) 0) va"
| "unmap_from (Suc n) m t va =
     (let e = read_u64 (mem m) (entry_addr t (va_index (Suc n) va))
      in if e AND PF_PRESENT = 0 then Ret m
         else obind (table_ptr m (e AND PHYS_ADDR_MASK)) (\<lambda>u. unmap_from n m u va))"

lemma pg_unmap_levels: "pg_unmap m pml4 v = unmap_from 3 m pml4 v"
  unfolding pg_unmap_def va_split_index Let_def numeral_3_eq_3 numeral_2_eq_2 One_nat_def unmap_from.simps
  by (rule refl)

lemma unmap_from_effect:
  assumes "tree_ok n (ents (mem m)) t" and "no_huge n (ents (mem m)) t va" and "invlpg_passes m va"
  shows "\<exists>f. unmap_from n m t va = Ret (m\<lparr>mem := f\<rparr>) \<and>
    (let T = ents (mem m); T1 = ents f in
     tree_ok n T1 t \<and> tables n T1 t \<subseteq> tables n T t \<and> (\<forall>u. u \<notin> tables n T t \<longrightarrow> T1 u = T u) \<and>
     (\<forall>va'. no_huge n T1 t va' = no_huge n T t va') \<and> (0 < n \<longrightarrow> T1 t = T t) \<and>
     (\<forall>va'. hw_walk n T1 t va' = (if same_page n va va' then None else hw_walk n T t va')))"
  using assms
proof (induction n arbitrary: t)
  case 0
  let ?m1 = "set_entry m (entry_addr t (va_index 0 va)) 0"
  have "?m1 = m\<lparr>mem := mem ?m1\<rparr>" by (simp add: set_entry_def)
  moreover have "unmap_from 0 m t va = Ret ?m1" using 0(3) by (simp add: invlpg_def invlpg_passes_def)
  ultimately show ?case
    using 0 by (intro exI [of _ "mem ?m1"]) (simp add: ents_set_entry same_page_def Let_def)
next
  case (Suc n)
  let ?T = "ents (mem m)" and ?i = "va_index (Suc n) va"
  have rd: "read_u64 (mem m) (entry_addr t ?i) = ?T t ?i"
    using tree_ok_aligned [OF Suc.prems(1)] by (simp add: ents_def)
  show ?case
  proof (cases "bit (?T t ?i) 0")
    case False
    then have "unmap_from (Suc n) m t va = Ret (m\<lparr>mem := mem m\<rparr>)" by (simp add: rd present_iff)
    then show ?thesis using Suc.prems(1) False
      by (intro exI [of _ "mem m"]) (auto simp: same_page_Suc Let_def)
  next
    case True
    let ?c = "child (?T t ?i)"
    have lnk: "link (?T t ?i)" and nh: "no_huge n ?T ?c va"
      using True Suc.prems(2) by (simp_all add: Let_def link_def)
    have ok: "tree_ok n ?T ?c" using Suc.prems(1) lnk by simp
    from Suc.IH [OF ok nh Suc.prems(3), unfolded Let_def] obtain f where
      ret: "unmap_from n m ?c va = Ret (m\<lparr>mem := f\<rparr>)" and ih: "tree_ok n (ents f) ?c"
        "tables n (ents f) ?c \<subseteq> tables n ?T ?c" "\<And>u. u \<notin> tables n ?T ?c \<Longrightarrow> ents f u = ?T u"
        "\<And>va'. no_huge n (ents f) ?c va' = no_huge n ?T ?c va'"
        "\<And>va'. hw_walk n (ents f) ?c va' = (if same_page n va va' then None else hw_walk n ?T ?c va')"
      by blast
    have eq: "unmap_from (Suc n) m t va = Ret (m\<lparr>mem := f\<rparr>)"
      using True ret tree_ok_nonzero [OF ok] by (simp add: rd present_iff table_ptr_def)
    have kid: "tables n ?T ?c \<subseteq> tables (Suc n) ?T t" using child_tables [of ?i ?T t n] lnk by simp
    note ch = subtree_change [OF Suc.prems(1) va_index_less lnk ih(3) _ ih(2,1), OF _ Int_lower1]
    have "hw_walk (Suc n) (ents f) t va' =
        (if same_page (Suc n) va va' then None else hw_walk (Suc n) ?T t va')" for va'
      using ch(4) [of va'] ih(5) lnk by (auto simp: same_page_Suc Let_def link_def)
    moreover have "no_huge (Suc n) (ents f) t va' = no_huge (Suc n) ?T t va'" for va'
      using ch(5) [of va'] ih(4) lnk by (auto simp: Let_def link_def)
    moreover have "tables (Suc n) (ents f) t \<subseteq> tables (Suc n) ?T t" using ch(2) kid by blast
    moreover have "\<forall>u. u \<notin> tables (Suc n) ?T t \<longrightarrow> ents f u = ?T u" using ih(3) kid by blast
    ultimately show ?thesis using ch(1,3) eq unfolding Let_def by blast
  qed
qed

section \<open>Page numbers\<close>

lemma unat_va_index: "unat (va_index n va) = (unat va div 2 ^ (12 + 9 * n)) mod 512"
proof -
  have "(0x1FF :: u64) = mask 9" by (simp add: mask_eq_exp_minus_1)
  then have "va_index n va = take_bit 9 (drop_bit (12 + 9 * n) va)"
    by (simp add: va_index_def take_bit_eq_mask)
  then show ?thesis
    by (simp only: unsigned_take_bit_eq unat_drop_bit_eq)
      (simp add: take_bit_eq_mod drop_bit_eq_div)
qed

lemma va_digits:
  "unat (take_bit 48 va) = 2 ^ 39 * unat (va_index 3 va) + 2 ^ 30 * unat (va_index 2 va) + unat (take_bit 30 va :: u64)"
  "unat (take_bit 30 va) < 2 ^ 30"
proof -
  let ?x = "unat va"
  have "?x mod 2 ^ 48 = 2 ^ 39 * (?x div 2 ^ 39 mod 512) + ?x mod 2 ^ 39"
    using mod_mult2_eq [of ?x "2 ^ 39" 512] by simp
  moreover have "?x mod 2 ^ 39 = 2 ^ 30 * (?x div 2 ^ 30 mod 512) + ?x mod 2 ^ 30"
    using mod_mult2_eq [of ?x "2 ^ 30" 512] by simp
  moreover have "unat (take_bit k va) = ?x mod 2 ^ k" for k
    by (simp only: unsigned_take_bit_eq) (simp only: take_bit_eq_mod)
  ultimately show "unat (take_bit 48 va) = 2 ^ 39 * unat (va_index 3 va) + 2 ^ 30 * unat (va_index 2 va) + unat (take_bit 30 va)"
    "unat (take_bit 30 va) < 2 ^ 30"
    by (simp_all add: unat_va_index)
qed

lemma first_2g: "unat (take_bit 48 va) < 2 ^ 31 \<longleftrightarrow> va_index 3 va = 0 \<and> va_index 2 va < 2"
proof -
  have "va_index 3 va = 0 \<longleftrightarrow> unat (va_index 3 va) = 0" by (simp add: unat_eq_zero)
  moreover have "va_index 2 va < 2 \<longleftrightarrow> unat (va_index 2 va) < 2" by (simp add: word_less_nat_alt)
  ultimately show ?thesis using va_digits [of va] by auto
qed

lemma same_page_number:
  "same_page 3 v va \<longleftrightarrow> drop_bit 12 (take_bit 48 va) = drop_bit 12 (take_bit 48 (v :: u64))"
proof -
  have b: "bit (va_index k a) j \<longleftrightarrow> j < 9 \<and> bit a (12 + 9 * k + j)" for k j a
  proof -
    have "(0x1FF :: u64) = mask 9" by (simp add: mask_eq_exp_minus_1)
    then have "va_index k a = take_bit 9 (drop_bit (12 + 9 * k) a)"
      by (simp add: va_index_def take_bit_eq_mask)
    then show ?thesis by (simp add: bit_take_bit_iff bit_drop_bit_eq ac_simps)
  qed
  show ?thesis
  proof
    assume eq: "drop_bit 12 (take_bit 48 va) = drop_bit 12 (take_bit 48 v)"
    have "bit va i = bit v i" if "12 \<le> i" "i < 48" for i
      using arg_cong [OF eq, of "\<lambda>w. bit w (i - 12)"] that by (simp add: bit_drop_bit_eq bit_take_bit_iff)
    then show "same_page 3 v va"
      by (auto simp: same_page_def b intro!: bit_word_eqI)
  next
    assume eq: "same_page 3 v va"
    show "drop_bit 12 (take_bit 48 va) = drop_bit 12 (take_bit 48 v)"
    proof (rule bit_word_eqI)
      fix i assume "i < LENGTH(64)"
      have "bit va (12 + i) = bit v (12 + i)" if "i < 36"
      proof -
        have "i div 9 \<le> 3" using that by auto
        with eq have "va_index (i div 9) va = va_index (i div 9) v" by (simp add: same_page_def)
        then have "bit (va_index (i div 9) va) (i mod 9) = bit (va_index (i div 9) v) (i mod 9)" by simp
        then show ?thesis by (simp add: b ac_simps)
      qed
      then show "bit (drop_bit 12 (take_bit 48 va)) i = bit (drop_bit 12 (take_bit 48 v)) i"
        by (auto simp: bit_drop_bit_eq bit_take_bit_iff)
    qed
  qed
qed

end
