(* ===== verification/Paging.thy ===== *)
theory Paging
  imports Page_Walk
begin

text \<open>
  The exported page-table operations of \<open>arch/x86_64/mm/paging.zig\<close> against the page walk: the
  address space \<open>paging_global_init\<close> builds, \<open>page_table_map\<close>, \<open>page_table_unmap\<close> and the loops
  over pages, what happens to addresses inside the 1 GB pages of the identity mapping, and the
  missing user bit of the first PML4 entry.
\<close>

section \<open>The kernel address space\<close>

text \<open>
  The kernel's tables are a tree of allocated pages. \<open>paging_ok\<close> is the invariant of the exported
  operations.
\<close>

definition paging_ok :: "machine \<Rightarrow> bool" where
  "paging_ok m \<longleftrightarrow> pool_mapped m \<and> paging_initialized m \<and>
     (case kernel_paging m of None \<Rightarrow> False
      | Some r \<Rightarrow> tree_ok 3 (ents (mem m)) r \<and> tables 3 (ents (mem m)) r \<inter> single_pages m = {})"

definition identity_2g :: "u64 \<Rightarrow> xlat option" where
  "identity_2g va =
     (if unat (take_bit 48 va) < 2 ^ 31
      then Some \<lparr>xl_phys = take_bit 48 va, xl_write = True, xl_user = False, xl_exec = True\<rparr>
      else None)"

lemma less_2_cases: "(x :: u64) < 2 \<longleftrightarrow> x = 0 \<or> x = 1"
  by (simp add: word_less_nat_alt word_unat_eq_iff) linarith

lemma pdpt_entry:
  assumes "page_aligned a" and "unat a < 2 ^ 52"
  defines "e \<equiv> a OR PF_PRESENT OR PF_WRITABLE"
  shows "child e = a" and "bit e 0" "bit e 1" "\<not> bit e 2" "\<not> bit e 7" "\<not> bit e 63"
proof -
  show "bit e 0" "bit e 1" "\<not> bit e 2" "\<not> bit e 7" "\<not> bit e 63"
    using aligned_low_bits [OF assms(1)] small_high_bits [OF assms(2)]
    by (simp_all add: e_def bit_or_iff bit_flags)
  show "child e = a"
  proof (rule bit_word_eqI)
    fix k assume "k < LENGTH(64)"
    show "bit (child e) k = bit a k"
      using aligned_low_bits [OF assms(1), of k] small_high_bits [OF assms(2), of k]
      by (auto simp: e_def bit_or_iff bit_and_iff bit_flags simp flip: not_less)
  qed
qed

text \<open>The tables \<open>paging_global_init\<close> builds, and the translation they give.\<close>

lemma boot_tables:
  assumes T: "T pml4 = (\<lambda>_. 0)(0 := pdpt OR PF_PRESENT OR PF_WRITABLE)"
      "T pdpt = (\<lambda>_. 0)(0 := 0x83, 1 := 0x40000083)"
    and a: "page_aligned pml4" "page_aligned pdpt" "unat pdpt < 2 ^ 52" "pml4 \<noteq> pdpt"
      "pml4 \<noteq> 0" "pdpt \<noteq> 0"
  shows "tree_ok 3 T pml4" and "tables 3 T pml4 = {pml4, pdpt}" and "hw_walk 3 T pml4 va = identity_2g va"
    and "no_huge 3 T pml4 va \<longleftrightarrow> \<not> unat (take_bit 48 va) < 2 ^ 31"
    and "bit (T pml4 0) 0" and "\<not> bit (T pml4 0) 2"
proof -
  let ?e = "pdpt OR PF_PRESENT OR PF_WRITABLE"
  note e = pdpt_entry(2-) [OF a(2,3)] and c = pdpt_entry(1) [OF a(2,3)]
  have h: "bit (0x83 :: u64) 0" "bit (0x83 :: u64) 1" "\<not> bit (0x83 :: u64) 2" "bit (0x83 :: u64) 7"
    "\<not> bit (0x83 :: u64) 63" "bit (0x40000083 :: u64) 0" "bit (0x40000083 :: u64) 1"
    "\<not> bit (0x40000083 :: u64) 2" "bit (0x40000083 :: u64) 7" "\<not> bit (0x40000083 :: u64) 63"
    by (simp_all add: bit_numeral_rec)
  have nl: "\<not> link (T pdpt j)" for j using h by (simp add: T link_def)
  then have l2: "tables 2 T pdpt = {pdpt}" "tree_ok 2 T pdpt"
    using a by (simp_all add: numeral_2_eq_2)
  have l3: "link (T pml4 j) \<longleftrightarrow> j = 0" for j using e by (simp add: T link_def)
  have s3: "(3::nat) = Suc 2" by simp
  have k: "child (T pml4 0) = pdpt" using c by (simp add: T)
  show "tree_ok 3 T pml4" unfolding s3 tree_ok.simps using l2 l3 a k by auto
  show "tables 3 T pml4 = {pml4, pdpt}" unfolding s3 tables.simps l3 using l2 k by auto
  have f: "0x83 AND PHYS_ADDR_MASK AND NOT (mask 30) = 0"
      "0x40000083 AND PHYS_ADDR_MASK AND NOT (mask 30) = 0x40000000"
    by (simp_all add: PHYS_ADDR_MASK_def mask_eq_exp_minus_1)
  have p: "page_frame 2 0x83 va = \<lparr>xl_phys = take_bit 30 va, xl_write = True, xl_user = False, xl_exec = True\<rparr>"
      "page_frame 2 0x40000083 va =
      \<lparr>xl_phys = 0x40000000 OR take_bit 30 va, xl_write = True, xl_user = False, xl_exec = True\<rparr>"
    using h f by (simp_all add: page_frame_def take_bit_eq_mask)
  note lt2 = less_2_cases [of "va_index 2 va"]
  have w2: "hw_walk 2 T pdpt va = (if va_index 2 va = 0 then Some (page_frame 2 0x83 va)
      else if va_index 2 va = 1 then Some (page_frame 2 0x40000083 va) else None)"
    using h by (simp add: numeral_2_eq_2 T)
  have w: "hw_walk 3 T pml4 va = (if va_index 3 va = 0 then map_option (restrict_by ?e) (hw_walk 2 T pdpt va) else None)"
    using e c unfolding s3 hw_walk.simps by (simp add: T)
  have o: "take_bit 48 va = 0x40000000 OR take_bit 30 va" if "va_index 3 va = 0" "va_index 2 va = 1"
  proof -
    have "bit (0x40000000 :: u64) n \<longleftrightarrow> n = 30" for n
      using bit_exp_iff [of 30 n, where ?'a = u64] by auto
    then have "0x40000000 OR take_bit 30 va = 0x40000000 + take_bit 30 va"
      by (intro disjunctive_add [symmetric]) (auto simp: bit_take_bit_iff)
    then have "unat (0x40000000 OR take_bit 30 va) = 2 ^ 30 + unat (take_bit 30 va)"
      using va_digits(2) [of va] by (simp add: unat_word_ariths)
    then show ?thesis using va_digits(1) [of va] that by (simp add: word_unat_eq_iff)
  qed
  have z: "take_bit 48 va = take_bit 30 va" if "va_index 3 va = 0" "va_index 2 va = 0"
    using va_digits(1) [of va] that by (simp add: word_unat_eq_iff)
  show "hw_walk 3 T pml4 va = identity_2g va"
    unfolding w w2 p identity_2g_def first_2g lt2 using e z o by (auto simp: restrict_by_def)
  have "no_huge 2 T pdpt va \<longleftrightarrow> \<not> va_index 2 va < 2"
    unfolding lt2 using h by (simp add: numeral_2_eq_2 T)
  then show "no_huge 3 T pml4 va \<longleftrightarrow> \<not> unat (take_bit 48 va) < 2 ^ 31"
    unfolding first_2g s3 path_all.simps using e c by (simp add: T Let_def)
  show "bit (T pml4 0) 0" "\<not> bit (T pml4 0) 2" using e by (simp_all add: T)
qed

lemma set_entry_pages [simp]:
  "pool_mapped (set_entry m a v) = pool_mapped m" "single_pages (set_entry m a v) = single_pages m"
  "kernel_paging (set_entry m a v) = kernel_paging m"
  "paging_initialized (set_entry m a v) = paging_initialized m" "cr3 (set_entry m a v) = cr3 m"
  by (simp_all add: set_entry_def pool_mapped_def single_pages_def)

lemma zero_table_pages [simp]:
  "pool_mapped (zero_table m a) = pool_mapped m" "single_pages (zero_table m a) = single_pages m"
  "kernel_paging (zero_table m a) = kernel_paging m"
  "paging_initialized (zero_table m a) = paging_initialized m" "cr3 (zero_table m a) = cr3 m"
  by (simp_all add: zero_table_def pool_mapped_def single_pages_def)

lemma paging_fields [simp]:
  "pool_mapped (m\<lparr>cr3 := c, paging_initialized := b\<rparr>) = pool_mapped m"
  "single_pages (m\<lparr>cr3 := c, paging_initialized := b\<rparr>) = single_pages m"
  "pool_mapped (m\<lparr>kernel_paging := r\<rparr>) = pool_mapped m"
  "single_pages (m\<lparr>kernel_paging := r\<rparr>) = single_pages m"
  by (simp_all add: pool_mapped_def single_pages_def)

lemma paging_init_tables:
  assumes "pool_mapped m" and "2 \<le> card (single_pages m)" and "\<not> paging_initialized m"
  shows "\<exists>m1 r. paging_global_init m = Ret m1 \<and> kernel_paging m1 = Some r \<and> cr3 m1 = r \<and>
    paging_ok m1 \<and> card (single_pages m) = card (single_pages m1) + 2 \<and>
    single_pages m1 \<subseteq> single_pages m \<and> zig_safety m1 = zig_safety m \<and>
    (\<exists>pdpt\<in>single_pages m. r \<in> single_pages m \<and> r \<noteq> pdpt \<and>
       ents (mem m1) = (ents (mem m))(r := (\<lambda>_. 0)(0 := pdpt OR PF_PRESENT OR PF_WRITABLE),
         pdpt := (\<lambda>_. 0)(0 := 0x83, 1 := 0x40000083)))"
proof -
  have "single_pages m \<noteq> {}" using assms(2) by auto
  with assms(1) obtain pml4 m1 where m1: "palloc m 1 = (pml4, m1)" "pml4 \<in> single_pages m"
      "pool_mapped m1" "single_pages m1 = single_pages m - {pml4}" "mem m1 = mem m"
      "zig_safety m1 = zig_safety m"
    using palloc_single by blast
  define m2 where "m2 = (zero_table m1 pml4)\<lparr>kernel_paging := Some pml4\<rparr>"
  have c1: "card (single_pages m) = Suc (card (single_pages m2))"
    using m1 by (simp add: m2_def card_Suc_Diff1 del: card_Diff_insert)
  then have ne2: "single_pages m2 \<noteq> {}" using assms(2) by auto
  have pm2: "pool_mapped m2" using m1 by (simp add: m2_def)
  obtain pdpt m3 where m3: "palloc m2 1 = (pdpt, m3)" "pdpt \<in> single_pages m2"
      "pool_mapped m3" "single_pages m3 = single_pages m2 - {pdpt}" "mem m3 = mem m2"
      "kernel_paging m3 = kernel_paging m2" "zig_safety m3 = zig_safety m2"
    using palloc_single [OF pm2 ne2] by blast
  have c2: "card (single_pages m2) = Suc (card (single_pages m3))"
    using m3 by (simp add: card_Suc_Diff1 del: card_Diff_insert)
  note r1 = single_page [OF assms(1) m1(2)] and r2 = single_page [OF pm2 m3(2)]
  have ne: "pml4 \<noteq> pdpt" using m3(2) m1(4) by (auto simp: m2_def)
  define m7 where "m7 = set_entry (set_entry (set_entry (zero_table m3 pdpt) (entry_addr pdpt 0) 0x83)
      (entry_addr pdpt 1) (0x40000000 OR 0x83)) (entry_addr pml4 0) (pdpt OR PF_PRESENT OR PF_WRITABLE)"
  define m8 where "m8 = m7\<lparr>cr3 := pml4, paging_initialized := True\<rparr>"
  have ret: "paging_global_init m = Ret m8"
    using assms(3) m1(1) m3(1) r1(1) r2(1)
    by (simp add: paging_global_init_def m8_def m7_def m2_def)
  have T: "ents (mem m8) = (ents (mem m))(pml4 := (\<lambda>_. 0)(0 := pdpt OR PF_PRESENT OR PF_WRITABLE),
      pdpt := (\<lambda>_. 0)(0 := 0x83, 1 := 0x40000083))"
    using r1 r2 ne m1(5) m3(5)
    by (simp add: m8_def m7_def ents_set_entry ents_zero_table m2_def fun_upd_twist)
  note b = boot_tables [of "ents (mem m8)" pml4 pdpt]
  have k: "kernel_paging m8 = Some pml4" "cr3 m8 = pml4" "paging_initialized m8"
      "pool_mapped m8" "single_pages m8 = single_pages m3"
      "zig_safety m8 = zig_safety m"
    using m3 m1 by (simp_all add: m8_def m7_def m2_def)
  have "paging_ok m8"
    using b r1 r2 ne T k m3 m1 by (simp add: paging_ok_def) (auto simp: m2_def)
  moreover have "pdpt \<in> single_pages m" "single_pages m8 \<subseteq> single_pages m"
    using m1(4) m3(2,4) k(5) by (auto simp: m2_def)
  ultimately show ?thesis using ret k c1 c2 ne m1(2) T
    by (intro exI [of _ m8] exI [of _ pml4]) auto
qed

lemma boot_views:
  assumes "pool_mapped m" and "pdpt \<in> single_pages m" and "r \<in> single_pages m" and "r \<noteq> pdpt"
    and "ents mm = T(r := (\<lambda>_. 0)(0 := pdpt OR PF_PRESENT OR PF_WRITABLE),
         pdpt := (\<lambda>_. 0)(0 := 0x83, 1 := 0x40000083))"
  shows "hw_walk 3 (ents mm) r va = identity_2g va"
    and "no_huge 3 (ents mm) r va \<longleftrightarrow> \<not> unat (take_bit 48 va) < 2 ^ 31"
    and "bit (ents mm r 0) 0" and "\<not> bit (ents mm r 0) 2"
  using boot_tables [of "ents mm" r pdpt] single_page [OF assms(1,2)] single_page [OF assms(1,3)] assms(4,5)
  by simp_all

text \<open>
  \<open>paging_global_init\<close> with two free pages returns, loads the new PML4 into CR3, and the processor
  then sees the first 2 GB mapped to themselves, writable, executable and not accessible from
  user mode, and nothing else of the 48-bit address space.
\<close>

theorem paging_init_exact:
  assumes "pool_mapped m" and "2 \<le> card (single_pages m)" and "\<not> paging_initialized m"
  shows "\<exists>m1 r. paging_global_init m = Ret m1 \<and> kernel_paging m1 = Some r \<and> cr3 m1 = r \<and>
    paging_ok m1 \<and> card (single_pages m) = card (single_pages m1) + 2 \<and>
    (\<forall>va. translate m1 r va = identity_2g va)"
  using paging_init_tables [OF assms] boot_views(1) [OF assms(1)] unfolding translate_def by metis

definition page_number :: "u64 \<Rightarrow> u64" where
  "page_number va = drop_bit 12 (take_bit 48 va)"

lemma pte_bits:
  defines "e p f \<equiv> (p AND PHYS_ADDR_MASK) OR pte_flags_of f OR PF_PRESENT"
  shows "bit (e p f) 0" and "bit (e p f) 1 \<longleftrightarrow> f AND 1 \<noteq> 0" and "bit (e p f) 2 \<longleftrightarrow> f AND 2 \<noteq> 0"
    and "bit (e p f) 63 \<longleftrightarrow> f AND 4 = 0" and "e p f AND PHYS_ADDR_MASK = p AND PHYS_ADDR_MASK"
proof -
  show "bit (e p f) 0" "bit (e p f) 1 \<longleftrightarrow> f AND 1 \<noteq> 0" "bit (e p f) 2 \<longleftrightarrow> f AND 2 \<noteq> 0"
      "bit (e p f) 63 \<longleftrightarrow> f AND 4 = 0"
    by (simp_all add: e_def pte_flags_of_def bit_or_iff bit_and_iff bit_flags)
  show "e p f AND PHYS_ADDR_MASK = p AND PHYS_ADDR_MASK"
    by (rule bit_word_eqI) (auto simp: e_def pte_flags_of_def bit_or_iff bit_and_iff bit_flags)
qed

lemma page_table_map_effect:
  assumes "paging_ok m" and "kernel_paging m = Some r" and "3 \<le> card (single_pages m)"
    and "no_huge 3 (ents (mem m)) r v" and "invlpg_passes m v"
  shows "\<exists>m1. page_table_map m v p f = Ret (0, m1) \<and> paging_ok m1 \<and>
    map_effect 3 3 m m1 r v ((p AND PHYS_ADDR_MASK) OR pte_flags_of f OR PF_PRESENT)"
proof -
  let ?e = "(p AND PHYS_ADDR_MASK) OR pte_flags_of f OR PF_PRESENT"
  from assms(1,2) have ok: "pool_mapped m" "paging_initialized m" "tree_ok 3 (ents (mem m)) r"
      "tables 3 (ents (mem m)) r \<inter> single_pages m = {}"
    by (simp_all add: paging_ok_def)
  from map_from_effect [OF ok(1) assms(3) ok(3,4) assms(4) pte_bits(1) assms(5)]
  obtain m1 where m1: "map_from 3 m r v ?e = Ret (True, m1)" "map_effect 3 3 m m1 r v ?e" by blast
  have "page_table_map m v p f = Ret (0, m1)"
    using ok(2) assms(2) m1(1) by (simp add: page_table_map_def pg_map_levels)
  moreover have "paging_ok m1"
    using m1(2) ok assms(2) by (auto simp: map_effect_def Let_def paging_ok_def taken_def)
  ultimately show ?thesis using m1(2) by blast
qed

lemma map_effect_translate:
  "map_effect k 3 m m1 r v e \<Longrightarrow> translate m1 r va =
     (if page_number va = page_number v then Some (mapped 3 (ents (mem m)) r v e va)
      else translate m r va)"
  by (simp add: map_effect_def Let_def translate_def same_page_number page_number_def)

lemmas map_effect_keeps = map_effect_def [THEN iffD1, unfolded Let_def]


text \<open>
  \<open>page_table_unmap\<close> on an address that no huge page covers removes the translation of its page,
  keeps every other and frees no table.
\<close>

theorem page_table_unmap_exact:
  assumes "paging_ok m" and "kernel_paging m = Some r" and "no_huge 3 (ents (mem m)) r v"
    and "invlpg_passes m v"
  shows "\<exists>m1. page_table_unmap m v = Ret m1 \<and> paging_ok m1 \<and> kernel_paging m1 = Some r \<and>
    single_pages m1 = single_pages m \<and>
    (\<forall>va. no_huge 3 (ents (mem m1)) r va = no_huge 3 (ents (mem m)) r va) \<and>
    (\<forall>va. translate m1 r va =
       (if page_number va = page_number v then None else translate m r va))"
proof -
  from assms(1,2) have ok: "pool_mapped m" "paging_initialized m" "tree_ok 3 (ents (mem m)) r"
      "tables 3 (ents (mem m)) r \<inter> single_pages m = {}"
    by (simp_all add: paging_ok_def)
  from unmap_from_effect [OF ok(3) assms(3,4), unfolded Let_def] obtain f where
    f: "unmap_from 3 m r v = Ret (m\<lparr>mem := f\<rparr>)" and eff: "tree_ok 3 (ents f) r"
      "tables 3 (ents f) r \<subseteq> tables 3 (ents (mem m)) r"
      "\<And>va. no_huge 3 (ents f) r va = no_huge 3 (ents (mem m)) r va"
      "\<And>va. hw_walk 3 (ents f) r va = (if same_page 3 v va then None else hw_walk 3 (ents (mem m)) r va)"
    by blast
  have "page_table_unmap m v = Ret (m\<lparr>mem := f\<rparr>)"
    using ok(2) assms(2) f by (simp add: page_table_unmap_def pg_unmap_levels)
  moreover have s: "single_pages (m\<lparr>mem := f\<rparr>) = single_pages m" "pool_mapped (m\<lparr>mem := f\<rparr>)"
    using ok(1) by (simp_all add: single_pages_def pool_mapped_def)
  moreover have "paging_ok (m\<lparr>mem := f\<rparr>)"
    using eff ok assms(2) s by (auto simp: paging_ok_def)
  moreover have "translate (m\<lparr>mem := f\<rparr>) r va =
      (if page_number va = page_number v then None else translate m r va)" for va
    using eff by (simp add: translate_def same_page_number page_number_def)
  ultimately show ?thesis using eff assms(2) by (intro exI [of _ "m\<lparr>mem := f\<rparr>"]) simp
qed

section \<open>Runs of pages\<close>

text \<open>
  What the loops over pages rely on: a store of page translations with room for some tables.
\<close>

locale page_mapper =
  fixes inv :: "'s \<Rightarrow> bool" and room :: "'s \<Rightarrow> nat" and usable :: "'s \<Rightarrow> u64 \<Rightarrow> bool"
    and lookup :: "'s \<Rightarrow> u64 \<Rightarrow> u64 option"
    and put :: "'s \<Rightarrow> u64 \<Rightarrow> u64 \<Rightarrow> u32 \<Rightarrow> (i32 \<times> 's) outcome"
  assumes put: "inv s \<Longrightarrow> 3 \<le> room s \<Longrightarrow> usable s v \<Longrightarrow> page_aligned v \<Longrightarrow> v \<noteq> 0 \<Longrightarrow>
    \<exists>s1. put s v p f = Ret (0, s1) \<and> inv s1 \<and> room s \<le> room s1 + 3 \<and> usable s1 = usable s \<and>
      (\<forall>va. lookup s1 va =
         (if page_number va = page_number v then Some ((p AND PHYS_ADDR_MASK) OR (va AND 0xFFF))
          else lookup s va))"
begin

lemma put_run:
  assumes "inv s" and "3 * n \<le> room s" and "\<And>i. i < n \<Longrightarrow> usable s (v + of_nat i * 4096)"
    and "\<And>i. i < n \<Longrightarrow> page_aligned (v + of_nat i * 4096) \<and> v + of_nat i * 4096 \<noteq> 0"
    and "inj_on (\<lambda>i. page_number (v + of_nat i * 4096)) {..<n}"
  shows "\<exists>s1. ofold (\<lambda>i s. obind (put s (v + of_nat i * 4096) (p + of_nat i * 4096) f) (\<lambda>(_, s1). Ret s1))
      [0..<n] s = Ret s1 \<and> inv s1 \<and> room s \<le> room s1 + 3 * n \<and>
    usable s1 = usable s \<and>
    (\<forall>i<n. \<forall>va. page_number va = page_number (v + of_nat i * 4096) \<longrightarrow>
       lookup s1 va = Some (((p + of_nat i * 4096) AND PHYS_ADDR_MASK) OR (va AND 0xFFF))) \<and>
    (\<forall>va. page_number va \<notin> (\<lambda>i. page_number (v + of_nat i * 4096)) ` {..<n} \<longrightarrow>
       lookup s1 va = lookup s va)"
  using assms
proof (induction n)
  case (Suc n)
  let ?f = "(\<lambda>i s. obind (put s (v + of_nat i * 4096) (p + of_nat i * 4096) f) (\<lambda>(_, s1). Ret s1))"
  from Suc obtain s1 where s1: "ofold ?f [0..<n] s = Ret s1" "inv s1"
      "room s \<le> room s1 + 3 * n" "usable s1 = usable s"
      "\<And>i va. i < n \<Longrightarrow> page_number va = page_number (v + of_nat i * 4096) \<Longrightarrow>
         lookup s1 va = Some (((p + of_nat i * 4096) AND PHYS_ADDR_MASK) OR (va AND 0xFFF))"
      "\<And>va. page_number va \<notin> (\<lambda>i. page_number (v + of_nat i * 4096)) ` {..<n} \<Longrightarrow>
         lookup s1 va = lookup s va"
    by (auto simp: lessThan_Suc)
  have "3 \<le> room s1" using s1(3) Suc.prems(2) by simp
  moreover have "usable s1 (v + of_nat n * 4096)" using s1(4) Suc.prems(3) by simp
  ultimately obtain s2 where s2: "put s1 (v + of_nat n * 4096) (p + of_nat n * 4096) f = Ret (0, s2)"
      "inv s2" "room s1 \<le> room s2 + 3" "usable s2 = usable s1"
      "\<And>va. lookup s2 va = (if page_number va = page_number (v + of_nat n * 4096)
         then Some (((p + of_nat n * 4096) AND PHYS_ADDR_MASK) OR (va AND 0xFFF)) else lookup s1 va)"
    using put [OF s1(2), of "v + of_nat n * 4096" "p + of_nat n * 4096" f] Suc.prems(4) by auto
  have "ofold ?f [0..<Suc n] s = Ret s2"
    using s1(1) s2(1) by (simp add: ofold_append)
  moreover have "page_number (v + of_nat i * 4096) \<noteq> page_number (v + of_nat n * 4096)" if "i < n" for i
    using Suc.prems(5) that unfolding inj_on_def by fastforce
  then have "lookup s2 va = Some (((p + of_nat i * 4096) AND PHYS_ADDR_MASK) OR (va AND 0xFFF))"
    if "i < Suc n" "page_number va = page_number (v + of_nat i * 4096)" for i va
    using that s1(5) [of i va] s2(5) [of va] by (cases "i = n") auto
  moreover have "lookup s2 va = lookup s va"
    if "page_number va \<notin> (\<lambda>i. page_number (v + of_nat i * 4096)) ` {..<Suc n}" for va
    using that s1(6) [of va] s2(5) [of va] by (auto simp: lessThan_Suc)
  ultimately show ?case using s2 s1(3,4) by (intro exI [of _ s2]) auto
qed simp

end
lemma page_number_add:
  assumes "unat v + n * 4096 \<le> 2 ^ 48" and "page_aligned v" and "k < n * 4096"
  shows "unat (v + of_nat k) = unat v + k"
    and "unat (page_number (v + of_nat k)) = unat v div 4096 + k div 4096"
proof -
  show eq: "unat (v + of_nat k) = unat v + k"
    using assms(1,3) by (simp add: unat_word_ariths unat_of_nat take_bit_eq_mod)
  obtain q where q: "unat v = 4096 * q" using assms(2) by (auto simp: aligned_mod)
  have "unat (page_number (v + of_nat k)) = (unat v + k) mod 2 ^ 48 div 4096"
    unfolding page_number_def unat_drop_bit_eq unsigned_take_bit_eq
    using eq by (simp add: take_bit_eq_mod drop_bit_eq_div)
  then show "unat (page_number (v + of_nat k)) = unat v div 4096 + k div 4096"
    using assms(1,3) q by simp
qed

lemma phys_byte:
  assumes "page_aligned p" and "unat p + n * 4096 \<le> 2 ^ 52" and "page_aligned v"
    and "unat v + n * 4096 \<le> 2 ^ 48" and "k < n * 4096"
  shows "((p + of_nat (k div 4096) * 4096) AND PHYS_ADDR_MASK) OR ((v + of_nat k) AND 0xFFF) = p + of_nat k"
proof -
  let ?b = "p + of_nat (k div 4096) * 4096"
  have le: "k div 4096 * 4096 \<le> k" by simp
  then have lt: "unat p + k div 4096 * 4096 < 2 ^ 52" using assms(2,5) by linarith
  then have b: "unat ?b = unat p + k div 4096 * 4096"
    by (simp add: unat_word_ariths unat_of_nat take_bit_eq_mod mod_simps)
  have al: "page_aligned ?b" unfolding aligned_mod b using assms(1) by (simp add: aligned_mod)
  have m: "?b AND PHYS_ADDR_MASK = ?b"
  proof (rule bit_word_eqI)
    fix i show "bit (?b AND PHYS_ADDR_MASK) i = bit ?b i"
      using aligned_low_bits [OF al, of i] small_high_bits [of ?b i] lt b
      by (auto simp: bit_and_iff bit_phys_mask simp flip: not_less)
  qed
  have "0xFFF = (mask 12 :: u64)" by (simp add: mask_eq_exp_minus_1)
  then have low: "x AND 0xFFF = take_bit 12 x" for x :: u64 by (simp add: take_bit_eq_mask)
  have off: "unat ((v + of_nat k) AND 0xFFF) = k mod 4096"
  proof -
    have "unat ((v + of_nat k) AND 0xFFF) = (unat v + k) mod 4096"
      unfolding low unsigned_take_bit_eq page_number_add(1) [OF assms(4,3,5)] by (simp add: take_bit_eq_mod)
    moreover have "4096 dvd unat v" using assms(3) by (auto simp: aligned_mod)
    ultimately show ?thesis by (metis dvd_imp_mod_0 add_0 mod_add_left_eq)
  qed
  have "?b OR ((v + of_nat k) AND 0xFFF) = ?b + ((v + of_nat k) AND 0xFFF)"
    using aligned_low_bits [OF al]
    by (intro disjunctive_add [symmetric]) (auto simp: low bit_take_bit_iff)
  moreover have "unat (?b + ((v + of_nat k) AND 0xFFF)) = unat p + k"
    using b off assms(2,5) by (simp add: unat_word_ariths)
  moreover have "unat (p + of_nat k) = unat p + k"
    using assms(2,5) by (simp add: unat_word_ariths unat_of_nat take_bit_eq_mod)
  ultimately show ?thesis unfolding m by (simp add: word_unat_eq_iff)
qed

abbreviation kernel_phys :: "machine \<Rightarrow> u64 \<Rightarrow> u64 option" where
  "kernel_phys m va \<equiv> map_option xl_phys (translate m (the (kernel_paging m)) va)"

interpretation kernel_map: page_mapper paging_ok "\<lambda>m. card (single_pages m)"
    "\<lambda>m. no_huge 3 (ents (mem m)) (the (kernel_paging m))" kernel_phys page_table_map
proof unfold_locales
  fix m v p f
  assume ok: "paging_ok m" and room: "3 \<le> card (single_pages m)"
    and nh: "no_huge 3 (ents (mem m)) (the (kernel_paging m)) v"
    and al: "page_aligned v" "v \<noteq> 0"
  from ok obtain r where r: "kernel_paging m = Some r" by (auto simp: paging_ok_def split: option.splits)
  let ?e = "(p AND PHYS_ADDR_MASK) OR pte_flags_of f OR PF_PRESENT"
  from page_table_map_effect [OF ok r room _ aligned_passes [OF al], of p f] nh r
  obtain m1 where m1: "page_table_map m v p f = Ret (0, m1)" "paging_ok m1" "map_effect 3 3 m m1 r v ?e"
    by auto
  note k = map_effect_keeps [OF m1(3)]
  have r1: "kernel_paging m1 = Some r" using k r by simp
  show "\<exists>m1. page_table_map m v p f = Ret (0, m1) \<and> paging_ok m1 \<and>
      card (single_pages m) \<le> card (single_pages m1) + 3 \<and>
      no_huge 3 (ents (mem m1)) (the (kernel_paging m1)) = no_huge 3 (ents (mem m)) (the (kernel_paging m)) \<and>
      (\<forall>va. kernel_phys m1 va =
        (if page_number va = page_number v then Some ((p AND PHYS_ADDR_MASK) OR (va AND 0xFFF))
         else kernel_phys m va))"
    using m1 k r r1 pte_bits(5) [of p f]
    by (intro exI [of _ m1]) (simp add: fun_eq_iff map_effect_translate [OF m1(3)] mapped_def)
qed

text \<open>
  \<open>map_pages\<close>, the loop of the Rust callers, over \<open>n\<close> pages of which none lies in a huge page: the
  loop returns, byte \<open>k\<close> of the virtual range translates to byte \<open>k\<close> of the physical range, and
  addresses on other pages keep their translation.
\<close>

theorem map_pages_exact:
  assumes "paging_ok m" and "3 * n \<le> card (single_pages m)"
    and "page_aligned v" and "unat v + n * 4096 \<le> 2 ^ 48" and "v \<noteq> 0"
    and "page_aligned p" and "unat p + n * 4096 \<le> 2 ^ 52"
    and "\<And>i. i < n \<Longrightarrow> no_huge 3 (ents (mem m)) (the (kernel_paging m)) (v + of_nat i * 4096)"
  shows "\<exists>m1. map_pages v p f n m = Ret m1 \<and> paging_ok m1 \<and>
    (\<forall>k<n * 4096. kernel_phys m1 (v + of_nat k) = Some (p + of_nat k)) \<and>
    (\<forall>va. (\<forall>i<n. page_number va \<noteq> page_number (v + of_nat i * 4096)) \<longrightarrow>
       kernel_phys m1 va = kernel_phys m va)"
proof -
  have num: "unat (page_number (v + of_nat k)) = unat v div 4096 + k div 4096" if "k < n * 4096" for k
    using page_number_add(2) [OF assms(4,3) that] .
  have num': "unat (page_number (v + of_nat i * 4096)) = unat v div 4096 + i" if "i < n" for i
    using num [of "i * 4096"] that by simp
  have al: "page_aligned (v + of_nat i * 4096) \<and> v + of_nat i * 4096 \<noteq> 0" if "i < n" for i
  proof -
    have u: "unat (v + of_nat i * 4096) = unat v + i * 4096"
      using page_number_add(1) [OF assms(4,3), of "i * 4096"] that by simp
    have "unat v \<noteq> 0" using assms(5) by (simp add: unat_eq_zero)
    then have "unat (v + of_nat i * 4096) \<noteq> 0" using u by simp
    moreover have "page_aligned (v + of_nat i * 4096)" unfolding aligned_mod u using assms(3) by (simp add: aligned_mod)
    ultimately show ?thesis by (metis unat_0)
  qed
  have inj: "inj_on (\<lambda>i. page_number (v + of_nat i * 4096)) {..<n}"
    by (rule inj_onI) (metis num' add_left_cancel lessThan_iff)
  from kernel_map.put_run [OF assms(1,2,8) al inj, where p = p and f = f]
  obtain m1 where m1: "map_pages v p f n m = Ret m1" "paging_ok m1"
      "\<And>i va. i < n \<Longrightarrow> page_number va = page_number (v + of_nat i * 4096) \<Longrightarrow>
        kernel_phys m1 va = Some (((p + of_nat i * 4096) AND PHYS_ADDR_MASK) OR (va AND 0xFFF))"
      "\<And>va. page_number va \<notin> (\<lambda>i. page_number (v + of_nat i * 4096)) ` {..<n} \<Longrightarrow>
        kernel_phys m1 va = kernel_phys m va"
    unfolding map_pages_def by blast
  have "kernel_phys m1 (v + of_nat k) = Some (p + of_nat k)" if "k < n * 4096" for k
  proof -
    have i: "k div 4096 < n" using that by (simp add: less_mult_imp_div_less)
    have "page_number (v + of_nat k) = page_number (v + of_nat (k div 4096) * 4096)"
      using num [OF that] num' [OF i] by (simp add: word_unat_eq_iff)
    from m1(3) [OF i this] phys_byte [OF assms(6,7,3,4) that] show ?thesis by simp
  qed
  moreover have "kernel_phys m1 va = kernel_phys m va"
    if "\<forall>i<n. page_number va \<noteq> page_number (v + of_nat i * 4096)" for va
    using that by (intro m1(4)) auto
  ultimately show ?thesis using m1(1,2) by blast
qed

section \<open>Addresses in huge pages\<close>

text \<open>
  \<open>ensure_table\<close> does not look at the page-size bit. Below an entry that maps a huge page it takes
  the physical memory at the start of that page for a table, writes into it, and leaves the tables
  the processor walks alone.
\<close>

lemma map_in_huge_page:
  fixes m :: machine
  defines "T \<equiv> ents (mem m)"
  assumes ok: "paging_ok m" "kernel_paging m = Some r" "single_pages m \<noteq> {}"
    and l3: "link (T r (va_index 3 v))" and c: "c = child (T r (va_index 3 v))"
    and e2: "bit (T c (va_index 2 v)) 0" and B: "B = child (T c (va_index 2 v))"
    and out: "B \<notin> tables 3 T r" "B \<notin> single_pages m" and free: "\<not> bit (T B (va_index 1 v)) 0"
    and checks: "B \<noteq> 0 \<or> \<not> zig_safety m" "invlpg_passes m v"
  shows "\<exists>m1 raw. page_table_map m v p f = Ret (0, m1) \<and> kernel_paging m1 = Some r \<and> cr3 m1 = cr3 m \<and>
    (\<forall>va. translate m1 r va = translate m r va) \<and>
    ents (mem m1) B (va_index 1 v) = raw OR PF_PRESENT OR PF_WRITABLE OR PF_USER"
proof -
  from ok(1,2) have inv: "pool_mapped m" "paging_initialized m" "tree_ok 3 T r"
      "tables 3 T r \<inter> single_pages m = {}"
    by (simp_all add: paging_ok_def T_def)
  have al: "page_aligned r" "page_aligned c" "page_aligned B"
    using tree_ok_aligned [OF inv(3)] by (simp_all add: c B)
  obtain raw m1 where m1: "palloc m 1 = (raw, m1)" "raw \<in> single_pages m" "mem m1 = mem m"
      "kernel_paging m1 = kernel_paging m" "paging_initialized m1 = paging_initialized m" "cr3 m1 = cr3 m"
      "zig_safety m1 = zig_safety m"
    using palloc_single [OF inv(1) ok(3)] by blast
  note r = single_page [OF inv(1) m1(2)]
  let ?e0 = "raw OR PF_PRESENT OR PF_WRITABLE OR PF_USER"
  define m2 where "m2 = set_entry (zero_table m1 raw) (entry_addr B (va_index 1 v)) ?e0"
  define m3 where "m3 = set_entry m2 (entry_addr raw (va_index 0 v))
      ((p AND PHYS_ADDR_MASK) OR pte_flags_of f OR PF_PRESENT)"
  have rd: "read_u64 (mem m) (entry_addr t i) = T t i" if "page_aligned t" "i < 512" for t i
    using that by (simp add: T_def ents_def)
  have "tree_ok 2 T c" using inv(3) l3 c by (simp add: numeral_3_eq_3 numeral_2_eq_2)
  then have "c \<noteq> 0" by (rule tree_ok_nonzero)
  then have "ensure_table m (entry_addr r (va_index 3 v)) = Ret (Some c, m)"
    using l3 al by (simp add: ensure_table_def rd present_iff link_def c table_ptr_def)
  moreover have "ensure_table m (entry_addr c (va_index 2 v)) = Ret (Some B, m)"
    using e2 al checks(1) B by (auto simp: ensure_table_def rd present_iff table_ptr_def Let_def)
  moreover have "ensure_table m (entry_addr B (va_index 1 v)) = Ret (Some raw, m2)"
    using free al r m1(1) by (simp add: ensure_table_def rd present_iff m2_def)
  moreover have "invlpg m3 v = Ret m3"
    using checks(2) m1(7) by (simp add: invlpg_def invlpg_passes_def m3_def m2_def)
  ultimately have ret: "page_table_map m v p f = Ret (0, m3)"
    using inv(2) ok(2) by (simp add: page_table_map_def pg_map_def va_split_index m3_def [symmetric])
  have rB: "raw \<noteq> B" using out(2) m1(2) by blast
  have T3: "ents (mem m3) u = T u" if "u \<noteq> raw" "u \<noteq> B" for u
    using that al r m1(3) by (simp add: m3_def m2_def ents_set_entry ents_zero_table T_def)
  have "u \<noteq> raw \<and> u \<noteq> B" if "u \<in> tables 3 T r" for u using that inv(4) m1(2) out(1) by blast
  then have "translate m3 r va = translate m r va" for va
    unfolding translate_def T_def [symmetric] by (intro hw_walk_frame T3) auto
  moreover have "ents (mem m3) B (va_index 1 v) = ?e0"
    using al r rB by (simp add: m3_def m2_def ents_set_entry ents_zero_table)
  moreover have "kernel_paging m3 = Some r" "cr3 m3 = cr3 m" using m1 ok(2) by (simp_all add: m3_def m2_def)
  ultimately show ?thesis using ret by blast
qed

text \<open>
  A page below 2 GB mapped right after \<open>paging_global_init\<close>, where the kernel puts every process
  image and every allocation (with the runtime checks, a page of the second GB): the call reports
  success, the processor still translates every address as the identity mapping does, and the word
  at index \<open>va_index 1 v\<close> of the physical page at 0 (or at 1 GB) has been overwritten.
\<close>

theorem low_mapping_lost:
  assumes "pool_mapped m" and "3 \<le> card (single_pages m)" and "\<not> paging_initialized m"
    and "unat (pool_base (phys m)) + MEMORY_SIZE \<le> 2 ^ 30"
    and "unat (take_bit 48 v) < 2 ^ 31" and "B = (if va_index 2 v = 0 then 0 else 0x40000000)"
    and "read_u64 (mem m) (entry_addr B (va_index 1 v)) = 0"
    and "zig_safety m \<longrightarrow> 2 ^ 30 \<le> unat (take_bit 48 v) \<and> page_aligned v"
  shows "\<exists>m0 m1 r. paging_global_init m = Ret m0 \<and> page_table_map m0 v p f = Ret (0, m1) \<and>
    kernel_paging m1 = Some r \<and> cr3 m1 = r \<and> (\<forall>va. translate m1 r va = identity_2g va) \<and>
    read_u64 (mem m1) (entry_addr B (va_index 1 v)) \<noteq> 0"
proof -
  from paging_init_tables [OF assms(1) _ assms(3)] assms(2)
  obtain m0 r pdpt where m0: "paging_global_init m = Ret m0" "kernel_paging m0 = Some r" "cr3 m0 = r"
      "paging_ok m0" "card (single_pages m) = card (single_pages m0) + 2"
      "single_pages m0 \<subseteq> single_pages m" "pdpt \<in> single_pages m" "r \<in> single_pages m" "r \<noteq> pdpt"
      "ents (mem m0) = (ents (mem m))(r := (\<lambda>_. 0)(0 := pdpt OR PF_PRESENT OR PF_WRITABLE),
         pdpt := (\<lambda>_. 0)(0 := 0x83, 1 := 0x40000083))" "zig_safety m0 = zig_safety m" by auto
  have checks: "B \<noteq> 0 \<or> \<not> zig_safety m0" "invlpg_passes m0 v"
  proof -
    have z: "va_index 2 v \<noteq> 0" if "2 ^ 30 \<le> unat (take_bit 48 v)"
      using that va_digits [of v] assms(5) first_2g [of v] by auto
    then show "B \<noteq> 0 \<or> \<not> zig_safety m0" using assms(6,8) m0(11) by auto
    have "v \<noteq> 0" if "2 ^ 30 \<le> unat (take_bit 48 v)" using that by auto
    then show "invlpg_passes m0 v"
      using aligned_passes [of v m0] assms(8) m0(11) by (auto simp: invlpg_passes_def)
  qed
  let ?T = "ents (mem m0)"
  note sp = single_page [OF assms(1) m0(7)] single_page [OF assms(1) m0(8)]
  note bt = boot_tables [of ?T r pdpt]
  have i: "va_index 3 v = 0" "va_index 2 v = 0 \<or> va_index 2 v = 1"
    using assms(5) unfolding first_2g less_2_cases by auto
  have e2: "bit (?T pdpt (va_index 2 v)) 0" "child (?T pdpt (va_index 2 v)) = B"
    using i(2) assms(6) by (auto simp: m0(10) bit_numeral_rec PHYS_ADDR_MASK_def)
  have c: "child (?T r (va_index 3 v)) = pdpt" "link (?T r (va_index 3 v))"
    using pdpt_entry [OF sp(2,3)] m0(9) i(1) by (simp_all add: m0(10) link_def)
  have notpool: "B \<notin> single_pages m"
    using single_page(1) [OF assms(1), of B] single_page_range [OF assms(1), of B] assms(4,6) by auto
  have tab: "tables 3 ?T r = {r, pdpt}" using bt sp m0 by simp
  have "B \<noteq> r" "B \<noteq> pdpt" using notpool m0(7,8) by auto
  then have "?T B (va_index 1 v) = 0" using assms(7) by (simp add: m0(10) ents_def)
  then have free: "\<not> bit (?T B (va_index 1 v)) 0" by simp
  have out: "B \<notin> tables 3 ?T r" "B \<notin> single_pages m0"
    using tab \<open>B \<noteq> r\<close> \<open>B \<noteq> pdpt\<close> notpool m0(6) by auto
  have "single_pages m0 \<noteq> {}" using m0(5) assms(2) by auto
  from map_in_huge_page [OF m0(4,2) this c(2) c(1) [symmetric] e2(1) e2(2) [symmetric] out free checks, of p f]
  obtain m1 raw where m1: "page_table_map m0 v p f = Ret (0, m1)" "kernel_paging m1 = Some r" "cr3 m1 = cr3 m0"
     "\<And>va. translate m1 r va = translate m0 r va"
     "ents (mem m1) B (va_index 1 v) = raw OR PF_PRESENT OR PF_WRITABLE OR PF_USER"
    by blast
  have "bit (raw OR PF_PRESENT OR PF_WRITABLE OR PF_USER) 0" by (simp add: bit_or_iff bit_flags)
  then have "ents (mem m1) B (va_index 1 v) \<noteq> 0" unfolding m1(5) by (metis bit_0_eq bot_apply bot_bool_def)
  then have "read_u64 (mem m1) (entry_addr B (va_index 1 v)) \<noteq> 0" by (simp add: ents_def split: if_splits)
  moreover have "translate m1 r va = identity_2g va" for va
    using m1(4) boot_views(1) [OF assms(1) m0(7-10)] by (simp add: translate_def)
  ultimately show ?thesis using m0(1,3) m1(1-3) by auto
qed

text \<open>
  With the runtime checks the first GB is worse: the table \<open>ensure_table\<close> takes from the huge page
  is at address 0, and the cast to a pointer panics. \<open>null_low\<close> describes the page tables for
  which this happens.
\<close>

definition null_low :: "machine \<Rightarrow> bool" where
  "null_low m \<longleftrightarrow> zig_safety m \<and> paging_initialized m \<and>
     (case kernel_paging m of None \<Rightarrow> False
      | Some r \<Rightarrow> page_aligned r \<and> bit (ents (mem m) r 0) 0 \<and> child (ents (mem m) r 0) \<noteq> 0 \<and>
          bit (ents (mem m) (child (ents (mem m) r 0)) 0) 0 \<and>
          child (ents (mem m) (child (ents (mem m) r 0)) 0) = 0)"

lemma first_gb: "unat (take_bit 48 v) < 2 ^ 30 \<Longrightarrow> va_index 3 v = 0 \<and> va_index 2 v = 0"
proof -
  assume "unat (take_bit 48 v) < 2 ^ 30"
  then have "unat (va_index 3 v) = 0" "unat (va_index 2 v) = 0" using va_digits [of v] by auto
  then show ?thesis by (simp add: unat_eq_zero)
qed

lemma null_low_panics:
  assumes "null_low m" and "unat (take_bit 48 v) < 2 ^ 30"
  shows "page_table_map m v p f = Panic" and "page_table_unmap m v = Panic"
proof -
  from assms(1) obtain r where r: "kernel_paging m = Some r" "page_aligned r" "zig_safety m" "paging_initialized m"
      "bit (ents (mem m) r 0) 0" "child (ents (mem m) r 0) \<noteq> 0"
      "bit (ents (mem m) (child (ents (mem m) r 0)) 0) 0"
      "child (ents (mem m) (child (ents (mem m) r 0)) 0) = 0"
    by (auto simp: null_low_def split: option.splits)
  define c where "c = child (ents (mem m) r 0)"
  have rd: "read_u64 (mem m) (entry_addr r 0) = ents (mem m) r 0"
      "read_u64 (mem m) (entry_addr c 0) = ents (mem m) c 0"
    using r(2) by (simp_all add: ents_def c_def)
  note ix = first_gb [OF assms(2)]
  have "ensure_table m (entry_addr r 0) = Ret (Some c, m)"
    using r by (simp add: ensure_table_def rd present_iff table_ptr_def c_def)
  moreover have "ensure_table m (entry_addr c 0) = Panic"
    using r by (simp add: ensure_table_def rd present_iff table_ptr_def flip: c_def)
  ultimately show "page_table_map m v p f = Panic"
    using r(1,4) ix by (simp add: page_table_map_def pg_map_def va_split_index)
  show "page_table_unmap m v = Panic"
    using r ix rd by (simp add: page_table_unmap_def pg_unmap_def va_split_index present_iff table_ptr_def Let_def
        flip: c_def)
qed

lemma null_low_boot:
  assumes "pool_mapped m" and "2 \<le> card (single_pages m)" and "\<not> paging_initialized m" and "zig_safety m"
  shows "\<exists>m0. paging_global_init m = Ret m0 \<and> null_low m0 \<and> paging_ok m0"
proof -
  from paging_init_tables [OF assms(1-3)]
  obtain m0 r pdpt where m0: "paging_global_init m = Ret m0" "kernel_paging m0 = Some r"
      "paging_ok m0" and t: "pdpt \<in> single_pages m" "r \<in> single_pages m" "r \<noteq> pdpt"
      "ents (mem m0) = (ents (mem m))(r := (\<lambda>_. 0)(0 := pdpt OR PF_PRESENT OR PF_WRITABLE),
         pdpt := (\<lambda>_. 0)(0 := 0x83, 1 := 0x40000083))" and z: "zig_safety m0" using assms(4) by auto
  note sp = single_page [OF assms(1) t(1)] single_page [OF assms(1) t(2)]
  note e = pdpt_entry [OF sp(2,3)]
  have "null_low m0"
    using m0(2,3) t(3) z e sp by (simp add: null_low_def paging_ok_def t(4) bit_numeral_rec PHYS_ADDR_MASK_def)
  with m0 show ?thesis by blast
qed

text \<open>
  In the build with runtime checks, which is the one the scripts make, every call of
  \<open>page_table_map\<close> and \<open>page_table_unmap\<close> for an address below 1 GB after boot panics.
\<close>

theorem low_mapping_panics:
  assumes "pool_mapped m" and "2 \<le> card (single_pages m)" and "\<not> paging_initialized m" and "zig_safety m"
    and "unat (take_bit 48 v) < 2 ^ 30"
  shows "\<exists>m0. paging_global_init m = Ret m0 \<and> page_table_map m0 v p f = Panic \<and> page_table_unmap m0 v = Panic"
  using null_low_boot [OF assms(1-4)] null_low_panics [OF _ assms(5)] by blast

section \<open>User mode\<close>

text \<open>
  Entry 0 of the kernel's PML4 has no user bit, and \<open>ensure_table\<close> never changes a present entry.
\<close>

definition supervisor_low :: "machine \<Rightarrow> bool" where
  "supervisor_low m \<longleftrightarrow> paging_ok m \<and>
     (case kernel_paging m of None \<Rightarrow> False
      | Some r \<Rightarrow> bit (ents (mem m) r 0) 0 \<and> \<not> bit (ents (mem m) r 0) 2)"

lemma walk_user: "hw_walk (Suc n) T t va = Some x \<Longrightarrow> xl_user x \<Longrightarrow> bit (T t (va_index (Suc n) va)) 2"
  by (auto simp: Let_def page_frame_def restrict_by_def split: if_splits)

lemma supervisor_low_refuses:
  assumes "supervisor_low m" and "kernel_paging m = Some r" and "va_index 3 va = 0"
    and "translate m r va = Some x"
  shows "\<not> xl_user x"
  using walk_user [of 2 "ents (mem m)" r va x] assms
  by (auto simp: supervisor_low_def translate_def)

lemma supervisor_low_map:
  assumes "supervisor_low m" and "kernel_paging m = Some r" and "3 \<le> card (single_pages m)"
    and "no_huge 3 (ents (mem m)) r v" and "page_aligned v" and "v \<noteq> 0"
  shows "\<exists>m1. page_table_map m v p f = Ret (0, m1) \<and> supervisor_low m1 \<and> kernel_paging m1 = Some r \<and>
    card (single_pages m) \<le> card (single_pages m1) + 3 \<and>
    (\<forall>va. no_huge 3 (ents (mem m1)) r va = no_huge 3 (ents (mem m)) r va)"
proof -
  have ok: "paging_ok m" and b: "bit (ents (mem m) r 0) 0" "\<not> bit (ents (mem m) r 0) 2"
    using assms(1,2) by (simp_all add: supervisor_low_def)
  from page_table_map_effect [OF ok assms(2-4) aligned_passes [OF assms(5,6)], of p f]
  obtain m1 where m1: "page_table_map m v p f = Ret (0, m1)" "paging_ok m1"
      "map_effect 3 3 m m1 r v ((p AND PHYS_ADDR_MASK) OR pte_flags_of f OR PF_PRESENT)" by blast
  note k = map_effect_keeps [OF m1(3)]
  have "kernel_paging m1 = Some r" "ents (mem m1) r 0 = ents (mem m) r 0" using k assms(2) b(1) by auto
  then have "supervisor_low m1" using m1(2) b by (simp add: supervisor_low_def)
  with m1(1) k assms(2) show ?thesis by (intro exI [of _ m1]) simp
qed

text \<open>The mappings of a list of requests, one call of \<open>page_table_map\<close> each.\<close>

definition map_all :: "(usize \<times> usize \<times> u32) list \<Rightarrow> machine \<Rightarrow> machine outcome" where
  "map_all = ofold (\<lambda>(v, p, f) m. obind (page_table_map m v p f) (\<lambda>(_, m1). Ret m1))"

lemma map_all_supervisor:
  assumes "supervisor_low m" and "kernel_paging m = Some r" and "3 * length ms \<le> card (single_pages m)"
    and "\<And>v p f. (v, p, f) \<in> set ms \<Longrightarrow> no_huge 3 (ents (mem m)) r v \<and> page_aligned v \<and> v \<noteq> 0"
  shows "\<exists>m1. map_all ms m = Ret m1 \<and> supervisor_low m1 \<and> kernel_paging m1 = Some r"
  using assms
proof (induction ms arbitrary: m)
  case Nil
  then show ?case by (simp add: map_all_def)
next
  case (Cons q ms)
  obtain v p f where q: "q = (v, p, f)" by (cases q) auto
  from Cons.prems have room: "3 \<le> card (single_pages m)" and nh: "no_huge 3 (ents (mem m)) r v"
      "page_aligned v" "v \<noteq> 0"
    by (auto simp: q)
  from supervisor_low_map [OF Cons.prems(1,2) room nh, of p f]
  obtain m1 where m1: "page_table_map m v p f = Ret (0, m1)" "supervisor_low m1" "kernel_paging m1 = Some r"
      "card (single_pages m) \<le> card (single_pages m1) + 3"
      "\<And>va. no_huge 3 (ents (mem m1)) r va = no_huge 3 (ents (mem m)) r va" by blast
  have "\<exists>m2. map_all ms m1 = Ret m2 \<and> supervisor_low m2 \<and> kernel_paging m2 = Some r"
    using Cons.prems(3,4) m1(4,5) by (intro Cons.IH m1(2,3)) (auto simp: q)
  with m1(1) show ?case by (simp add: map_all_def q)
qed


section \<open>A booted machine\<close>

definition machine_boot :: machine where
  "machine_boot = \<lparr>mem = \<lambda>_. 0, phys = ppa_init ppa_boot, kernel_paging = None,
     paging_initialized = False, cr3 = 0, disk = \<lambda>_. 0, zig_safety = True\<rparr>"

lemma machine_boot_ok:
  "pool_mapped machine_boot" "\<not> paging_initialized machine_boot" "1000 \<le> card (single_pages machine_boot)"
proof -
  have init: "\<not> initialized ppa_boot" by (simp add: ppa_boot_def)
  then have ok: "pool_ok (ppa_init ppa_boot)" "initialized (ppa_init ppa_boot)"
    using pool_ok_boot by (simp_all add: pool_ok_def ppa_init_def)
  then show "pool_mapped machine_boot"
    by (simp add: pool_mapped_def machine_boot_def ppa_init_pool) (simp add: ppa_boot_def)
  show "\<not> paging_initialized machine_boot" by (simp add: machine_boot_def)
  have "page_address (ppa_init ppa_boot) ` {1..1000} \<subseteq> single_pages machine_boot"
    by (auto simp: single_pages_def machine_boot_def ppa_init_meta [OF init])
  then have "card (page_address (ppa_init ppa_boot) ` {1..1000}) \<le> card (single_pages machine_boot)"
    by (intro card_mono) simp_all
  moreover have "card (page_address (ppa_init ppa_boot) ` {1..1000}) = 1000"
    using page_address_eq [OF ok(1)] by (subst card_image) (auto simp: inj_on_def)
  ultimately show "1000 \<le> card (single_pages machine_boot)" by simp
qed

lemma machine_boot_paged:
  obtains m0 r where "paging_global_init machine_boot = Ret m0" "kernel_paging m0 = Some r" "paging_ok m0"
    "900 \<le> card (single_pages m0)"
    "\<And>va. no_huge 3 (ents (mem m0)) r va \<longleftrightarrow> \<not> unat (take_bit 48 va) < 2 ^ 31"
proof -
  from paging_init_tables [OF machine_boot_ok(1) _ machine_boot_ok(2)] machine_boot_ok(3)
  obtain m0 r pdpt where m0: "paging_global_init machine_boot = Ret m0" "kernel_paging m0 = Some r"
      "paging_ok m0" "card (single_pages machine_boot) = card (single_pages m0) + 2"
      and t: "pdpt \<in> single_pages machine_boot" "r \<in> single_pages machine_boot" "r \<noteq> pdpt"
      "ents (mem m0) = (ents (mem machine_boot))(r := (\<lambda>_. 0)(0 := pdpt OR PF_PRESENT OR PF_WRITABLE),
         pdpt := (\<lambda>_. 0)(0 := 0x83, 1 := 0x40000083))" by auto
  show thesis
    using m0 boot_views(2) [OF machine_boot_ok(1) t] machine_boot_ok(3) by (intro that [of m0 r]) auto
qed

theorem paging_init_exact_witness:
  "\<exists>m1 r. paging_global_init machine_boot = Ret m1 \<and> cr3 m1 = r \<and>
     translate m1 r 0xB8000 = identity_2g 0xB8000 \<and> translate m1 r 0x80000000 = identity_2g 0x80000000"
  using paging_init_exact [OF machine_boot_ok(1) _ machine_boot_ok(2)] machine_boot_ok(3) by fastforce


theorem page_table_unmap_exact_witness:
  "\<exists>m0 m1 r. paging_global_init machine_boot = Ret m0 \<and> page_table_unmap m0 0x80000000 = Ret m1 \<and>
     translate m1 r 0x80000000 = None"
proof -
  obtain m0 r where m0: "paging_global_init machine_boot = Ret m0" "kernel_paging m0 = Some r" "paging_ok m0"
      "900 \<le> card (single_pages m0)"
      "\<And>va. no_huge 3 (ents (mem m0)) r va \<longleftrightarrow> \<not> unat (take_bit 48 va) < 2 ^ 31"
    by (rule machine_boot_paged) blast
  have nh: "no_huge 3 (ents (mem m0)) r 0x80000000" unfolding m0(5) by simp
  from page_table_unmap_exact [OF m0(3,2) nh aligned_passes] obtain m1 where
    "page_table_unmap m0 0x80000000 = Ret m1" "translate m1 r 0x80000000 = None" by auto
  with m0(1) show ?thesis by blast
qed

theorem map_pages_exact_witness:
  "\<exists>m0 m1. paging_global_init machine_boot = Ret m0 \<and> map_pages 0x80000000 0x300000 7 2 m0 = Ret m1 \<and>
     kernel_phys m1 0x80001004 = Some 0x301004"
proof -
  obtain m0 r where m0: "paging_global_init machine_boot = Ret m0" "kernel_paging m0 = Some r" "paging_ok m0"
      "900 \<le> card (single_pages m0)"
      "\<And>va. no_huge 3 (ents (mem m0)) r va \<longleftrightarrow> \<not> unat (take_bit 48 va) < 2 ^ 31"
    by (rule machine_boot_paged) blast
  have nh: "no_huge 3 (ents (mem m0)) (the (kernel_paging m0)) (0x80000000 + of_nat i * 4096)"
    if "i < 2" for i
  proof -
    have "i = 0 \<or> i = 1" using that by auto
    then show ?thesis unfolding m0(2) option.sel m0(5) by auto
  qed
  have room: "3 * 2 \<le> card (single_pages m0)" using m0(4) by simp
  from map_pages_exact [OF m0(3) room _ _ _ _ _ nh, where p = "0x300000" and f = 7]
  obtain m1 where "map_pages 0x80000000 0x300000 7 2 m0 = Ret m1"
      "\<forall>k<2 * 4096. kernel_phys m1 (0x80000000 + of_nat k) = Some (0x300000 + of_nat k)"
    by auto
  moreover from this(2) have "kernel_phys m1 (0x80000000 + of_nat 0x1004) = Some (0x300000 + of_nat 0x1004)"
    by (elim allE [of _ "0x1004"]) simp
  ultimately show ?thesis using m0(1) by auto
qed

theorem low_mapping_lost_witness:
  "\<exists>m0 m1 r. paging_global_init machine_boot = Ret m0 \<and> page_table_map m0 0x40400000 0x300000 7 = Ret (0, m1) \<and>
     cr3 m1 = r \<and> translate m1 r 0x40400000 = identity_2g 0x40400000 \<and>
     read_u64 (mem m1) (entry_addr 0x40000000 2) \<noteq> 0"
proof -
  have i: "va_index 2 0x40400000 = 1" "va_index 1 0x40400000 = 2" by (simp_all add: va_index_def)
  have base: "unat (pool_base (phys machine_boot)) + MEMORY_SIZE \<le> 2 ^ 30"
    by (simp add: machine_boot_def ppa_init_pool) (simp add: ppa_boot_def)
  have "read_u64 (mem machine_boot) (entry_addr 0x40000000 2) = 0"
    by (simp add: machine_boot_def read_u64_def mem_read_def numeral_eq_Suc)
  with low_mapping_lost [OF machine_boot_ok(1) _ machine_boot_ok(2) base, where v = "0x40400000" and B = "0x40000000" and p = "0x300000" and f = 7]
    machine_boot_ok(3) i
  show ?thesis by auto
qed

theorem low_mapping_panics_witness:
  "\<exists>m0. paging_global_init machine_boot = Ret m0 \<and> page_table_map m0 0x400000 0x300000 7 = Panic"
proof -
  have "zig_safety machine_boot" by (simp add: machine_boot_def)
  with low_mapping_panics [OF machine_boot_ok(1) _ machine_boot_ok(2), of "0x400000" "0x300000" 7] machine_boot_ok(3)
  show ?thesis by auto
qed


end
