(* ===== verification/Ata_Port.thy ===== *)
theory Ata_Port
  imports Ports Machine
begin

text \<open>
  The disk driver at the level of its ports (\<open>drivers/ata.zig\<close>): the polling loops, the probe of the
  drive at start-up, and sector transfers word by word through the data port. A model of the drive, as
  the ATA standard has it, is the reference: on every device that behaves like it, however long it is
  busy, the transfers have the effect that theory Machine gives them, which the Rust core relies on.
\<close>

section \<open>The driver\<close>

abbreviation DATA_PORT :: u16 where "DATA_PORT \<equiv> 0x1F0"
abbreviation SECT_COUNT_PORT :: u16 where "SECT_COUNT_PORT \<equiv> 0x1F2"
abbreviation LBA_LO_PORT :: u16 where "LBA_LO_PORT \<equiv> 0x1F3"
abbreviation LBA_MID_PORT :: u16 where "LBA_MID_PORT \<equiv> 0x1F4"
abbreviation LBA_HI_PORT :: u16 where "LBA_HI_PORT \<equiv> 0x1F5"
abbreviation DRIVE_PORT :: u16 where "DRIVE_PORT \<equiv> 0x1F6"
abbreviation COMMAND_PORT :: u16 where "COMMAND_PORT \<equiv> 0x1F7"
abbreviation STATUS_PORT :: u16 where "STATUS_PORT \<equiv> 0x1F7"

abbreviation CMD_IDENTIFY :: u8 where "CMD_IDENTIFY \<equiv> 0xEC"
abbreviation CMD_READ_PIO :: u8 where "CMD_READ_PIO \<equiv> 0x20"
abbreviation CMD_WRITE_PIO :: u8 where "CMD_WRITE_PIO \<equiv> 0x30"

abbreviation STATUS_BSY :: u8 where "STATUS_BSY \<equiv> 0x80"
abbreviation STATUS_DRQ :: u8 where "STATUS_DRQ \<equiv> 0x08"
abbreviation STATUS_ERR :: u8 where "STATUS_ERR \<equiv> 0x01"

definition ata_wait_bsy :: "device \<Rightarrow> platform \<Rightarrow> platform outcome" where
  "ata_wait_bsy dev = wait_until dev STATUS_PORT (\<lambda>v. v AND STATUS_BSY = 0)"

text \<open>The loop of \<open>ata_wait_drq\<close>; the result says whether it was left by the \<open>break\<close> of an error.\<close>

partial_function (option) drq_loop :: "device \<Rightarrow> platform \<Rightarrow> (bool \<times> platform) option" where
  "drq_loop dev p =
     (case inb dev STATUS_PORT p of (v, p1) \<Rightarrow>
      if v AND (STATUS_BSY OR STATUS_DRQ) = STATUS_DRQ then Some (False, p1)
      else case inb dev STATUS_PORT p1 of (e, p2) \<Rightarrow>
           if e AND STATUS_ERR \<noteq> 0 then Some (True, p2) else drq_loop dev p2)"

declare drq_loop.simps [code]

definition ata_wait_drq :: "device \<Rightarrow> platform \<Rightarrow> platform outcome" where
  "ata_wait_drq dev p =
     (case drq_loop dev p of
        None \<Rightarrow> Hang
      | Some (failed, p1) \<Rightarrow> if failed then say (lit ''[ATA] Error during DRQ wait!'' @ newline) p1 else Ret p1)"

text \<open>The 256 words of the identification are read into a buffer that nothing looks at.\<close>

definition ata_init :: "device \<Rightarrow> platform \<Rightarrow> platform outcome" where
  "ata_init dev p =
     (let p = outb DRIVE_PORT 0xA0 p;
          p = outb SECT_COUNT_PORT 0 p;
          p = outb LBA_LO_PORT 0 p;
          p = outb LBA_MID_PORT 0 p;
          p = outb LBA_HI_PORT 0 p;
          p = outb COMMAND_PORT CMD_IDENTIFY p
      in case inb dev STATUS_PORT p of (status, p) \<Rightarrow>
         if status = 0 then say (lit ''[ATA] Primary Master Drive does NOT exist.'' @ newline) p
         else obind (ata_wait_bsy dev p) (\<lambda>p.
           case inb dev LBA_MID_PORT p of (mid, p) \<Rightarrow>
           case inb dev LBA_HI_PORT p of (hi, p) \<Rightarrow>
           if mid \<noteq> 0 \<or> hi \<noteq> 0
           then say (lit ''[ATA] Primary Master Drive is not ATA (might be ATAPI).'' @ newline) p
           else obind (ata_wait_drq dev p) (\<lambda>p.
             announce LightBlue (lit ''[ATA] Primary Master Drive initialized.'' @ newline)
               (fold (\<lambda>_ p. snd (inw dev DATA_PORT p)) [0..<256] p))))"

text \<open>The five registers that both transfers set first.\<close>

definition ata_select :: "u32 \<Rightarrow> u8 \<Rightarrow> platform \<Rightarrow> platform" where
  "ata_select lba sector_count p =
     (let p = outb DRIVE_PORT (0xE0 OR ucast (drop_bit 24 lba AND 0x0F)) p;
          p = outb SECT_COUNT_PORT sector_count p;
          p = outb LBA_LO_PORT (ucast (lba AND 0xFF)) p;
          p = outb LBA_MID_PORT (ucast (drop_bit 8 lba AND 0xFF)) p
      in outb LBA_HI_PORT (ucast (drop_bit 16 lba AND 0xFF)) p)"

text \<open>The inner loops: 256 words between the data port and memory, little endian as the processor is.\<close>

definition read_words :: "device \<Rightarrow> u64 \<Rightarrow> nat \<Rightarrow> platform \<times> memory \<Rightarrow> platform \<times> memory" where
  "read_words dev ptr n =
     fold (\<lambda>i (p, mm). case inw dev DATA_PORT p of (v, p) \<Rightarrow>
             (p, mem_write mm (ptr + 2 * of_nat i) (to_le 2 v))) [0..<n]"

definition write_words :: "memory \<Rightarrow> u64 \<Rightarrow> nat \<Rightarrow> platform \<Rightarrow> platform" where
  "write_words mm ptr n =
     fold (\<lambda>i. outw DATA_PORT (from_le (mem_read mm (ptr + 2 * of_nat i) 2))) [0..<n]"

text \<open>
  \<open>@alignCast\<close> to a pointer to 16-bit words wants an even address: with runtime checks an odd one
  panics, without them it is undefined.
\<close>

definition align_words :: "bool \<Rightarrow> u64 \<Rightarrow> u64 outcome" where
  "align_words safe a = (if a AND 1 = 0 then Ret a else if safe then Panic else Undef)"

definition ata_read_pio :: "device \<Rightarrow> u32 \<Rightarrow> u8 \<Rightarrow> u64 \<Rightarrow> platform \<Rightarrow> machine \<Rightarrow> (platform \<times> machine) outcome" where
  "ata_read_pio dev lba sector_count dest p m =
     (let p = outb COMMAND_PORT CMD_READ_PIO (ata_select lba sector_count p)
      in obind (align_words (zig_safety m) dest) (\<lambda>ptr.
         obind (ofold (\<lambda>k (p, mm).
                  obind (ata_wait_bsy dev p) (\<lambda>p.
                  obind (ata_wait_drq dev p) (\<lambda>p.
                  Ret (read_words dev (ptr + 512 * of_nat k) 256 (p, mm)))))
                [0..<unat sector_count] (p, mem m)) (\<lambda>(p, mm).
         Ret (p, m\<lparr>mem := mm\<rparr>))))"

definition ata_write_pio :: "device \<Rightarrow> u32 \<Rightarrow> u8 \<Rightarrow> u64 \<Rightarrow> platform \<Rightarrow> machine \<Rightarrow> platform outcome" where
  "ata_write_pio dev lba sector_count src p m =
     (let p = outb COMMAND_PORT CMD_WRITE_PIO (ata_select lba sector_count p)
      in obind (align_words (zig_safety m) src) (\<lambda>ptr.
         ofold (\<lambda>k p.
                  obind (ata_wait_bsy dev p) (\<lambda>p.
                  obind (ata_wait_drq dev p) (\<lambda>p.
                  Ret (write_words (mem m) (ptr + 512 * of_nat k) 256 p))))
           [0..<unat sector_count] p))"

section \<open>The drive\<close>

text \<open>
  The reference, after the ATA standard: the task file registers, the transfer in progress with its
  position on the disk in bytes and the words that are left, and the number of words the host may move
  before it has to read the status again. A word moved without this permission is lost.
\<close>

datatype drive_mode = Idle | Reading | Writing | Identifying

record drive =
  d_disk :: "nat \<Rightarrow> u8"
  d_size :: nat
  d_sel :: u8
  d_count :: u8
  d_lo :: u8
  d_mid :: u8
  d_hi :: u8
  d_mode :: drive_mode
  d_pos :: nat
  d_left :: nat
  d_grant :: nat
  d_err :: bool

definition d_lba :: "drive \<Rightarrow> nat" where
  "d_lba d = unat (d_sel d AND 0x0F) * 2 ^ 24 + unat (d_hi d) * 2 ^ 16 + unat (d_mid d) * 2 ^ 8 + unat (d_lo d)"

definition d_sectors :: "drive \<Rightarrow> nat" where
  "d_sectors d = (if d_count d = 0 then 256 else unat (d_count d))"

definition drive_command :: "u8 \<Rightarrow> drive \<Rightarrow> drive" where
  "drive_command v d =
     (if d_mode d \<noteq> Idle then d
      else if v = 0xEC then d\<lparr>d_mode := Identifying, d_left := 256, d_grant := 0, d_err := False\<rparr>
      else if (v = 0x20 \<or> v = 0x30) \<and> d_sel d AND 0x50 = 0x40 \<and> d_lba d + d_sectors d \<le> d_size d
      then d\<lparr>d_mode := if v = 0x20 then Reading else Writing, d_pos := 512 * d_lba d,
             d_left := 256 * d_sectors d, d_grant := 0, d_err := False\<rparr>
      else d\<lparr>d_err := True\<rparr>)"

definition advance :: "drive \<Rightarrow> drive" where
  "advance d = d\<lparr>d_pos := d_pos d + 2, d_left := d_left d - 1, d_grant := d_grant d - 1,
                 d_mode := if d_left d \<le> 1 then Idle else d_mode d\<rparr>"

definition put_word :: "u16 \<Rightarrow> drive \<Rightarrow> drive" where
  "put_word x d = d\<lparr>d_disk := (d_disk d)(d_pos d := ucast x, Suc (d_pos d) := ucast (drop_bit 8 x))\<rparr>"

fun drive_event :: "io_event \<Rightarrow> drive \<Rightarrow> drive" where
  "drive_event (Out8 q v) d =
     (if q = SECT_COUNT_PORT then d\<lparr>d_count := v\<rparr>
      else if q = LBA_LO_PORT then d\<lparr>d_lo := v\<rparr>
      else if q = LBA_MID_PORT then d\<lparr>d_mid := v\<rparr>
      else if q = LBA_HI_PORT then d\<lparr>d_hi := v\<rparr>
      else if q = DRIVE_PORT then d\<lparr>d_sel := v\<rparr>
      else if q = COMMAND_PORT then drive_command v d
      else d)"
| "drive_event (In8 q v) d =
     (if q = STATUS_PORT \<and> v AND 0x88 = 0x08 \<and> d_mode d \<noteq> Idle
      then d\<lparr>d_grant := (d_left d - 1) mod 256 + 1\<rparr> else d)"
| "drive_event (In16 q v) d =
     (if q = DATA_PORT \<and> (d_mode d = Reading \<or> d_mode d = Identifying) \<and> 0 < d_grant d then advance d else d)"
| "drive_event (Out16 q x) d =
     (if q = DATA_PORT \<and> d_mode d = Writing \<and> 0 < d_grant d then advance (put_word x d) else d)"
| "drive_event _ d = d"

definition drive_after :: "io_event list \<Rightarrow> drive \<Rightarrow> drive" where
  "drive_after log = fold drive_event log"

abbreviation drive_at :: "drive \<Rightarrow> platform \<Rightarrow> drive" where
  "drive_at d0 p \<equiv> drive_after (io_log p) d0"

text \<open>
  A device that is such a drive: it answers the status port with something other than 0, clears its
  busy bit after finitely many reads, and while it is not busy its status shows whether a transfer
  waits and whether the last command failed, and no read of a register changes it. When a word of a
  read is due, the data port gives the next two bytes of the disk, and the address registers can be
  read back.
\<close>

definition ata_device :: "device \<Rightarrow> drive \<Rightarrow> bool" where
  "ata_device dev d0 \<longleftrightarrow>
     (\<forall>log. let d = drive_after log d0; v = dev8 dev log STATUS_PORT in
        v \<noteq> 0
        \<and> (v AND STATUS_BSY = 0 \<longrightarrow>
             (v AND STATUS_DRQ \<noteq> 0 \<longleftrightarrow> d_mode d \<noteq> Idle) \<and> (v AND STATUS_ERR \<noteq> 0 \<longleftrightarrow> d_err d)
             \<and> (\<forall>q x. dev8 dev (log @ [In8 q x]) STATUS_PORT = v))
        \<and> (d_mode d = Reading \<and> 0 < d_grant d \<longrightarrow>
             to_le 2 (dev16 dev log DATA_PORT) = [d_disk d (d_pos d), d_disk d (Suc (d_pos d))])
        \<and> dev8 dev log LBA_MID_PORT = d_mid d \<and> dev8 dev log LBA_HI_PORT = d_hi d)
     \<and> (\<forall>p. \<exists>n. ready_after dev STATUS_PORT (\<lambda>v. v AND STATUS_BSY = 0) n p)"

section \<open>Waiting for the drive\<close>

lemma drive_at_simps [simp]:
  "drive_at d0 (outb q v p) = drive_event (Out8 q v) (drive_at d0 p)"
  "drive_at d0 (outw q x p) = drive_event (Out16 q x) (drive_at d0 p)"
  "drive_at d0 (snd (inb dev q p)) = drive_event (In8 q (fst (inb dev q p))) (drive_at d0 p)"
  "drive_at d0 (snd (inw dev q p)) = drive_event (In16 q (fst (inw dev q p))) (drive_at d0 p)"
  "drive_at d0 (p\<lparr>con := c\<rparr>) = drive_at d0 p"
  by (simp_all add: drive_after_def port_defs Let_def)

lemma status_bits:
  "v AND 0x88 = 0x08 \<longleftrightarrow> v AND STATUS_BSY = 0 \<and> v AND STATUS_DRQ \<noteq> 0" for v :: u8
proof -
  have "v AND 0x88 = 0x08 \<longleftrightarrow> (\<forall>i<8. bit v i \<and> bit (0x88 :: u8) i \<longleftrightarrow> bit (0x08 :: u8) i)"
    by (auto simp: bit_eq_iff bit_and_iff) 
  also have "\<dots> \<longleftrightarrow> \<not> bit v 7 \<and> bit v 3"
    by (auto simp: less_Suc_eq numeral_eq_Suc bit_simps)
  finally show ?thesis
    using and_exp_eq_0_iff_not_bit [of v 7] and_exp_eq_0_iff_not_bit [of v 3] by simp
qed

lemma polled_last: "polled dev q (Suc n) p = snd (inb dev q (polled dev q n p))"
  by (induction n arbitrary: p) simp_all

lemma polled_busy:
  assumes "\<forall>k<n. \<not> ready_after dev STATUS_PORT (\<lambda>v. v AND STATUS_BSY = 0) k p"
  shows "drive_at d0 (polled dev STATUS_PORT n p) = drive_at d0 p"
  using assms
proof (induction n)
  case (Suc n)
  then have "fst (inb dev STATUS_PORT (polled dev STATUS_PORT n p)) AND STATUS_BSY \<noteq> 0"
    by (simp add: ready_after_def)
  with Suc show ?case by (simp only: polled_last drive_at_simps drive_event.simps status_bits) simp
qed simp
lemma ata_deviceD:
  assumes "ata_device dev d0"
  shows "dev8 dev (io_log p) STATUS_PORT \<noteq> 0"
    "dev8 dev (io_log p) STATUS_PORT AND STATUS_BSY = 0 \<Longrightarrow>
      dev8 dev (io_log p) STATUS_PORT AND STATUS_DRQ \<noteq> 0 \<longleftrightarrow> d_mode (drive_at d0 p) \<noteq> Idle"
    "dev8 dev (io_log p) STATUS_PORT AND STATUS_BSY = 0 \<Longrightarrow>
      dev8 dev (io_log p) STATUS_PORT AND STATUS_ERR \<noteq> 0 \<longleftrightarrow> d_err (drive_at d0 p)"
    "dev8 dev (io_log p) STATUS_PORT AND STATUS_BSY = 0 \<Longrightarrow>
      dev8 dev (io_log (snd (inb dev q p))) STATUS_PORT = dev8 dev (io_log p) STATUS_PORT"
    "d_mode (drive_at d0 p) = Reading \<Longrightarrow> 0 < d_grant (drive_at d0 p) \<Longrightarrow>
      to_le 2 (fst (inw dev DATA_PORT p)) = [d_disk (drive_at d0 p) (d_pos (drive_at d0 p)), d_disk (drive_at d0 p) (Suc (d_pos (drive_at d0 p)))]"
    "fst (inb dev LBA_MID_PORT p) = d_mid (drive_at d0 p)" "fst (inb dev LBA_HI_PORT p) = d_hi (drive_at d0 p)"
    "\<exists>n. ready_after dev STATUS_PORT (\<lambda>v. v AND STATUS_BSY = 0) n p"
  using assms unfolding ata_device_def Let_def by (simp_all add: inb_def inw_def Let_def)

text \<open>The status that the drive shows while it is not busy, and that it is seen by both loops.\<close>

abbreviation calm :: "device \<Rightarrow> platform \<Rightarrow> bool" where
  "calm dev p \<equiv> dev8 dev (io_log p) STATUS_PORT AND STATUS_BSY = 0"

definition granted :: "drive \<Rightarrow> drive" where
  "granted d = (if d_mode d = Idle then d else d\<lparr>d_grant := (d_left d - 1) mod 256 + 1\<rparr>)"

lemma granted_twice [simp]: "granted (granted d) = granted d"
  by (simp add: granted_def)

lemma status_read:
  assumes "ata_device dev d0" and "calm dev p"
  shows "drive_at d0 (snd (inb dev STATUS_PORT p)) = granted (drive_at d0 p)" "calm dev (snd (inb dev q p))"
proof -
  show "calm dev (snd (inb dev q p))" using ata_deviceD(4) [OF assms] assms(2) by simp
  have "fst (inb dev STATUS_PORT p) = dev8 dev (io_log p) STATUS_PORT" by (simp add: inb_def Let_def)
  with ata_deviceD(2) [OF assms] assms(2)
  show "drive_at d0 (snd (inb dev STATUS_PORT p)) = granted (drive_at d0 p)"
    by (simp add: granted_def status_bits)
qed

lemma wait_bsy_run:
  assumes "ata_device dev d0"
  shows "\<exists>p1. ata_wait_bsy dev p = Ret p1 \<and> con p1 = con p \<and> calm dev p1 \<and> drive_at d0 p1 = granted (drive_at d0 p)"
proof (cases rule: wait_until_cases [of dev STATUS_PORT "\<lambda>v. v AND STATUS_BSY = 0" p])
  case (ready n)
  let ?q = "polled dev STATUS_PORT n p"
  have "calm dev ?q" using ready(2) by (simp add: ready_after_def inb_def Let_def)
  then have "drive_at d0 (snd (inb dev STATUS_PORT ?q)) = granted (drive_at d0 p)" "calm dev (snd (inb dev STATUS_PORT ?q))"
    using status_read [OF assms, of ?q] polled_busy [OF ready(3)] by (simp_all only:)
  with ready(1) show ?thesis unfolding ata_wait_bsy_def polled_last
    by (intro exI [of _ "snd (inb dev STATUS_PORT ?q)"]) (simp del: drive_at_simps(3))
next
  case never
  with ata_deviceD(8) [OF assms] show ?thesis by blast
qed

lemma wait_drq_run:
  assumes "ata_device dev d0" and "calm dev p"
  shows "d_mode (drive_at d0 p) \<noteq> Idle \<Longrightarrow>
      ata_wait_drq dev p = Ret (snd (inb dev STATUS_PORT p))"
    "d_mode (drive_at d0 p) = Idle \<Longrightarrow> d_err (drive_at d0 p) \<Longrightarrow>
      ata_wait_drq dev p = say (lit ''[ATA] Error during DRQ wait!'' @ newline)
        (snd (inb dev STATUS_PORT (snd (inb dev STATUS_PORT p))))"
proof -
  let ?v = "dev8 dev (io_log p) STATUS_PORT" and ?p1 = "snd (inb dev STATUS_PORT p)"
  have v: "fst (inb dev STATUS_PORT p) = ?v" by (simp add: inb_def Let_def)
  have v1: "fst (inb dev STATUS_PORT ?p1) = ?v"
    using ata_deviceD(4) [OF assms, of STATUS_PORT] by (simp add: inb_def Let_def)
  have drq: "?v AND (STATUS_BSY OR STATUS_DRQ) = STATUS_DRQ \<longleftrightarrow> d_mode (drive_at d0 p) \<noteq> Idle"
    using ata_deviceD(2) [OF assms] assms(2) status_bits [of ?v] by simp
  show "ata_wait_drq dev p = Ret ?p1" if "d_mode (drive_at d0 p) \<noteq> Idle"
    using drq that v unfolding ata_wait_drq_def by (subst drq_loop.simps) (simp add: case_prod_beta)
  show "ata_wait_drq dev p = say (lit ''[ATA] Error during DRQ wait!'' @ newline) (snd (inb dev STATUS_PORT ?p1))"
    if "d_mode (drive_at d0 p) = Idle" "d_err (drive_at d0 p)"
    using drq that v v1 ata_deviceD(3) [OF assms] unfolding ata_wait_drq_def
    by (subst drq_loop.simps) (simp add: case_prod_beta)
qed

lemma sector_ready:
  assumes "ata_device dev d0" and "d_mode (drive_at d0 p) \<noteq> Idle"
  shows "\<exists>p2. obind (ata_wait_bsy dev p) (ata_wait_drq dev) = Ret p2 \<and> con p2 = con p
    \<and> drive_at d0 p2 = granted (drive_at d0 p)"
proof -
  obtain p1 where p1: "ata_wait_bsy dev p = Ret p1" "con p1 = con p" "calm dev p1" "drive_at d0 p1 = granted (drive_at d0 p)"
    using wait_bsy_run [OF assms(1)] by blast
  with assms(2) have "d_mode (drive_at d0 p1) \<noteq> Idle" by (simp add: granted_def)
  with p1 wait_drq_run(1) [OF assms(1) p1(3)] status_read [OF assms(1) p1(3)] show ?thesis by auto
qed
section \<open>Moving words\<close>

definition moved :: "nat \<Rightarrow> drive \<Rightarrow> drive" where
  "moved n d = d\<lparr>d_pos := d_pos d + 2 * n, d_left := d_left d - n, d_grant := d_grant d - n,
                 d_mode := if n < d_left d then d_mode d else Idle\<rparr>"

lemma moved_advance:
  assumes "n < d_left d"
  shows "advance (moved n d) = moved (Suc n) d"
  using assms by (simp add: moved_def advance_def)

lemma mem_write_append:
  assumes "length xs + length ys \<le> 2 ^ 64"
  shows "mem_write (mem_write mm a xs) (a + of_nat (length xs)) ys = mem_write mm a (xs @ ys)"
proof
  fix x :: u64
  define k where "k = unat (x - a)"
  have x: "x - (a + of_nat (length xs)) = of_nat k - of_nat (length xs)" by (simp add: k_def algebra_simps)
  have k: "k < 2 ^ 64" using unat_u64_less [of "x - a"] by (simp add: k_def)
  show "mem_write (mem_write mm a xs) (a + of_nat (length xs)) ys x = mem_write mm a (xs @ ys) x"
  proof (cases "length xs \<le> k")
    case True
    then have "unat (x - (a + of_nat (length xs))) = k - length xs"
      using k unat_of_nat64 [of "k - length xs"] unfolding x by (simp add: of_nat_diff)
    with True show ?thesis by (auto simp: mem_write_def k_def [symmetric] nth_append)
  next
    case False
    have "\<not> unat (x - (a + of_nat (length xs))) < length ys"
    proof
      define j where "j = unat (x - (a + of_nat (length xs)))"
      assume "unat (x - (a + of_nat (length xs))) < length ys"
      then have "j + length xs < 2 ^ 64" using assms by (simp add: j_def)
      moreover have "x - a = of_nat (j + length xs)" by (simp add: j_def algebra_simps)
      ultimately have "k = j + length xs" using unat_of_nat64 unfolding k_def by presburger
      with False show False by simp
    qed
    with False assms show ?thesis by (auto simp: mem_write_def k_def [symmetric] nth_append)
  qed
qed

lemma read_words_run:
  assumes "ata_device dev d0" and "d_mode (drive_at d0 p) = Reading"
    and "n \<le> d_grant (drive_at d0 p)" and "d_grant (drive_at d0 p) \<le> d_left (drive_at d0 p)" and "n \<le> 256"
  shows "\<exists>p1. read_words dev a n (p, mm) =
      (p1, mem_write mm a (map (\<lambda>i. d_disk (drive_at d0 p) (d_pos (drive_at d0 p) + i)) [0..<2 * n]))
    \<and> con p1 = con p \<and> drive_at d0 p1 = (if n = 0 then drive_at d0 p else moved n (drive_at d0 p))"
  using assms(3,5)
proof (induction n)
  case 0
  then show ?case by (simp add: read_words_def mem_write_def)
next
  case (Suc n)
  let ?d = "drive_at d0 p" and ?bs = "\<lambda>n. map (\<lambda>i. d_disk (drive_at d0 p) (d_pos (drive_at d0 p) + i)) [0..<2 * n]"
  obtain p1 where p1: "read_words dev a n (p, mm) = (p1, mem_write mm a (?bs n))" "con p1 = con p"
      "drive_at d0 p1 = (if n = 0 then ?d else moved n ?d)" using Suc by auto
  have due: "d_mode (drive_at d0 p1) = Reading" "0 < d_grant (drive_at d0 p1)"
    using p1(3) assms(2,4) Suc.prems by (auto simp: moved_def)
  have "drive_at d0 (snd (inw dev DATA_PORT p1)) = advance (drive_at d0 p1)" using due by simp
  also have "\<dots> = moved (Suc n) ?d"
    using p1(3) moved_advance [of n ?d] assms(4) Suc.prems by (auto simp: moved_def advance_def)
  finally have d: "drive_at d0 (snd (inw dev DATA_PORT p1)) = moved (Suc n) ?d" .
  have "to_le 2 (fst (inw dev DATA_PORT p1)) = [d_disk ?d (d_pos ?d + 2 * n), d_disk ?d (Suc (d_pos ?d + 2 * n))]"
    using ata_deviceD(5) [OF assms(1) due] p1(3) by (auto simp: moved_def)
  then have bs: "?bs (Suc n) = ?bs n @ to_le 2 (fst (inw dev DATA_PORT p1))" by simp
  have "read_words dev a (Suc n) (p, mm) =
      (snd (inw dev DATA_PORT p1), mem_write (mem_write mm a (?bs n)) (a + 2 * of_nat n) (to_le 2 (fst (inw dev DATA_PORT p1))))"
    using p1(1) by (simp add: read_words_def case_prod_beta)
  also have "\<dots> = (snd (inw dev DATA_PORT p1), mem_write mm a (?bs (Suc n)))"
    using mem_write_append [of "?bs n" "to_le 2 (fst (inw dev DATA_PORT p1))" mm a] Suc.prems(2) unfolding bs by simp
  finally show ?case using p1(2) d by (intro exI [of _ "snd (inw dev DATA_PORT p1)"]) simp
qed
definition stored :: "nat \<Rightarrow> memory \<Rightarrow> u64 \<Rightarrow> drive \<Rightarrow> drive" where
  "stored n mm a d = d\<lparr>d_disk := (\<lambda>b. if d_pos d \<le> b \<and> b < d_pos d + n then mm (a + of_nat (b - d_pos d)) else d_disk d b)\<rparr>"

lemma word_bytes:
  "ucast (from_le (mem_read mm a 2) :: u16) = mm a" "ucast (drop_bit 8 (from_le (mem_read mm a 2) :: u16)) = mm (a + 1)"
proof -
  have "to_le 2 (from_le (mem_read mm a 2) :: u16) = mem_read mm a 2"
    using to_le_from_le [of "mem_read mm a 2", where 'a = 16] by simp
  then show "ucast (from_le (mem_read mm a 2) :: u16) = mm a" "ucast (drop_bit 8 (from_le (mem_read mm a 2) :: u16)) = mm (a + 1)"
    by (simp_all add: mem_read_def numeral_2_eq_2)
qed

lemma moved_stored_0: "0 < d_left d \<Longrightarrow> moved 0 (stored 0 mm a d) = d"
  by (cases d) (auto simp: moved_def stored_def fun_eq_iff)

lemma write_words_run:
  assumes "d_mode (drive_at d0 p) = Writing" and "0 < d_left (drive_at d0 p)" and "d_grant (drive_at d0 p) \<le> d_left (drive_at d0 p)"
    and "n \<le> d_grant (drive_at d0 p)" and "n \<le> 256"
  shows "con (write_words mm a n p) = con p
    \<and> drive_at d0 (write_words mm a n p) = moved n (stored (2 * n) mm a (drive_at d0 p))"
  using assms(4,5)
proof (induction n)
  case 0
  then show ?case using moved_stored_0 [OF assms(2)] by (simp add: write_words_def)
next
  case (Suc n)
  let ?d = "drive_at d0 p" and ?p1 = "write_words mm a n p"
  let ?x = "from_le (mem_read mm (a + 2 * of_nat n) 2) :: u16"
  have p1: "con ?p1 = con p" "drive_at d0 ?p1 = moved n (stored (2 * n) mm a ?d)"
    using Suc by simp_all
  then have due: "d_mode (drive_at d0 ?p1) = Writing" "0 < d_grant (drive_at d0 ?p1)"
    using assms(1,3) Suc.prems by (auto simp: moved_def stored_def)
  have step: "write_words mm a (Suc n) p = outw DATA_PORT ?x ?p1" by (simp add: write_words_def)
  have "(d_disk (stored (2 * n) mm a ?d))(d_pos ?d + 2 * n := ucast ?x, Suc (d_pos ?d + 2 * n) := ucast (drop_bit 8 ?x))
      = d_disk (stored (2 * Suc n) mm a ?d)"
    unfolding word_bytes by (auto simp: stored_def fun_eq_iff less_Suc_eq algebra_simps)
  then have "advance (put_word ?x (drive_at d0 ?p1)) = moved (Suc n) (stored (2 * Suc n) mm a ?d)"
    using p1(2) assms(1,3) Suc.prems by (simp add: moved_def advance_def put_word_def stored_def)
  then show ?case using due p1(1) unfolding step by simp
qed

section \<open>Moving sectors\<close>

text \<open>A transfer of \<open>n\<close> sectors from position \<open>q\<close> on a disk, of which \<open>k\<close> are done.\<close>

definition at_sector :: "drive_mode \<Rightarrow> nat \<Rightarrow> nat \<Rightarrow> nat \<Rightarrow> drive \<Rightarrow> bool" where
  "at_sector md q n k d \<longleftrightarrow> d_mode d = (if k < n then md else Idle) \<and> d_pos d = q + 512 * k \<and> d_left d = 256 * (n - k)"

lemma granted_sector:
  assumes "at_sector md q n k d" and "k < n" and "md \<noteq> Idle"
  shows "granted d = d\<lparr>d_grant := 256\<rparr>"
proof -
  have "(256 * (n - k) - 1) mod 256 = (255 :: nat)"
    using assms(2) by (cases "n - k") (simp_all add: mod_Suc)
  with assms show ?thesis by (simp add: granted_def at_sector_def)
qed

lemma moved_sector:
  assumes "at_sector md q n k d" and "k < n"
  shows "at_sector md q n (Suc k) (moved 256 d)"
  using assms by (auto simp: at_sector_def moved_def diff_mult_distrib2)

abbreviation await :: "device \<Rightarrow> platform \<Rightarrow> platform outcome" where
  "await dev p \<equiv> obind (ata_wait_bsy dev p) (ata_wait_drq dev)"

lemma read_sectors_run:
  assumes "ata_device dev d0" and "at_sector Reading q n 0 (drive_at d0 p)" and "k \<le> n" and "n \<le> 256"
  shows "\<exists>p1. ofold (\<lambda>k (p, mm). obind (await dev p) (\<lambda>p. Ret (read_words dev (a + 512 * of_nat k) 256 (p, mm)))) [0..<k] (p, mm)
      = Ret (p1, mem_write mm a (map (\<lambda>i. d_disk (drive_at d0 p) (q + i)) [0..<512 * k]))
    \<and> con p1 = con p \<and> at_sector Reading q n k (drive_at d0 p1) \<and> d_disk (drive_at d0 p1) = d_disk (drive_at d0 p)"
  using assms(3)
proof (induction k)
  case 0
  then show ?case using assms(2) by (simp add: mem_write_def)
next
  case (Suc k)
  let ?f = "\<lambda>k (p, mm). obind (await dev p) (\<lambda>p. Ret (read_words dev (a + 512 * of_nat k) 256 (p, mm)))"
  let ?bs = "\<lambda>k. map (\<lambda>i. d_disk (drive_at d0 p) (q + i)) [0..<512 * k]"
  obtain p1 where p1: "ofold ?f [0..<k] (p, mm) = Ret (p1, mem_write mm a (?bs k))" "con p1 = con p"
      "at_sector Reading q n k (drive_at d0 p1)" "d_disk (drive_at d0 p1) = d_disk (drive_at d0 p)" using Suc by auto
  then have "d_mode (drive_at d0 p1) \<noteq> Idle" using Suc.prems by (simp add: at_sector_def)
  from sector_ready [OF assms(1) this] obtain p2 where
    p2: "await dev p1 = Ret p2" "con p2 = con p1" "drive_at d0 p2 = (drive_at d0 p1)\<lparr>d_grant := 256\<rparr>"
    using granted_sector [OF p1(3)] Suc.prems by auto
  have at2: "at_sector Reading q n k (drive_at d0 p2)" using p1(3) p2(3) by (simp add: at_sector_def)
  have "d_mode (drive_at d0 p2) = Reading" "256 \<le> d_grant (drive_at d0 p2)" "d_grant (drive_at d0 p2) \<le> d_left (drive_at d0 p2)"
    using at2 p2(3) Suc.prems by (auto simp: at_sector_def)
  from read_words_run [OF assms(1) this, of "a + 512 * of_nat k" "mem_write mm a (?bs k)"]
  obtain p3 where p3: "read_words dev (a + 512 * of_nat k) 256 (p2, mem_write mm a (?bs k)) =
      (p3, mem_write (mem_write mm a (?bs k)) (a + 512 * of_nat k) (map (\<lambda>i. d_disk (drive_at d0 p) (q + 512 * k + i)) [0..<512]))"
      "con p3 = con p2" "drive_at d0 p3 = moved 256 (drive_at d0 p2)"
    using p1(4) p2(3) at2 by (auto simp: at_sector_def)
  have "?bs (Suc k) = ?bs k @ map (\<lambda>i. d_disk (drive_at d0 p) (q + 512 * k + i)) [0..<512]"
    by (rule nth_equalityI) (auto simp: nth_append)
  then have "mem_write (mem_write mm a (?bs k)) (a + 512 * of_nat k) (map (\<lambda>i. d_disk (drive_at d0 p) (q + 512 * k + i)) [0..<512])
      = mem_write mm a (?bs (Suc k))"
    using mem_write_append [of "?bs k" "map (\<lambda>i. d_disk (drive_at d0 p) (q + 512 * k + i)) [0..<512]" mm a] Suc.prems assms(4)
    by simp
  moreover have "at_sector Reading q n (Suc k) (drive_at d0 p3)" "d_disk (drive_at d0 p3) = d_disk (drive_at d0 p)"
    using moved_sector [OF at2] Suc.prems p3(3) p2(3) p1(4) by (simp_all add: moved_def)
  ultimately show ?case
    using p1(1,2) p2(1,2) p3(1,2) by (simp add: ofold_append)
qed
lemma write_sectors_run:
  assumes "ata_device dev d0" and "at_sector Writing q n 0 (drive_at d0 p)" and "k \<le> n"
  shows "\<exists>p1. ofold (\<lambda>k p. obind (await dev p) (\<lambda>p. Ret (write_words mm (a + 512 * of_nat k) 256 p))) [0..<k] p = Ret p1
    \<and> con p1 = con p \<and> at_sector Writing q n k (drive_at d0 p1)
    \<and> d_disk (drive_at d0 p1) = (\<lambda>b. if q \<le> b \<and> b < q + 512 * k then mm (a + of_nat (b - q)) else d_disk (drive_at d0 p) b)"
  using assms(3)
proof (induction k)
  case 0
  then show ?case using assms(2) by (auto simp: fun_eq_iff)
next
  case (Suc k)
  let ?f = "\<lambda>k p. obind (await dev p) (\<lambda>p. Ret (write_words mm (a + 512 * of_nat k) 256 p))"
  obtain p1 where p1: "ofold ?f [0..<k] p = Ret p1" "con p1 = con p" "at_sector Writing q n k (drive_at d0 p1)"
      "d_disk (drive_at d0 p1) = (\<lambda>b. if q \<le> b \<and> b < q + 512 * k then mm (a + of_nat (b - q)) else d_disk (drive_at d0 p) b)"
    using Suc by auto
  then have "d_mode (drive_at d0 p1) \<noteq> Idle" using Suc.prems by (simp add: at_sector_def)
  from sector_ready [OF assms(1) this] obtain p2 where
    p2: "await dev p1 = Ret p2" "con p2 = con p1" "drive_at d0 p2 = (drive_at d0 p1)\<lparr>d_grant := 256\<rparr>"
    using granted_sector [OF p1(3)] Suc.prems by auto
  have at2: "at_sector Writing q n k (drive_at d0 p2)" using p1(3) p2(3) by (simp add: at_sector_def)
  let ?p3 = "write_words mm (a + 512 * of_nat k) 256 p2"
  have "d_mode (drive_at d0 p2) = Writing" "0 < d_left (drive_at d0 p2)" "d_grant (drive_at d0 p2) \<le> d_left (drive_at d0 p2)"
      "256 \<le> d_grant (drive_at d0 p2)"
    using at2 p2(3) Suc.prems by (auto simp: at_sector_def)
  from write_words_run [OF this, of mm "a + 512 * of_nat k"]
  have p3: "con ?p3 = con p2" "drive_at d0 ?p3 = moved 256 (stored 512 mm (a + 512 * of_nat k) (drive_at d0 p2))" by simp_all
  have "at_sector Writing q n k (stored 512 mm (a + 512 * of_nat k) (drive_at d0 p2))"
    using at2 by (simp add: at_sector_def stored_def)
  then have "at_sector Writing q n (Suc k) (drive_at d0 ?p3)" using moved_sector Suc.prems p3(2) by simp
  moreover have "d_disk (drive_at d0 ?p3) = (\<lambda>b. if q \<le> b \<and> b < q + 512 * Suc k then mm (a + of_nat (b - q)) else d_disk (drive_at d0 p) b)"
  proof
    fix b
    have "a + 512 * of_nat k + of_nat (b - (q + 512 * k)) = a + of_nat (b - q)" if "q + 512 * k \<le> b"
    proof -
      have "b - q = 512 * k + (b - (q + 512 * k))" using that by simp
      then show ?thesis by (metis (no_types, lifting) add.assoc of_nat_add of_nat_mult of_nat_numeral)
    qed
    then show "d_disk (drive_at d0 ?p3) b = (if q \<le> b \<and> b < q + 512 * Suc k then mm (a + of_nat (b - q)) else d_disk (drive_at d0 p) b)"
      using at2 p1(4) p2(3) p3(2) by (auto simp: moved_def stored_def at_sector_def)
  qed
  ultimately show ?case
    using p1(1,2) p2(1,2) p3(1) by (simp add: ofold_append)
qed

section \<open>Commands\<close>

lemma unat_and_low:
  "unat (x AND 0xFF) = unat x mod 256" "unat (x AND 0x0F) = unat x mod 16" "unat (x AND 0x0FFFFFFF) = unat x mod 2 ^ 28" for x :: u32
proof -
  have "0xFF = (mask 8 :: u32)" "0x0F = (mask 4 :: u32)" "0x0FFFFFFF = (mask 28 :: u32)" by (simp_all add: mask_eq_exp_minus_1)
  then show "unat (x AND 0xFF) = unat x mod 256" "unat (x AND 0x0F) = unat x mod 16" "unat (x AND 0x0FFFFFFF) = unat x mod 2 ^ 28"
    by (simp_all only: take_bit_eq_mask [symmetric] unsigned_take_bit_eq) (simp_all add: take_bit_nat_def)
qed

lemma unat_low_byte: "unat (ucast (x AND 0xFF) :: u8) = unat x mod 256" "unat (ucast (x AND 0x0F) :: u8) = unat x mod 16" for x :: u32
proof -
  have "unat (x AND 0xFF) < 256" "unat (x AND 0x0F) < 256" unfolding unat_and_low by (simp_all add: trans_less_add1)
  then have "unat (ucast (x AND 0xFF) :: u8) = unat (x AND 0xFF)" "unat (ucast (x AND 0x0F) :: u8) = unat (x AND 0x0F)"
    unfolding ucast_as_of_nat by (simp_all only: unat_of_nat8)
  then show "unat (ucast (x AND 0xFF) :: u8) = unat x mod 256" "unat (ucast (x AND 0x0F) :: u8) = unat x mod 16"
    by (simp_all only: unat_and_low)
qed

lemma select_bits:
  "(0xE0 OR ucast (x AND 0x0F) :: u8) AND 0x0F = ucast (x AND 0x0F)" "(0xE0 OR ucast (x AND 0x0F) :: u8) AND 0x50 = 0x40" for x :: u32
proof -
  show "(0xE0 OR ucast (x AND 0x0F) :: u8) AND 0x0F = ucast (x AND 0x0F)"
    by (rule bit_eqI) (auto simp: bit_simps less_Suc_eq numeral_eq_Suc)
  show "(0xE0 OR ucast (x AND 0x0F) :: u8) AND 0x50 = 0x40"
    by (rule bit_eqI) (auto simp: bit_simps less_Suc_eq numeral_eq_Suc)
qed
lemma split_28: "L mod 2 ^ 28 = (L div 2 ^ 24 mod 16) * 2 ^ 24 + (L div 2 ^ 16 mod 256) * 2 ^ 16 + (L div 2 ^ 8 mod 256) * 2 ^ 8 + L mod 256"
  for L :: nat
  using mod_mult2_eq [of L 256 "2 ^ 20"] mod_mult2_eq [of "L div 256" 256 "2 ^ 12"] mod_mult2_eq [of "L div 256 div 256" 256 16]
  by (simp add: div_mult2_eq [symmetric])

lemma selected:
  "drive_at d0 (ata_select lba n p) = (drive_at d0 p)\<lparr>d_sel := 0xE0 OR ucast (drop_bit 24 lba AND 0x0F), d_count := n,
     d_lo := ucast (lba AND 0xFF), d_mid := ucast (drop_bit 8 lba AND 0xFF), d_hi := ucast (drop_bit 16 lba AND 0xFF)\<rparr>"
  by (simp add: ata_select_def Let_def)

lemma selected_lba: "d_lba (drive_at d0 (ata_select lba n p)) = lba28 lba"
proof -
  let ?d = "drive_at d0 (ata_select lba n p)"
  have r: "d_sel ?d = 0xE0 OR ucast (drop_bit 24 lba AND 0x0F)" "d_hi ?d = ucast (drop_bit 16 lba AND 0xFF)"
      "d_mid ?d = ucast (drop_bit 8 lba AND 0xFF)" "d_lo ?d = ucast (lba AND 0xFF)"
    by (simp_all add: selected)
  have k: "unat (drop_bit k lba) = unat lba div 2 ^ k" for k by (simp only: unat_drop_bit_eq) (simp add: drop_bit_eq_div)
  show ?thesis
    unfolding d_lba_def lba28_def unat_and_low r select_bits unat_low_byte k split_28 [of "unat lba"] by (rule refl)
qed

text \<open>A count of 0 means 256 sectors to the drive.\<close>

definition sectors_of :: "u8 \<Rightarrow> nat" where
  "sectors_of n = (if n = 0 then 256 else unat n)"

lemma command_accepted:
  assumes "d_mode (drive_at d0 p) = Idle" and "lba28 lba + sectors_of n \<le> d_size (drive_at d0 p)"
    and "c = CMD_READ_PIO \<and> md = Reading \<or> c = CMD_WRITE_PIO \<and> md = Writing"
  defines "p1 \<equiv> outb COMMAND_PORT c (ata_select lba n p)"
  shows "at_sector md (512 * lba28 lba) (sectors_of n) 0 (drive_at d0 p1)" "d_disk (drive_at d0 p1) = d_disk (drive_at d0 p)"
    "con p1 = con p"
proof -
  let ?d = "drive_at d0 (ata_select lba n p)"
  have d: "d_sectors ?d = sectors_of n" "d_mode ?d = Idle" "d_size ?d = d_size (drive_at d0 p)" "d_disk ?d = d_disk (drive_at d0 p)"
      "d_sel ?d AND 0x50 = 0x40"
    using assms(1) by (simp_all add: selected d_sectors_def sectors_of_def select_bits)
  have "0 < sectors_of n" by (simp add: sectors_of_def unat_gt_0)
  with d assms(2,3) selected_lba
  show "at_sector md (512 * lba28 lba) (sectors_of n) 0 (drive_at d0 p1)" "d_disk (drive_at d0 p1) = d_disk (drive_at d0 p)"
    unfolding p1_def by (auto simp: drive_command_def at_sector_def)
  show "con p1 = con p" by (simp add: p1_def ata_select_def Let_def)
qed

lemma command_refused:
  assumes "d_mode (drive_at d0 p) = Idle" and "d_size (drive_at d0 p) < lba28 lba + sectors_of n"
    and "c = CMD_READ_PIO \<or> c = CMD_WRITE_PIO"
  defines "p1 \<equiv> outb COMMAND_PORT c (ata_select lba n p)"
  shows "d_mode (drive_at d0 p1) = Idle" "d_err (drive_at d0 p1)" "con p1 = con p"
    "d_disk (drive_at d0 p1) = d_disk (drive_at d0 p)"
proof -
  let ?d = "drive_at d0 (ata_select lba n p)"
  have d: "d_sectors ?d = sectors_of n" "d_mode ?d = Idle" "d_size ?d = d_size (drive_at d0 p)" "d_disk ?d = d_disk (drive_at d0 p)"
    using assms(1) by (simp_all add: selected d_sectors_def sectors_of_def)
  with assms(2,3) selected_lba
  show "d_mode (drive_at d0 p1) = Idle" "d_err (drive_at d0 p1)" "d_disk (drive_at d0 p1) = d_disk (drive_at d0 p)"
    unfolding p1_def by (auto simp: drive_command_def)
  show "con p1 = con p" by (simp add: p1_def ata_select_def Let_def)
qed
section \<open>The transfers\<close>

lemma drive_event_size: "d_size (drive_event e d) = d_size d"
  by (cases e) (simp_all add: drive_command_def advance_def put_word_def)

lemma drive_size [simp]: "d_size (drive_after log d0) = d_size d0"
  by (induction log arbitrary: d0) (simp_all add: drive_after_def drive_event_size)

text \<open>
  C31. The port driver implements the sector transfers that the rest of the kernel is built on: on
  any drive, however long it stays busy before a sector, \<open>ata_read_sectors\<close> puts exactly the sectors
  asked for into the buffer and \<open>ata_write_sectors\<close> changes exactly these sectors to the contents of the
  buffer, each word moved only when the drive has asked for it; both return and leave the drive idle.
\<close>

theorem ata_pio_refines:
  assumes "ata_device dev d0" and "d_mode (drive_at d0 p) = Idle" and "lba28 lba + unat n \<le> d_size d0"
    and "n \<noteq> 0" and "a AND 1 = 0"
  shows "(\<exists>p'. ata_read_pio dev lba n a p m =
        Ret (p', m\<lparr>mem := mem_write (mem m) a (ata_read_sectors (d_disk (drive_at d0 p)) lba n)\<rparr>)
      \<and> con p' = con p \<and> d_mode (drive_at d0 p') = Idle \<and> d_disk (drive_at d0 p') = d_disk (drive_at d0 p))
    \<and> (\<exists>p'. ata_write_pio dev lba n a p m = Ret p' \<and> con p' = con p \<and> d_mode (drive_at d0 p') = Idle
      \<and> d_disk (drive_at d0 p') = ata_write_sectors (d_disk (drive_at d0 p)) lba n (mem_read (mem m) a (512 * unat n)))"
proof (intro conjI)
  have n: "sectors_of n = unat n" "unat n \<le> 256" using assms(4) unat_u8_less [of n] by (simp_all add: sectors_of_def)
  have fits: "lba28 lba + sectors_of n \<le> d_size (drive_at d0 p)" using assms(3) n(1) by simp
  let ?r = "outb COMMAND_PORT CMD_READ_PIO (ata_select lba n p)"
  note r = command_accepted [OF assms(2) fits disjI1 [OF conjI [OF refl refl]], unfolded n(1)]
  from read_sectors_run [OF assms(1) r(1) order_refl n(2), of a "mem m"] r(2,3)
  obtain p' where "ofold (\<lambda>k (p, mm). obind (await dev p) (\<lambda>p. Ret (read_words dev (a + 512 * of_nat k) 256 (p, mm)))) [0..<unat n] (?r, mem m)
      = Ret (p', mem_write (mem m) a (ata_read_sectors (d_disk (drive_at d0 p)) lba n))"
      "con p' = con p" "d_mode (drive_at d0 p') = Idle" "d_disk (drive_at d0 p') = d_disk (drive_at d0 p)"
    by (auto simp: at_sector_def ata_read_sectors_def)
  then show "\<exists>p'. ata_read_pio dev lba n a p m =
        Ret (p', m\<lparr>mem := mem_write (mem m) a (ata_read_sectors (d_disk (drive_at d0 p)) lba n)\<rparr>)
      \<and> con p' = con p \<and> d_mode (drive_at d0 p') = Idle \<and> d_disk (drive_at d0 p') = d_disk (drive_at d0 p)"
    using assms(5) unfolding ata_read_pio_def Let_def by (simp add: align_words_def obind_assoc)
  let ?w = "outb COMMAND_PORT CMD_WRITE_PIO (ata_select lba n p)"
  note w = command_accepted [OF assms(2) fits disjI2 [OF conjI [OF refl refl]], unfolded n(1)]
  have "(\<lambda>b. if 512 * lba28 lba \<le> b \<and> b < 512 * lba28 lba + 512 * unat n then mem m (a + of_nat (b - 512 * lba28 lba)) else d_disk (drive_at d0 p) b)
      = ata_write_sectors (d_disk (drive_at d0 p)) lba n (mem_read (mem m) a (512 * unat n))"
    by (auto simp: ata_write_sectors_def mem_read_def fun_eq_iff)
  with write_sectors_run [OF assms(1) w(1) order_refl, of "mem m" a, unfolded w(2,3)]
  obtain p' where "ofold (\<lambda>k p. obind (await dev p) (\<lambda>p. Ret (write_words (mem m) (a + 512 * of_nat k) 256 p))) [0..<unat n] ?w = Ret p'"
      "con p' = con p" "d_mode (drive_at d0 p') = Idle"
      "d_disk (drive_at d0 p') = ata_write_sectors (d_disk (drive_at d0 p)) lba n (mem_read (mem m) a (512 * unat n))"
    by (auto simp: at_sector_def)
  then show "\<exists>p'. ata_write_pio dev lba n a p m = Ret p' \<and> con p' = con p \<and> d_mode (drive_at d0 p') = Idle
      \<and> d_disk (drive_at d0 p') = ata_write_sectors (d_disk (drive_at d0 p)) lba n (mem_read (mem m) a (512 * unat n))"
    using assms(5) unfolding ata_write_pio_def Let_def by (simp add: align_words_def obind_assoc)
qed

text \<open>A drive that is never busy, as an example of a device with the documented behaviour.\<close>

definition ata_status :: "drive \<Rightarrow> u8" where
  "ata_status d = 0x40 OR (if d_mode d = Idle then 0 else STATUS_DRQ) OR (if d_err d then STATUS_ERR else 0)"

definition demo_disk :: drive where
  "demo_disk = \<lparr>d_disk = \<lambda>a. of_nat (a div 512), d_size = 1000, d_sel = 0, d_count = 0, d_lo = 0, d_mid = 0, d_hi = 0,
     d_mode = Idle, d_pos = 0, d_left = 0, d_grant = 0, d_err = False\<rparr>"

definition disk_device :: device where
  "disk_device = \<lparr>
     dev8 = \<lambda>log q. let d = drive_after log demo_disk in
       if q = STATUS_PORT then ata_status d else if q = LBA_MID_PORT then d_mid d else if q = LBA_HI_PORT then d_hi d else 0xFF,
     dev16 = \<lambda>log q. let d = drive_after log demo_disk in from_le [d_disk d (d_pos d), d_disk d (Suc (d_pos d))],
     dev32 = \<lambda>log q. 0xFFFFFFFF\<rparr>"

lemma ata_status_bits:
  "ata_status d \<noteq> 0" "ata_status d AND STATUS_BSY = 0" "ata_status d AND STATUS_DRQ \<noteq> 0 \<longleftrightarrow> d_mode d \<noteq> Idle"
  "ata_status d AND STATUS_ERR \<noteq> 0 \<longleftrightarrow> d_err d"
  by (simp_all add: ata_status_def)

lemma ata_status_read: "ata_status (drive_event (In8 q x) d) = ata_status d"
  by (simp add: ata_status_def)

lemma disk_device_ata: "ata_device disk_device demo_disk"
  unfolding ata_device_def Let_def
proof (intro conjI allI impI)
  fix log q x
  show "dev8 disk_device (log @ [In8 q x]) STATUS_PORT = dev8 disk_device log STATUS_PORT"
    using ata_status_read by (simp add: disk_device_def drive_after_def del: drive_event.simps)
  show "to_le 2 (dev16 disk_device log DATA_PORT) =
      [d_disk (drive_after log demo_disk) (d_pos (drive_after log demo_disk)),
       d_disk (drive_after log demo_disk) (Suc (d_pos (drive_after log demo_disk)))]"
    using to_le_from_le [of "[x, y]" for x y, where 'a = 16] by (simp add: disk_device_def Let_def numeral_2_eq_2)
  show "\<exists>n. ready_after disk_device STATUS_PORT (\<lambda>v. v AND STATUS_BSY = 0) n p" for p
    by (rule exI [of _ 0]) (simp add: ready_after_def inb_def disk_device_def Let_def ata_status_bits)
qed (simp_all add: disk_device_def Let_def ata_status_bits)

theorem ata_pio_refines_witness:
  "(\<exists>p'. ata_read_pio disk_device 7 2 0x2000 platform_demo machine_demo =
        Ret (p', machine_demo\<lparr>mem := mem_write (mem machine_demo) 0x2000 (ata_read_sectors (d_disk demo_disk) 7 2)\<rparr>))
    \<and> (\<exists>p'. ata_write_pio disk_device 7 2 0x2000 platform_demo machine_demo = Ret p'
      \<and> d_disk (drive_at demo_disk p') = ata_write_sectors (d_disk demo_disk) 7 2 (mem_read (mem machine_demo) 0x2000 1024))"
proof -
  have d: "drive_at demo_disk platform_demo = demo_disk" by (simp add: platform_demo_def drive_after_def)
  have "d_mode (drive_at demo_disk platform_demo) = Idle" "lba28 7 + unat (2 :: u8) \<le> d_size demo_disk" "(2 :: u8) \<noteq> 0"
      "(0x2000 :: u64) AND 1 = 0"
    unfolding d by (simp_all add: demo_disk_def lba28_def)
  from ata_pio_refines [OF disk_device_ata this, of machine_demo] show ?thesis unfolding d by auto
qed

section \<open>Start-up and failures\<close>

lemma identify_words:
  assumes "d_mode (drive_at d0 p) = Identifying" and "n \<le> d_grant (drive_at d0 p)" and "d_grant (drive_at d0 p) \<le> d_left (drive_at d0 p)"
    and "0 < d_left (drive_at d0 p)"
  shows "drive_at d0 (fold (\<lambda>_ p. snd (inw dev DATA_PORT p)) [0..<n] p) = moved n (drive_at d0 p)
    \<and> con (fold (\<lambda>_ p. snd (inw dev DATA_PORT p)) [0..<n] p) = con p"
  using assms(2)
proof (induction n)
  case 0
  then show ?case using assms(4) by (cases "drive_at d0 p") (simp add: moved_def)
next
  case (Suc n)
  let ?p1 = "fold (\<lambda>_ p. snd (inw dev DATA_PORT p)) [0..<n] p"
  have "drive_at d0 ?p1 = moved n (drive_at d0 p)" "con ?p1 = con p" using Suc by simp_all
  then show ?case using assms(1,3) Suc.prems by (simp add: moved_advance) (simp add: moved_def)
qed
lemma identify_accepted:
  assumes "d_mode (drive_at d0 p) = Idle"
  defines "p1 \<equiv> outb COMMAND_PORT CMD_IDENTIFY (outb LBA_HI_PORT 0 (outb LBA_MID_PORT 0 (outb LBA_LO_PORT 0
      (outb SECT_COUNT_PORT 0 (outb DRIVE_PORT 0xA0 p)))))"
  shows "d_mode (drive_at d0 p1) = Identifying" "d_left (drive_at d0 p1) = 256" "d_mid (drive_at d0 p1) = 0"
    "d_hi (drive_at d0 p1) = 0" "d_disk (drive_at d0 p1) = d_disk (drive_at d0 p)" "con p1 = con p"
  using assms(1) by (simp_all add: p1_def drive_command_def)

lemma wait_bsy_hang:
  assumes "\<And>log. dev8 dev log STATUS_PORT AND STATUS_BSY \<noteq> 0"
  shows "ata_wait_bsy dev p = Hang"
  using assms
  by (cases rule: wait_until_cases [of dev STATUS_PORT "\<lambda>v. v AND STATUS_BSY = 0" p])
    (simp_all add: ata_wait_bsy_def ready_after_def inb_def Let_def)

lemma ata_init_run:
  assumes dev: "ata_device dev d0" and "d_mode (drive_at d0 p) = Idle"
  shows "\<exists>p1. ata_init dev p = announce LightBlue (lit ''[ATA] Primary Master Drive initialized.'' @ newline) p1
    \<and> con p1 = con p \<and> d_mode (drive_at d0 p1) = Idle \<and> d_disk (drive_at d0 p1) = d_disk (drive_at d0 p)"
proof -
  define p1 where "p1 = outb COMMAND_PORT CMD_IDENTIFY (outb LBA_HI_PORT 0 (outb LBA_MID_PORT 0 (outb LBA_LO_PORT 0
      (outb SECT_COUNT_PORT 0 (outb DRIVE_PORT 0xA0 p)))))"
  define p2 where "p2 = snd (inb dev STATUS_PORT p1)"
  note id = identify_accepted [OF assms(2), folded p1_def]
  have "\<exists>g. drive_at d0 p2 = (drive_at d0 p1)\<lparr>d_grant := g\<rparr>"
    unfolding p2_def by (cases "drive_at d0 p1") auto
  then have g: "granted (drive_at d0 p2) = (drive_at d0 p1)\<lparr>d_grant := 256\<rparr>"
    using id(1,2) by (auto simp: granted_def)
  obtain p3 where p3: "ata_wait_bsy dev p2 = Ret p3" "con p3 = con p2" "calm dev p3" "drive_at d0 p3 = (drive_at d0 p1)\<lparr>d_grant := 256\<rparr>"
    using wait_bsy_run [OF dev, of p2] g by auto
  define p4 where "p4 = snd (inb dev LBA_MID_PORT p3)"
  define p5 where "p5 = snd (inb dev LBA_HI_PORT p4)"
  have d45: "drive_at d0 p4 = drive_at d0 p3" "drive_at d0 p5 = drive_at d0 p3" "con p5 = con p3" by (simp_all add: p4_def p5_def)
  have regs: "fst (inb dev LBA_MID_PORT p3) = 0" "fst (inb dev LBA_HI_PORT p4) = 0"
    using ata_deviceD(6,7) [OF dev] id(3,4) p3(4) d45(1) by simp_all
  have "calm dev p5" unfolding p4_def p5_def by (intro status_read(2) [OF dev] p3(3))
  moreover have mode5: "d_mode (drive_at d0 p5) = Identifying" using p3(4) id(1) d45 by simp
  moreover define p6 where "p6 = snd (inb dev STATUS_PORT p5)"
  ultimately have p6: "ata_wait_drq dev p5 = Ret p6" "drive_at d0 p6 = (drive_at d0 p1)\<lparr>d_grant := 256\<rparr>" "con p6 = con p5"
    using wait_drq_run(1) [OF dev, of p5] status_read(1) [OF dev, of p5] p3(4) id(1,2) d45(2)
    by (simp_all add: granted_def del: drive_at_simps(3))
  define p7 where "p7 = fold (\<lambda>_ p. snd (inw dev DATA_PORT p)) [0..<256] p6"
  have "drive_at d0 p7 = moved 256 (drive_at d0 p6) \<and> con p7 = con p6"
    unfolding p7_def by (rule identify_words) (use p6(2) id(1,2) in simp_all)
  then have "d_mode (drive_at d0 p7) = Idle" "d_disk (drive_at d0 p7) = d_disk (drive_at d0 p)" "con p7 = con p"
    using p6(2,3) id(2,5,6) d45(3) p3(2) by (simp_all add: moved_def p2_def)
  moreover have "fst (inb dev STATUS_PORT p1) \<noteq> 0" using ata_deviceD(1) [OF dev, of p1] by (simp add: inb_def Let_def)
  then have "ata_init dev p = announce LightBlue (lit ''[ATA] Primary Master Drive initialized.'' @ newline) p7"
    unfolding ata_init_def Let_def p1_def [symmetric]
    using p3(1) p6(1) regs by (simp add: case_prod_beta p2_def [symmetric] p4_def [symmetric] p5_def [symmetric] p7_def)
  ultimately show ?thesis by blast
qed

text \<open>
  The probe at start-up: a drive is identified and left idle with its contents unchanged, and the
  driver says so; a status of 0 is reported as a missing drive; on a bus without a controller, where
  every read gives 0xFF, the probe waits for ever and the kernel does not start.
\<close>

theorem ata_init_exact:
  assumes "cursor_shown (con p)"
  shows "(ata_device dev d0 \<and> d_mode (drive_at d0 p) = Idle \<longrightarrow>
      (\<exists>p1 p'. ata_init dev p = Ret p' \<and> announce LightBlue (lit ''[ATA] Primary Master Drive initialized.'' @ newline) p1 = Ret p'
        \<and> con p1 = con p \<and> cursor_shown (con p')
        \<and> d_mode (drive_at d0 p') = Idle \<and> d_disk (drive_at d0 p') = d_disk (drive_at d0 p)))
    \<and> ((\<forall>log. dev8 dev log STATUS_PORT = 0) \<longrightarrow>
      (\<exists>p'. ata_init dev p = Ret p' \<and> print (lit ''[ATA] Primary Master Drive does NOT exist.'' @ newline) (con p) = Ret (con p')))
    \<and> ((\<forall>log. dev8 dev log STATUS_PORT = 0xFF) \<longrightarrow> ata_init dev p = Hang)"
proof (intro conjI impI)
  assume "ata_device dev d0 \<and> d_mode (drive_at d0 p) = Idle"
  then obtain p1 where "ata_init dev p = announce LightBlue (lit ''[ATA] Primary Master Drive initialized.'' @ newline) p1"
      "con p1 = con p" "d_mode (drive_at d0 p1) = Idle" "d_disk (drive_at d0 p1) = d_disk (drive_at d0 p)"
    using ata_init_run by blast
  with announce_returns [of p1 LightBlue "lit ''[ATA] Primary Master Drive initialized.'' @ newline"] assms
  show "\<exists>p1 p'. ata_init dev p = Ret p' \<and> announce LightBlue (lit ''[ATA] Primary Master Drive initialized.'' @ newline) p1 = Ret p'
        \<and> con p1 = con p \<and> cursor_shown (con p')
        \<and> d_mode (drive_at d0 p') = Idle \<and> d_disk (drive_at d0 p') = d_disk (drive_at d0 p)"
    by (metis (no_types, lifting))
next
  assume "\<forall>log. dev8 dev log STATUS_PORT = 0"
  then show "\<exists>p'. ata_init dev p = Ret p' \<and> print (lit ''[ATA] Primary Master Drive does NOT exist.'' @ newline) (con p) = Ret (con p')"
    using print_shown [OF assms, of "lit ''[ATA] Primary Master Drive does NOT exist.'' @ newline"]
    by (auto simp: ata_init_def Let_def inb_def say_def on_con_def outb_def)
next
  assume "\<forall>log. dev8 dev log STATUS_PORT = 0xFF"
  then show "ata_init dev p = Hang"
    using wait_bsy_hang [of dev] by (simp add: ata_init_def Let_def inb_def)
qed

theorem ata_init_exact_witness:
  "(\<exists>p'. ata_init disk_device platform_demo = Ret p' \<and> d_disk (drive_at demo_disk p') = d_disk demo_disk)
   \<and> ata_init quiet_device platform_demo = Hang"
proof
  have d: "drive_at demo_disk platform_demo = demo_disk" by (simp add: platform_demo_def drive_after_def)
  have "d_mode demo_disk = Idle" by (simp add: demo_disk_def)
  then show "\<exists>p'. ata_init disk_device platform_demo = Ret p' \<and> d_disk (drive_at demo_disk p') = d_disk demo_disk"
    using ata_init_exact [OF platform_demo_shown, of disk_device demo_disk] disk_device_ata unfolding d by blast
  show "ata_init quiet_device platform_demo = Hang"
    using ata_init_exact [OF platform_demo_shown, of quiet_device demo_disk] by (simp add: quiet_device_def)
qed

lemma read_words_any:
  assumes "d_mode (drive_at d0 p) = Idle" and "n \<le> 256"
  shows "\<exists>p1 bs. read_words dev a n (p, mm) = (p1, mem_write mm a bs) \<and> length bs = 2 * n
    \<and> con p1 = con p \<and> drive_at d0 p1 = drive_at d0 p"
  using assms(2)
proof (induction n)
  case 0
  then show ?case by (simp add: read_words_def mem_write_def)
next
  case (Suc n)
  then obtain p1 bs where p1: "read_words dev a n (p, mm) = (p1, mem_write mm a bs)" "length bs = 2 * n" "con p1 = con p"
    "drive_at d0 p1 = drive_at d0 p" by auto
  let ?w = "to_le 2 (fst (inw dev DATA_PORT p1))"
  have "read_words dev a (Suc n) (p, mm) = (snd (inw dev DATA_PORT p1), mem_write (mem_write mm a bs) (a + 2 * of_nat n) ?w)"
    using p1(1) by (simp add: read_words_def case_prod_beta)
  also have "\<dots> = (snd (inw dev DATA_PORT p1), mem_write mm a (bs @ ?w))"
    using mem_write_append [of bs ?w mm a] p1(2) Suc.prems by simp
  finally show ?case
    using p1(2-4) assms(1) by (intro exI [of _ "snd (inw dev DATA_PORT p1)"] exI [of _ "bs @ ?w"]) simp
qed

lemma concat_replicate_Suc: "concat (replicate (Suc k) xs) = concat (replicate k xs) @ xs"
  by (simp flip: replicate_append_same)

abbreviation drq_message :: rstr where
  "drq_message \<equiv> lit ''[ATA] Error during DRQ wait!'' @ newline"

lemma failed_sectors_run:
  assumes "ata_device dev d0" and "d_mode (drive_at d0 p) = Idle" and "d_err (drive_at d0 p)"
    and "cursor_shown (con p)" and "k \<le> 256"
  shows "\<exists>p1 bs. ofold (\<lambda>k (p, mm). obind (await dev p) (\<lambda>p. Ret (read_words dev (a + 512 * of_nat k) 256 (p, mm)))) [0..<k] (p, mm)
      = Ret (p1, mem_write mm a bs) \<and> length bs = 512 * k \<and> drive_at d0 p1 = drive_at d0 p
    \<and> print (concat (replicate k drq_message)) (con p) = Ret (con p1) \<and> cursor_shown (con p1)"
  using assms(5)
proof (induction k)
  case 0
  then show ?case using assms(4) by (auto simp: mem_write_def print_def)
next
  case (Suc k)
  let ?f = "\<lambda>k (p, mm). obind (await dev p) (\<lambda>p. Ret (read_words dev (a + 512 * of_nat k) 256 (p, mm)))"
  obtain p1 bs where p1: "ofold ?f [0..<k] (p, mm) = Ret (p1, mem_write mm a bs)" "length bs = 512 * k"
      "drive_at d0 p1 = drive_at d0 p" "print (concat (replicate k drq_message)) (con p) = Ret (con p1)" "cursor_shown (con p1)"
    using Suc by auto
  obtain p2 where p2: "ata_wait_bsy dev p1 = Ret p2" "con p2 = con p1" "calm dev p2" "drive_at d0 p2 = drive_at d0 p"
    using wait_bsy_run [OF assms(1), of p1] p1(3) assms(2) by (auto simp: granted_def)
  define p3 where "p3 = snd (inb dev STATUS_PORT (snd (inb dev STATUS_PORT p2)))"
  have p3: "drive_at d0 p3 = drive_at d0 p" "con p3 = con p1" using assms(2) p2(2,4) by (simp_all add: p3_def)
  obtain c where c: "print drq_message (con p1) = Ret c" "cursor_shown c" using print_shown [OF p1(5)] by blast
  then have drq: "ata_wait_drq dev p2 = Ret (p3\<lparr>con := c\<rparr>)"
    using wait_drq_run(2) [OF assms(1) p2(3)] p2(4) assms(2,3) p3(2) by (simp add: say_def on_con_def p3_def)
  obtain p4 bs' where p4: "read_words dev (a + 512 * of_nat k) 256 (p3\<lparr>con := c\<rparr>, mem_write mm a bs)
      = (p4, mem_write (mem_write mm a bs) (a + 512 * of_nat k) bs')" "length bs' = 512" "con p4 = c" "drive_at d0 p4 = drive_at d0 p"
    using read_words_any [of "p3\<lparr>con := c\<rparr>" d0 256 dev "a + 512 * of_nat k" "mem_write mm a bs"] p3(1) assms(2) by auto
  have "mem_write (mem_write mm a bs) (a + 512 * of_nat k) bs' = mem_write mm a (bs @ bs')"
    using mem_write_append [of bs bs' mm a] p1(2) p4(2) Suc.prems by simp
  moreover have "print (concat (replicate (Suc k) drq_message)) (con p) = Ret (con p4)"
    using p1(4) c(1) p4(3) unfolding concat_replicate_Suc print_append [of "concat _"] by simp
  ultimately show ?case
    using p1(1,2) p2(1) drq p4 c(2) by (intro exI [of _ p4] exI [of _ "bs @ bs'"]) (simp add: ofold_append)
qed
text \<open>
  A failed read is not reported to the caller: when the drive refuses the command, because the
  sectors lie beyond its end, the driver prints one message per sector, fills the whole buffer with
  whatever the data port gives, and returns as after a success.
\<close>

theorem ata_failure_unreported:
  assumes "ata_device dev d0" and "d_mode (drive_at d0 p) = Idle" and "cursor_shown (con p)"
    and "d_size d0 < lba28 lba + unat n" and "n \<noteq> 0" and "a AND 1 = 0"
  shows "\<exists>p' bs. ata_read_pio dev lba n a p m = Ret (p', m\<lparr>mem := mem_write (mem m) a bs\<rparr>) \<and> length bs = 512 * unat n
    \<and> print (concat (replicate (unat n) drq_message)) (con p) = Ret (con p')
    \<and> d_disk (drive_at d0 p') = d_disk (drive_at d0 p)"
proof -
  have "d_size (drive_at d0 p) < lba28 lba + sectors_of n" using assms(4,5) by (simp add: sectors_of_def)
  note r = command_refused [OF assms(2) this disjI1 [OF refl]]
  have "unat n \<le> 256" using unat_u8_less [of n] by simp
  from failed_sectors_run [OF assms(1) r(1,2) _ this, unfolded r(3,4), OF assms(3), of a "mem m"]
  obtain p' bs where "ofold (\<lambda>k (p, mm). obind (await dev p) (\<lambda>p. Ret (read_words dev (a + 512 * of_nat k) 256 (p, mm))))
        [0..<unat n] (outb COMMAND_PORT CMD_READ_PIO (ata_select lba n p), mem m) = Ret (p', mem_write (mem m) a bs)"
      "length bs = 512 * unat n" "drive_at d0 p' = drive_at d0 (outb COMMAND_PORT CMD_READ_PIO (ata_select lba n p))"
      "print (concat (replicate (unat n) drq_message)) (con p) = Ret (con p')" by blast
  then show ?thesis
    using assms(6) r(4) unfolding ata_read_pio_def Let_def
    by (intro exI [of _ p'] exI [of _ bs]) (simp add: align_words_def obind_assoc)
qed

theorem ata_failure_unreported_witness:
  "\<exists>p' bs. ata_read_pio disk_device 5000 1 0x2000 platform_demo machine_demo =
      Ret (p', machine_demo\<lparr>mem := mem_write (mem machine_demo) 0x2000 bs\<rparr>) \<and> length bs = 512"
proof -
  have d: "drive_at demo_disk platform_demo = demo_disk" by (simp add: platform_demo_def drive_after_def)
  have "d_mode (drive_at demo_disk platform_demo) = Idle" "d_size demo_disk < lba28 5000 + unat (1 :: u8)" "(1 :: u8) \<noteq> 0"
      "(0x2000 :: u64) AND 1 = 0"
    unfolding d by (simp_all add: demo_disk_def lba28_def)
  with ata_failure_unreported [OF disk_device_ata, of platform_demo 5000 1 "0x2000" machine_demo] show ?thesis by auto
qed

text \<open>
  A transfer of 0 sectors, which the Rust driver asks for when it reads nothing or a multiple of
  256 sectors, is a transfer of 256 sectors to the drive: the driver returns at once and leaves the
  drive in the middle of it. When the buffer is empty its address is 1, as for every empty \<open>Vec<u8>\<close>,
  and the build with runtime checks panics.
\<close>

theorem ata_zero_sectors:
  assumes "d_mode (drive_at d0 p) = Idle" and "lba28 lba + 256 \<le> d_size d0"
  shows "(a AND 1 = 0 \<longrightarrow> (\<exists>p'. ata_read_pio dev lba 0 a p m = Ret (p', m) \<and> d_mode (drive_at d0 p') = Reading
      \<and> d_left (drive_at d0 p') = 256 * 256))
    \<and> ata_read_pio dev lba 0 1 p m = (if zig_safety m then Panic else Undef)"
  using command_accepted(1) [OF assms(1), of lba 0 CMD_READ_PIO Reading] assms(2)
  by (simp add: ata_read_pio_def Let_def align_words_def sectors_of_def at_sector_def)

theorem ata_zero_sectors_witness:
  "ata_read_pio disk_device 0 0 1 platform_demo (machine_demo\<lparr>zig_safety := True\<rparr>) = Panic"
  using ata_zero_sectors [of platform_demo demo_disk 0 1 disk_device "machine_demo\<lparr>zig_safety := True\<rparr>"]
  by (simp add: platform_demo_def drive_after_def demo_disk_def lba28_def)

end
