(* ===== verification/Pci.thy ===== *)
theory Pci
  imports Ports
begin

text \<open>
  The PCI bus scan of \<open>drivers/pci.zig\<close>: configuration reads through the ports \<open>0xCF8\<close> and \<open>0xCFC\<close>
  and the report on the screen. What the host bridge answers is a parameter; \<open>config_space\<close> states
  the documented mechanism, that the data port shows the register the address port selects.
\<close>

section \<open>Operations\<close>

abbreviation CONFIG_ADDRESS :: u16 where "CONFIG_ADDRESS \<equiv> 0xCF8"
abbreviation CONFIG_DATA :: u16 where "CONFIG_DATA \<equiv> 0xCFC"

definition pci_address :: "u8 \<Rightarrow> u8 \<Rightarrow> u8 \<Rightarrow> u8 \<Rightarrow> u32" where
  "pci_address bus slot func offset =
     push_bit 16 (ucast bus) OR push_bit 11 (ucast slot) OR push_bit 8 (ucast func) OR ucast (offset AND 0xFC) OR 0x80000000"

definition pci_config_read_dword :: "device \<Rightarrow> u8 \<Rightarrow> u8 \<Rightarrow> u8 \<Rightarrow> u8 \<Rightarrow> platform \<Rightarrow> u32 \<times> platform" where
  "pci_config_read_dword dev bus slot func offset p =
     inl dev CONFIG_DATA (outl CONFIG_ADDRESS (pci_address bus slot func offset) p)"

definition pci_config_read_word :: "device \<Rightarrow> u8 \<Rightarrow> u8 \<Rightarrow> u8 \<Rightarrow> u8 \<Rightarrow> platform \<Rightarrow> u16 \<times> platform" where
  "pci_config_read_word dev bus slot func offset p =
     (case pci_config_read_dword dev bus slot func offset p of (dword, p1) \<Rightarrow>
      (ucast (drop_bit (unat ((offset AND 2) * 8)) dword), p1))"

definition get_vendor_id :: "device \<Rightarrow> u8 \<Rightarrow> u8 \<Rightarrow> u8 \<Rightarrow> platform \<Rightarrow> u16 \<times> platform" where
  "get_vendor_id dev bus slot func p = pci_config_read_word dev bus slot func 0 p"

definition get_device_id :: "device \<Rightarrow> u8 \<Rightarrow> u8 \<Rightarrow> u8 \<Rightarrow> platform \<Rightarrow> u16 \<times> platform" where
  "get_device_id dev bus slot func p = pci_config_read_word dev bus slot func 2 p"

definition get_class_id :: "device \<Rightarrow> u8 \<Rightarrow> u8 \<Rightarrow> u8 \<Rightarrow> platform \<Rightarrow> u8 \<times> platform" where
  "get_class_id dev bus slot func p =
     (case pci_config_read_word dev bus slot func 0x0A p of (r, p1) \<Rightarrow> (ucast (drop_bit 8 r), p1))"

definition get_subclass_id :: "device \<Rightarrow> u8 \<Rightarrow> u8 \<Rightarrow> u8 \<Rightarrow> platform \<Rightarrow> u8 \<times> platform" where
  "get_subclass_id dev bus slot func p =
     (case pci_config_read_word dev bus slot func 0x0A p of (r, p1) \<Rightarrow> (ucast (r AND 0xFF), p1))"

definition get_header_type :: "device \<Rightarrow> u8 \<Rightarrow> u8 \<Rightarrow> u8 \<Rightarrow> platform \<Rightarrow> u8 \<times> platform" where
  "get_header_type dev bus slot func p =
     (case pci_config_read_word dev bus slot func 0x0E p of (r, p1) \<Rightarrow> (ucast (r AND 0xFF), p1))"

definition check_function :: "device \<Rightarrow> u8 \<Rightarrow> u8 \<Rightarrow> u8 \<Rightarrow> platform \<Rightarrow> platform outcome" where
  "check_function dev bus slot func p =
     (case get_vendor_id dev bus slot func p of (vendor_id, p) \<Rightarrow>
      if vendor_id = 0xFFFF then Ret p
      else case get_device_id dev bus slot func p of (device_id, p) \<Rightarrow>
           case get_class_id dev bus slot func p of (class_id, p) \<Rightarrow>
           case get_subclass_id dev bus slot func p of (subclass_id, p) \<Rightarrow>
           obind (say (lit ''  * Bus '') p) (\<lambda>p.
           obind (on_con (print_dec (ucast bus)) p) (\<lambda>p.
           obind (say (lit '', Slot '') p) (\<lambda>p.
           obind (on_con (print_dec (ucast slot)) p) (\<lambda>p.
           obind (say (lit '', Func '') p) (\<lambda>p.
           obind (on_con (print_dec (ucast func)) p) (\<lambda>p.
           obind (say (lit '' | Vendor: '') p) (\<lambda>p.
           obind (on_con (print_hex (ucast vendor_id)) p) (\<lambda>p.
           obind (say (lit '', Device: '') p) (\<lambda>p.
           obind (on_con (print_hex (ucast device_id)) p) (\<lambda>p.
           obind (say (lit '', Class: '') p) (\<lambda>p.
           obind (on_con (print_hex (ucast class_id)) p) (\<lambda>p.
           obind (say (lit '':'') p) (\<lambda>p.
           obind (on_con (print_hex (ucast subclass_id)) p) (\<lambda>p.
           say newline p)))))))))))))))"

definition check_device :: "device \<Rightarrow> u8 \<Rightarrow> u8 \<Rightarrow> platform \<Rightarrow> platform outcome" where
  "check_device dev bus slot p =
     (case get_vendor_id dev bus slot 0 p of (vendor_id, p) \<Rightarrow>
      if vendor_id = 0xFFFF then Ret p
      else obind (check_function dev bus slot 0 p) (\<lambda>p.
           case get_header_type dev bus slot 0 p of (header_type, p) \<Rightarrow>
           if header_type AND 0x80 \<noteq> 0
           then ofold (\<lambda>func. check_function dev bus slot (of_nat func)) [1..<8] p else Ret p))"

definition pci_init :: "device \<Rightarrow> platform \<Rightarrow> platform outcome" where
  "pci_init dev p =
     obind (say (lit ''[PCI] Enumerating PCI Bus...'' @ newline) p) (\<lambda>p.
     obind (ofold (\<lambda>bus. ofold (\<lambda>slot. check_device dev (of_nat bus) (of_nat slot)) [0..<32]) [0..<256] p) (\<lambda>p.
     say (lit ''[PCI] Enumeration complete.'' @ newline) p))"

section \<open>Addresses\<close>

text \<open>The fields of a configuration address, as the bridge reads them.\<close>

definition addr_fields :: "u32 \<Rightarrow> nat \<times> nat \<times> nat \<times> nat" where
  "addr_fields a = (unat (take_bit 8 (drop_bit 16 a)), unat (take_bit 5 (drop_bit 11 a)),
                    unat (take_bit 3 (drop_bit 8 a)), unat (take_bit 8 a))"

lemma bit_below: "w < (2 :: 'a::len word) ^ k \<Longrightarrow> k < LENGTH('a) \<Longrightarrow> bit w n \<Longrightarrow> n < k"
  by (metis bit_take_bit_iff less_mask_eq take_bit_eq_mask)

lemma unat_ucast_u8_u32: "unat (ucast (w :: u8) :: u32) = unat w"
  using unat_u8_less [of w] by (simp add: unsigned_ucast_eq take_bit_nat_eq_self)

lemma pci_address_fields:
  assumes "slot < 32" and "func < 8"
  shows "addr_fields (pci_address bus slot func offset)
    = (unat bus, unat slot, unat func, unat (offset AND 0xFC)) \<and> bit (pci_address bus slot func offset) 31"
proof -
  define a where "a = pci_address bus slot func offset"
  define r where "r = offset AND 0xFC"
  have top: "(0x80000000 :: u32) = push_bit 31 1" by simp
  have small: "bit slot n \<Longrightarrow> n < 5" "bit func n \<Longrightarrow> n < 3" "bit bus n \<Longrightarrow> n < 8" "bit r n \<Longrightarrow> n < 8" for n
    using bit_below [of slot 5 n] bit_below [of func 3 n] assms by (auto dest: bit_imp_le_length)
  have "take_bit 8 (drop_bit 16 a) = ucast bus" "take_bit 5 (drop_bit 11 a) = ucast slot"
    "take_bit 3 (drop_bit 8 a) = ucast func" "take_bit 8 a = ucast r"
    unfolding a_def pci_address_def r_def [symmetric] top
    by (rule bit_word_eqI; auto simp: bit_simps bit_1_iff dest: small)+
  moreover have "bit a 31"
    unfolding a_def pci_address_def top by (simp add: bit_simps)
  ultimately show ?thesis by (simp add: addr_fields_def a_def [symmetric] r_def [symmetric] unat_ucast_u8_u32)
qed

section \<open>The scan\<close>

text \<open>The documented configuration mechanism: the data port shows the register that was selected.\<close>

definition config_space :: "device \<Rightarrow> (u32 \<Rightarrow> u32) \<Rightarrow> bool" where
  "config_space dev cfg \<longleftrightarrow> (\<forall>log a. dev32 dev (log @ [Out32 CONFIG_ADDRESS a]) CONFIG_DATA = cfg a)"

text \<open>The fields of a function in its configuration registers, and the functions that exist.\<close>

definition cfg_word :: "(u32 \<Rightarrow> u32) \<Rightarrow> u8 \<Rightarrow> u8 \<Rightarrow> u8 \<Rightarrow> u8 \<Rightarrow> bool \<Rightarrow> u16" where
  "cfg_word cfg bus slot func reg high =
     (if high then ucast (drop_bit 16 (cfg (pci_address bus slot func reg))) else ucast (cfg (pci_address bus slot func reg)))"

definition vendor :: "(u32 \<Rightarrow> u32) \<Rightarrow> u8 \<Rightarrow> u8 \<Rightarrow> u8 \<Rightarrow> u16" where
  "vendor cfg bus slot func = cfg_word cfg bus slot func 0 False"

definition multi_function :: "(u32 \<Rightarrow> u32) \<Rightarrow> u8 \<Rightarrow> u8 \<Rightarrow> bool" where
  "multi_function cfg bus slot \<longleftrightarrow> bit (cfg_word cfg bus slot 0 12 True) 7"

definition slot_functions :: "(u32 \<Rightarrow> u32) \<Rightarrow> u8 \<Rightarrow> u8 \<Rightarrow> u8 list" where
  "slot_functions cfg bus slot =
     (if vendor cfg bus slot 0 = 0xFFFF then []
      else filter (\<lambda>func. vendor cfg bus slot func \<noteq> 0xFFFF)
             (0 # (if multi_function cfg bus slot then map of_nat [1..<8] else [])))"

definition function_line :: "(u32 \<Rightarrow> u32) \<Rightarrow> u8 \<Rightarrow> u8 \<Rightarrow> u8 \<Rightarrow> rstr" where
  "function_line cfg bus slot func =
     lit ''  * Bus '' @ dec_text (ucast bus) @ lit '', Slot '' @ dec_text (ucast slot) @ lit '', Func ''
     @ dec_text (ucast func) @ lit '' | Vendor: '' @ hex_text (ucast (vendor cfg bus slot func))
     @ lit '', Device: '' @ hex_text (ucast (cfg_word cfg bus slot func 0 True))
     @ lit '', Class: '' @ hex_text (ucast (ucast (drop_bit 8 (cfg_word cfg bus slot func 8 True)) :: u8))
     @ lit '':'' @ hex_text (ucast (ucast (take_bit 8 (cfg_word cfg bus slot func 8 True)) :: u8)) @ newline"

definition slot_report :: "(u32 \<Rightarrow> u32) \<Rightarrow> u8 \<Rightarrow> u8 \<Rightarrow> rstr" where
  "slot_report cfg bus slot = concat (map (function_line cfg bus slot) (slot_functions cfg bus slot))"

lemma mask8: "(x :: u16) AND 0xFF = take_bit 8 x"
proof -
  have "(0xFF :: u16) = mask 8" by (simp add: mask_eq_exp_minus_1)
  then show ?thesis by (simp add: take_bit_eq_mask)
qed

lemma config_read:
  assumes "config_space dev cfg"
  shows "fst (pci_config_read_word dev bus slot func offset p)
      = ucast (drop_bit (unat ((offset AND 2) * 8)) (cfg (pci_address bus slot func offset)))"
    and "con (snd (pci_config_read_word dev bus slot func offset p)) = con p"
  using assms
  by (simp_all add: pci_config_read_word_def pci_config_read_dword_def config_space_def inl_def outl_def Let_def)

lemma pci_address_high [simp]:
  "pci_address bus slot func 2 = pci_address bus slot func 0"
  "pci_address bus slot func 10 = pci_address bus slot func 8"
  "pci_address bus slot func 14 = pci_address bus slot func 12"
  by (simp_all add: pci_address_def)

lemma field_reads:
  assumes "config_space dev cfg"
  shows "fst (get_vendor_id dev bus slot func p) = vendor cfg bus slot func"
    and "fst (get_device_id dev bus slot func p) = cfg_word cfg bus slot func 0 True"
    and "fst (get_class_id dev bus slot func p) = ucast (drop_bit 8 (cfg_word cfg bus slot func 8 True))"
    and "fst (get_subclass_id dev bus slot func p) = ucast (take_bit 8 (cfg_word cfg bus slot func 8 True))"
    and "fst (get_header_type dev bus slot func p) = ucast (take_bit 8 (cfg_word cfg bus slot func 12 True))"
  using config_read [OF assms]
  by (simp_all add: get_vendor_id_def get_device_id_def get_class_id_def get_subclass_id_def get_header_type_def
      vendor_def cfg_word_def case_prod_beta mask8)

lemma field_reads_con:
  assumes "config_space dev cfg"
  shows "con (snd (get_vendor_id dev bus slot func p)) = con p"
    and "con (snd (get_device_id dev bus slot func p)) = con p"
    and "con (snd (get_class_id dev bus slot func p)) = con p"
    and "con (snd (get_subclass_id dev bus slot func p)) = con p"
    and "con (snd (get_header_type dev bus slot func p)) = con p"
  using config_read [OF assms]
  by (simp_all add: get_vendor_id_def get_device_id_def get_class_id_def get_subclass_id_def get_header_type_def
      case_prod_beta)

lemma prints_vendor:
  assumes "config_space dev cfg" and "prints (X (vendor cfg bus slot func)) t"
  shows "prints (\<lambda>p. case get_vendor_id dev bus slot func p of (v, p1) \<Rightarrow>
      if v = 0xFFFF then Ret p1 else X v p1) (if vendor cfg bus slot func = 0xFFFF then [] else t)"
  by (rule prints_read [where v = "vendor cfg bus slot func"])
    (use assms prints_Ret field_reads field_reads_con in auto)

lemma check_function_prints:
  assumes "config_space dev cfg"
  shows "prints (check_function dev bus slot func)
    (if vendor cfg bus slot func = 0xFFFF then [] else function_line cfg bus slot func)"
  unfolding check_function_def function_line_def
  by (rule prints_vendor [OF assms] prints_read [OF field_reads(2) field_reads_con(2), OF assms assms]
      prints_read [OF field_reads(3) field_reads_con(3), OF assms assms]
      prints_read [OF field_reads(4) field_reads_con(4), OF assms assms]
      prints_bind [OF prints_say] prints_bind [OF prints_dec] prints_bind [OF prints_hex] prints_say)+

lemma bit_128: "bit (0x80 :: u8) n \<longleftrightarrow> n = 7" "bit (0x80 :: u16) n \<longleftrightarrow> n = 7"
proof -
  have top: "(0x80 :: u8) = push_bit 7 1" "(0x80 :: u16) = push_bit 7 1" by simp_all
  show "bit (0x80 :: u8) n \<longleftrightarrow> n = 7" "bit (0x80 :: u16) n \<longleftrightarrow> n = 7"
    unfolding top bit_push_bit_iff bit_1_iff by auto
qed

lemma high_bit_set: "(ucast (take_bit 8 (x :: u16)) :: u8) AND 0x80 \<noteq> 0 \<longleftrightarrow> bit x 7"
proof -
  have "bit ((ucast (take_bit 8 x) :: u8) AND 0x80) n = (n = 7 \<and> bit x 7)" for n
    unfolding bit_and_iff bit_128 by (auto simp: bit_simps)
  then show ?thesis by (metis bit_0_eq bot_apply bot_bool_def bit_word_eqI)
qed

lemma check_device_prints:
  assumes cfg: "config_space dev cfg"
  shows "prints (check_device dev bus slot) (slot_report cfg bus slot)"
proof -
  let ?rest = "if multi_function cfg bus slot then
    concat (map (\<lambda>func. if vendor cfg bus slot (of_nat func) = 0xFFFF then [] else function_line cfg bus slot (of_nat func)) [1..<8])
    else []"
  have rest: "prints (\<lambda>p. if ucast (take_bit 8 (cfg_word cfg bus slot 0 12 True)) AND (0x80 :: u8) \<noteq> 0
      then ofold (\<lambda>func. check_function dev bus slot (of_nat func)) [1..<8] p else Ret p) ?rest"
    using prints_ofold [of "[1..<8]", OF check_function_prints [OF cfg]] prints_Ret
    by (simp add: high_bit_set multi_function_def)
  have "prints (check_device dev bus slot) (if vendor cfg bus slot 0 = 0xFFFF then []
      else (if vendor cfg bus slot 0 = 0xFFFF then [] else function_line cfg bus slot 0) @ ?rest)"
    unfolding check_device_def
    by (rule prints_vendor [OF cfg] prints_bind [OF check_function_prints [OF cfg]]
        prints_read [OF field_reads(5) field_reads_con(5), OF cfg cfg] rest)+
  moreover have "concat (map (\<lambda>func. if vendor cfg bus slot (of_nat func) = 0xFFFF then [] else function_line cfg bus slot (of_nat func)) xs)
      = concat (map (function_line cfg bus slot) (filter (\<lambda>func. vendor cfg bus slot func \<noteq> 0xFFFF) (map of_nat xs)))" for xs
    by (induction xs) auto
  ultimately show ?thesis
    by (simp add: slot_report_def slot_functions_def split: if_splits)
qed

text \<open>
  The bus scan reports exactly the functions that exist: for every bus and slot, function 0 if
  it answers and, on a multi-function device, those of functions 1 to 7 that answer, each with the
  vendor, device, class and subclass of its own configuration registers. The scan returns, and the
  screen is the one that printing this report leaves.
\<close>

theorem pci_scan_exact:
  assumes "config_space dev cfg" and "cursor_shown (con p)"
  shows "\<exists>p'. pci_init dev p = Ret p' \<and> print (lit ''[PCI] Enumerating PCI Bus...'' @ newline
      @ concat (map (\<lambda>bus. concat (map (\<lambda>slot. slot_report cfg (of_nat bus) (of_nat slot)) [0..<32])) [0..<256])
      @ lit ''[PCI] Enumeration complete.'' @ newline) (con p) = Ret (con p')"
proof -
  have "prints (pci_init dev) ((lit ''[PCI] Enumerating PCI Bus...'' @ newline)
      @ concat (map (\<lambda>bus. concat (map (\<lambda>slot. slot_report cfg (of_nat bus) (of_nat slot)) [0..<32])) [0..<256])
      @ lit ''[PCI] Enumeration complete.'' @ newline)"
    unfolding pci_init_def
    by (intro prints_bind prints_say prints_ofold check_device_prints [OF assms(1)])
  then show ?thesis using assms(2) unfolding prints_def by (simp only: append_assoc)
qed

definition pci_demo :: device where
  "pci_demo = quiet_device\<lparr>dev32 := \<lambda>log _. case last log of
     Out32 _ a \<Rightarrow> if a = pci_address 0 1 0 0 then 0x70108086 else if a = pci_address 0 1 0 8 then 0x01010000 else 0xFFFFFFFF
   | _ \<Rightarrow> 0xFFFFFFFF\<rparr>"

definition pci_demo_cfg :: "u32 \<Rightarrow> u32" where
  "pci_demo_cfg a = (if a = pci_address 0 1 0 0 then 0x70108086 else if a = pci_address 0 1 0 8 then 0x01010000 else 0xFFFFFFFF)"

theorem pci_scan_exact_witness:
  "config_space pci_demo pci_demo_cfg \<and> vendor pci_demo_cfg 0 1 0 = 0x8086
   \<and> (\<exists>p'. pci_init pci_demo platform_demo = Ret p' \<and> print (lit ''[PCI] Enumerating PCI Bus...'' @ newline
      @ concat (map (\<lambda>bus. concat (map (\<lambda>slot. slot_report pci_demo_cfg (of_nat bus) (of_nat slot)) [0..<32])) [0..<256])
      @ lit ''[PCI] Enumeration complete.'' @ newline) (con platform_demo) = Ret (con p'))"
proof (intro conjI)
  show cfg: "config_space pci_demo pci_demo_cfg"
    by (simp add: config_space_def pci_demo_def pci_demo_cfg_def)
  show "vendor pci_demo_cfg 0 1 0 = 0x8086"
    by (simp add: vendor_def cfg_word_def pci_demo_cfg_def)
  show "\<exists>p'. pci_init pci_demo platform_demo = Ret p' \<and> print (lit ''[PCI] Enumerating PCI Bus...'' @ newline
      @ concat (map (\<lambda>bus. concat (map (\<lambda>slot. slot_report pci_demo_cfg (of_nat bus) (of_nat slot)) [0..<32])) [0..<256])
      @ lit ''[PCI] Enumeration complete.'' @ newline) (con platform_demo) = Ret (con p')"
    using pci_scan_exact [OF cfg] platform_demo_shown by blast
qed

end
