(* ===== verification/Boot.thy ===== *)
theory Boot
  imports Shell Paging Kernel_Mem Ata_Port Pci
begin

text \<open>
  The kernel as a whole, from the boot code to the prompt: how the Zig start-up, the allocator, the
  page tables, the Rust core and the shell fit together.
\<close>

section \<open>Memory after start-up\<close>

lemma paging_init_disk: "paging_global_init m = Ret m1 \<Longrightarrow> disk m1 = disk m"
  by (auto simp: paging_global_init_def palloc_def zero_table_def set_entry_def Let_def split: prod.splits if_splits)

lemma paging_init_safety: "paging_global_init m = Ret m1 \<Longrightarrow> zig_safety m1 = zig_safety m"
  by (auto simp: paging_global_init_def palloc_def zero_table_def set_entry_def Let_def split: prod.splits if_splits)

lemma kernel_init_core:
  assumes "rust_kernel_init bf (kernel_new m) = Ret w"
  shows "hw w = m" "k_tokens w = [1 \<mapsto> 0]" "tok_store w = [root_token bf 1]"
proof -
  obtain mt where "w = (case mt of
      Inr ext2 \<Rightarrow> (booted bf (kernel_new m))\<lparr>k_vfs := (k_vfs (booted bf (kernel_new m)))\<lparr>ext2_vol := Some ext2\<rparr>\<rparr>
    | Inl e \<Rightarrow> (booted bf (kernel_new m))\<lparr>k_vfs := (k_vfs (booted bf (kernel_new m)))\<lparr>ext2_err := Some e\<rparr>\<rparr>)"
    using assms unfolding kernel_init_result by (auto simp: obind_eq_Ret)
  then show "hw w = m" "k_tokens w = [1 \<mapsto> 0]" "tok_store w = [root_token bf 1]"
    by (simp_all add: booted_def kernel_new_def split: sum.splits)
qed

lemma null_low_palloc: "null_low m \<Longrightarrow> palloc m n = (p, m1) \<Longrightarrow> null_low m1"
  by (auto simp: null_low_def palloc_def split: prod.splits option.splits)

lemma palloc_zero: "fst (palloc m n) \<noteq> 0 \<Longrightarrow> n \<noteq> 0"
  by (auto simp: palloc_def phys_alloc_def Let_def split: prod.splits if_splits)

lemma map_pages_null_low:
  assumes "null_low m" and "unat (take_bit 48 v) < 2 ^ 30" and "0 < n"
  shows "map_pages v p f n m = Panic"
proof -
  have "[0..<n] = 0 # [1..<n]" using assms(3) by (simp add: upt_conv_Cons)
  then show ?thesis using null_low_panics(1) [OF assms(1,2)] by (simp add: map_pages_def)
qed

text \<open>
  After the page tables are set up and the Rust core is initialized, an allocation for the root token
  chooses an area in the first GB, which is mapped with a huge page.
\<close>

lemma low_allocation_panics:
  assumes "pool_mapped m" and "2 \<le> card (single_pages m)" and "\<not> paging_initialized m" and "zig_safety m"
    and "paging_global_init m = Ret m0" and "rust_kernel_init bf (kernel_new m0) = Ret w"
    and "\<not> (wr \<and> ex)" and "fst (palloc m0 (pages_of sz)) \<noteq> 0"
  shows "rust_allocate_memory w 1 sz wr ex = Panic"
proof -
  note w = kernel_init_core [OF assms(6)]
  have low: "null_low m0" using null_low_boot [OF assms(1-4)] assms(5) by auto
  obtain p m1 where p: "palloc (hw w) (pages_of sz) = (p, m1)" "p \<noteq> 0"
    using assms(8) w(1) by (cases "palloc m0 (pages_of sz)") auto
  have "unat (0x21000000 + get_aslr_offset 1) < 2 ^ 30"
    using aslr_bound [of 1] by (simp add: unat_word_ariths)
  then have "unat (take_bit 48 (0x21000000 + get_aslr_offset 1)) < 2 ^ 30"
    unfolding unsigned_take_bit_eq by (rule le_less_trans [OF take_bit_nat_less_eq_self])
  moreover have "0 < unat (pages_of sz)" using palloc_zero [OF assms(8)] by (simp add: unat_gt_0)
  ultimately have "map_pages (0x21000000 + get_aslr_offset 1) p (alloc_flags wr ex) (unat (pages_of sz)) m1 = Panic"
    using map_pages_null_low null_low_palloc [OF low] p(1) w(1) by blast
  then show ?thesis
    using w(2,3) p assms(7) by (simp add: rust_allocate_memory_def root_token_def Let_def)
qed

lemma machine_boot_started:
  obtains m0 w where "paging_global_init machine_boot = Ret m0" "rust_kernel_init bitflags_model (kernel_new m0) = Ret w"
    "hw w = m0" "fst (palloc m0 1) \<noteq> 0" "zig_safety m0"
proof -
  obtain m0 r where m0: "paging_global_init machine_boot = Ret m0" "paging_ok m0" "900 \<le> card (single_pages m0)"
    using machine_boot_paged by blast
  have "disk m0 = (\<lambda>_. 0)" using paging_init_disk [OF m0(1)] by (simp add: machine_boot_def)
  then obtain w where w: "rust_kernel_init bitflags_model (kernel_new m0) = Ret w"
    unfolding kernel_init_result using mount_blank by (auto simp: kernel_new_def)
  have "pool_mapped m0" using m0(2) by (simp add: paging_ok_def)
  moreover have "single_pages m0 \<noteq> {}" using m0(3) by auto
  ultimately have "fst (palloc m0 1) \<noteq> 0"
    using palloc_single single_page by (metis fst_conv)
  moreover have "zig_safety m0"
    using paging_init_safety [OF m0(1)] by (simp add: machine_boot_def)
  ultimately show thesis using that m0(1) w kernel_init_core(1) [OF w] by blast
qed

section \<open>The status command\<close>

text \<open>
  The command \<open>status\<close> stops a freshly booted kernel: the allocator counts 32750 free pages of
  16384 after start-up, and the subtraction that gives the used pages fails its overflow check.
\<close>

theorem status_panics_after_boot:
  assumes "\<not> initialized ph" and "phys m = ppa_init ph" and "\<not> paging_initialized m"
    and "paging_global_init m = Ret (hw (sys_world s))" and "zig_safety (hw (sys_world s))"
  shows "free_pages (phys (hw (sys_world s))) = 32750 \<and> execute_line e (lit ''status'') s = Panic"
proof -
  let ?p0 = "ppa_init ph" and ?p1 = "snd (phys_alloc (ppa_init ph) 1)"
  have init: "initialized ?p0" using assms(1) by (simp add: ppa_init_def)
  note meta = ppa_init_meta [OF assms(1)]
  have 1: "free_pages ?p0 = free_pages ?p1 + 1" "initialized ?p1"
      "\<exists>i. page_meta ?p1 = (page_meta ?p0)(i := (page_meta ?p0 i)\<lparr>is_free := False\<rparr>)"
    using alloc_single_count [OF init] by (simp_all add: meta)
  then have "is_free (page_meta ?p1 1) \<and> order (page_meta ?p1 1) = 0 \<or> is_free (page_meta ?p1 2) \<and> order (page_meta ?p1 2) = 0"
    by (auto simp: meta)
  from alloc_single_count [OF 1(2) this] have "free_pages ?p1 = free_pages (phys (hw (sys_world s))) + 1"
    using phys_after_paging [OF assms(3,4)] assms(2) by simp
  with 1(1) have "free_pages (phys (hw (sys_world s))) = 32750" using free_pages_init [OF assms(1)] by simp
  with assms(5) show ?thesis using status_panics_if [of s e] by simp
qed

theorem status_panics_after_boot_witness:
  "\<exists>m0. paging_global_init machine_boot = Ret m0
    \<and> execute_line shell_env_demo (lit ''status'') (system_demo\<lparr>sys_world := kernel_new m0\<rparr>) = Panic"
proof -
  obtain m0 where m0: "paging_global_init machine_boot = Ret m0" "zig_safety m0"
    using machine_boot_started by blast
  have "\<not> initialized ppa_boot" by (simp add: ppa_boot_def)
  then show ?thesis
    using status_panics_after_boot [of ppa_boot machine_boot "system_demo\<lparr>sys_world := kernel_new m0\<rparr>" shell_env_demo]
      machine_boot_ok(2) m0 by (simp add: machine_boot_def kernel_new_def)
qed
section \<open>From the boot stub to the prompt\<close>

text \<open>The dash of the messages, in UTF-8.\<close>

abbreviation dash :: rstr where "dash \<equiv> [0xE2, 0x80, 0x94]"

text \<open>
  \<open>kernel_main\<close> in its steps (\<open>init/main.zig\<close>). Steps 1 to 3: the screen, the banner, the descriptor
  tables (whose contents are \<open>gdt_entries\<close> and \<open>idt_init\<close> of theory Interrupts) with their messages.
\<close>

definition gdt_announce :: "platform \<Rightarrow> platform outcome" where
  "gdt_announce = announce Green (lit ''[GDT] Loaded '' @ dash @ lit '' Kernel/User segments + 64-bit long mode active.'' @ newline)"

definition idt_announce :: "platform \<Rightarrow> platform outcome" where
  "idt_announce = announce Green (lit ''[IDT] Loaded '' @ dash @ lit '' exceptions, IRQs (0x20-0x2F), and int 0x80 active.'' @ newline)"

definition boot_banner :: "platform \<Rightarrow> platform outcome" where
  "boot_banner = announce Cyan
     (lit ''=================================================='' @ newline
      @ lit ''      Lofita Monolithic Kernel (x86_64)           '' @ newline
      @ lit ''      Bare-Metal Boot '' @ dash @ lit '' Phase 1                   '' @ newline
      @ lit ''=================================================='' @ newline)"

definition boot_tables_ready :: "platform \<Rightarrow> platform outcome" where
  "boot_tables_ready p =
     obind (boot_banner p) (\<lambda>p.
     obind (say (lit ''[init] Initializing GDT...'' @ newline) p) (\<lambda>p.
     obind (gdt_announce p) (\<lambda>p.
     obind (say (lit ''[init] Initializing IDT...'' @ newline) p) idt_announce)))"

text \<open>Steps 4 and 5: the page allocator and the page tables.\<close>

definition ppa_announce :: "u64 \<Rightarrow> platform \<Rightarrow> platform outcome" where
  "ppa_announce base p =
     obind (say (lit ''[PPA] Physical page allocator ready '' @ dash @ lit '' '') (paint Green Black p)) (\<lambda>p.
     obind (on_con (print_dec (of_nat (MEMORY_SIZE div (1024 * 1024)))) p) (\<lambda>p.
     obind (say (lit '' MB pool at 0x'') p) (\<lambda>p.
     obind (on_con (print_hex base) p) (\<lambda>p.
     obind (say newline p) (\<lambda>p. Ret (paint White Black p))))))"

definition boot_memory :: "platform \<times> machine \<Rightarrow> (platform \<times> machine) outcome" where
  "boot_memory = (\<lambda>(p, m).
     obind (say (lit ''[init] Initializing Physical Page Allocator...'' @ newline) p) (\<lambda>p.
     obind (if initialized (phys m) then Ret p else ppa_announce (pool_base (phys m)) p) (\<lambda>p.
     let m = m\<lparr>phys := ppa_init (phys m)\<rparr> in
     obind (say (lit ''[init] Initializing 4-level page tables...'' @ newline) p) (\<lambda>p.
     obind (paging_global_init m) (\<lambda>m1.
     obind (if paging_initialized m then Ret p
            else announce Green (lit ''[Paging] Kernel PML4 loaded into CR3 '' @ dash
                   @ lit '' identity-mapped first 2GB.'' @ newline) p) (\<lambda>p.
     Ret (p, m1)))))))"

text \<open>Steps 6 and 6.5: the disk and the PCI bus.\<close>

definition boot_devices :: "device \<Rightarrow> platform \<Rightarrow> platform outcome" where
  "boot_devices dev p =
     obind (say (lit ''[init] Initializing ATA Storage...'' @ newline) p) (\<lambda>p.
     obind (ata_init dev p) (\<lambda>p.
     pci_init dev p))"

text \<open>
  Step 7: the Rust core. What it logs on the screen and the port accesses of its disk reads are the
  arguments \<open>core_log\<close> and \<open>core_io\<close>; its effect on the kernel state is \<open>rust_kernel_init\<close>.
\<close>

definition boot_core :: "bitflags \<Rightarrow> rstr \<Rightarrow> io_event list \<Rightarrow> platform \<times> machine \<Rightarrow> (platform \<times> world) outcome" where
  "boot_core bf core_log core_io = (\<lambda>(p, m).
     obind (say (lit ''[init] Invoking Rust core subsystems...'' @ newline) p) (\<lambda>p.
     obind (rust_kernel_init bf (kernel_new m)) (\<lambda>w.
     obind (say core_log (p\<lparr>io_log := io_log p @ core_io\<rparr>)) (\<lambda>p.
     obind (announce LightGreen (newline @ lit ''[init] *** Lofita Kernel loaded successfully. ***'' @ newline) p) (\<lambda>p.
     Ret (p, w))))))"

text \<open>The last steps: the interrupt controller, the keyboard, and the shell up to its loop.\<close>

definition boot_input :: "device \<Rightarrow> keyboard \<times> platform \<Rightarrow> (keyboard \<times> platform) outcome" where
  "boot_input dev = (\<lambda>(kb, p).
     obind (say (lit ''[init] Initializing PIC...'' @ newline) p) (\<lambda>p.
     obind (pic_init dev p) (\<lambda>p.
     obind (say (lit ''[init] Initializing Keyboard...'' @ newline) p) (\<lambda>p.
     keyboard_init dev (kb, p)))))"

definition shell_start :: "system \<Rightarrow> system outcome" where
  "shell_start s =
     obind (on_plat (announce LightGreen
       (newline
        @ lit ''=================================================='' @ newline
        @ lit ''      Lofita Kernel - Interactive Terminal        '' @ newline
        @ lit ''      Type '' @ [39] @ lit ''help'' @ [39] @ lit '' for available commands          '' @ newline
        @ lit ''=================================================='' @ newline)) s) print_prompt"

definition kernel_main :: "bitflags \<Rightarrow> device \<Rightarrow> rstr \<Rightarrow> io_event list \<Rightarrow> platform \<Rightarrow> machine \<Rightarrow> keyboard \<Rightarrow> system outcome" where
  "kernel_main bf dev core_log core_io p m kb =
     obind (on_con console_init p) (\<lambda>p.
     obind (boot_tables_ready p) (\<lambda>p.
     obind (boot_memory (p, m)) (\<lambda>(p, m).
     obind (boot_devices dev p) (\<lambda>p.
     obind (boot_core bf core_log core_io (p, m)) (\<lambda>(p, w).
     obind (boot_input dev (kb, p)) (\<lambda>(kb, p).
     obind (say (lit ''[init] Enabling interrupts...'' @ newline) p) (\<lambda>p.
     obind (announce LightGreen (lit ''[init] Entering interactive shell. Type '' @ [39] @ lit ''help'' @ [39]
              @ lit '' for commands.'' @ newline) p) (\<lambda>p.
     shell_start \<lparr>sys_world = w, sys_kb = kb, sys_plat = p\<rparr>))))))))"

text \<open>What each step keeps and adds.\<close>

lemma boot_tables_screen: "screen_only boot_tables_ready"
  unfolding boot_tables_ready_def boot_banner_def gdt_announce_def idt_announce_def
  by (intro screen_only_bind screen_only_say screen_only_announce)

lemma ppa_announce_screen: "screen_only (ppa_announce base)"
  unfolding ppa_announce_def
  by (rule screen_only_painted [where act = "\<lambda>p. obind (say (lit ''[PPA] Physical page allocator ready '' @ dash @ lit '' '') p) _"])
    (intro screen_only_bind screen_only_say screen_only_dec screen_only_hex screen_only_paint)

lemma screen_only_run:
  assumes "screen_only act" and "cursor_shown (con p)"
  obtains p' where "act p = Ret p'" "io_log p' = io_log p" "cursor_shown (con p')"
  using assms unfolding screen_only_def by blast

lemma console_start:
  assumes "length (screen (con p)) = VGA_CELLS"
  obtains p' where "on_con console_init p = Ret p'" "io_log p' = io_log p" "cursor_shown (con p')"
proof -
  obtain c where "console_init (con p) = Ret c" "cursor_shown c"
    using clear_shown [of "(con p)\<lparr>default_attr := make_attr White Black\<rparr>"] assms by (auto simp: console_init_def)
  then show thesis by (intro that [of "p\<lparr>con := c\<rparr>"]) (simp_all add: on_con_def)
qed

lemma boot_memory_run:
  assumes "cursor_shown (con p)" and "\<not> paging_initialized m"
    and "pool_mapped (m\<lparr>phys := ppa_init (phys m)\<rparr>)" and "2 \<le> card (single_pages (m\<lparr>phys := ppa_init (phys m)\<rparr>))"
  obtains p' m' r where "boot_memory (p, m) = Ret (p', m')" "io_log p' = io_log p" "cursor_shown (con p')"
    "kernel_paging m' = Some r" "cr3 m' = r" "paging_ok m'" "disk m' = disk m" "\<forall>va. translate m' r va = identity_2g va"
    "paging_global_init (m\<lparr>phys := ppa_init (phys m)\<rparr>) = Ret m'"
proof -
  let ?m = "m\<lparr>phys := ppa_init (phys m)\<rparr>"
  have np: "\<not> paging_initialized ?m" using assms(2) by simp
  obtain m' r where m': "paging_global_init ?m = Ret m'" "kernel_paging m' = Some r" "cr3 m' = r" "paging_ok m'"
      "\<forall>va. translate m' r va = identity_2g va"
    using paging_init_exact [OF assms(3,4) np] by blast
  have "screen_only (\<lambda>p. if initialized (phys m) then Ret p else ppa_announce (pool_base (phys m)) p)"
    using ppa_announce_screen by (cases "initialized (phys m)") (simp_all add: screen_only_def)
  then have "screen_only (\<lambda>p.
      obind (say (lit ''[init] Initializing Physical Page Allocator...'' @ newline) p) (\<lambda>p.
      obind (if initialized (phys m) then Ret p else ppa_announce (pool_base (phys m)) p) (\<lambda>p.
      obind (say (lit ''[init] Initializing 4-level page tables...'' @ newline) p)
        (announce Green (lit ''[Paging] Kernel PML4 loaded into CR3 '' @ dash @ lit '' identity-mapped first 2GB.'' @ newline)))))"
    by (intro screen_only_bind screen_only_say screen_only_announce)
  from screen_only_run [OF this assms(1)] obtain p' where
    "obind (say (lit ''[init] Initializing Physical Page Allocator...'' @ newline) p) (\<lambda>p.
      obind (if initialized (phys m) then Ret p else ppa_announce (pool_base (phys m)) p) (\<lambda>p.
      obind (say (lit ''[init] Initializing 4-level page tables...'' @ newline) p)
        (announce Green (lit ''[Paging] Kernel PML4 loaded into CR3 '' @ dash @ lit '' identity-mapped first 2GB.'' @ newline)))) = Ret p'"
    "io_log p' = io_log p" "cursor_shown (con p')" by blast
  moreover from this(1) have "boot_memory (p, m) = Ret (p', m')"
    using m'(1) assms(2) unfolding boot_memory_def Let_def by (auto simp: obind_eq_Ret)
  moreover have "disk m' = disk m" using paging_init_disk [OF m'(1)] by simp
  ultimately show thesis using that m'(1-5) by blast
qed

lemma boot_devices_run:
  assumes "cursor_shown (con p)" and "ata_device dev d0" and "d_mode (drive_at d0 p) = Idle" and "config_space dev cfg"
  obtains p' where "boot_devices dev p = Ret p'" "cursor_shown (con p')"
proof -
  obtain p1 where p1: "say (lit ''[init] Initializing ATA Storage...'' @ newline) p = Ret p1" "io_log p1 = io_log p" "cursor_shown (con p1)"
    using say_returns [OF assms(1)] by blast
  then obtain p2 where p2: "ata_init dev p1 = announce LightBlue (lit ''[ATA] Primary Master Drive initialized.'' @ newline) p2" "con p2 = con p1"
    using ata_init_run [OF assms(2), of p1] assms(3) by auto
  obtain p3 where p3: "announce LightBlue (lit ''[ATA] Primary Master Drive initialized.'' @ newline) p2 = Ret p3" "cursor_shown (con p3)"
    using announce_returns [of p2] p1(3) p2(2) by metis
  obtain p4 where p4: "pci_init dev p3 = Ret p4" and scr: "print (lit ''[PCI] Enumerating PCI Bus...'' @ newline
      @ concat (map (\<lambda>bus. concat (map (\<lambda>slot. slot_report cfg (of_nat bus) (of_nat slot)) [0..<32])) [0..<256])
      @ lit ''[PCI] Enumeration complete.'' @ newline) (con p3) = Ret (con p4)"
    using pci_scan_exact [OF assms(4) p3(2)] by blast
  from print_shown [OF p3(2)] scr have "cursor_shown (con p4)" by (metis outcome.inject)
  with p1 p2 p3 p4 show thesis by (intro that [of p4]) (simp_all add: boot_devices_def)
qed

lemma boot_core_run:
  assumes "cursor_shown (con p)" and "machine_ok m" and "ext2_mount (lit ''/dev/hda'') driver_manager_new (disk m) = Ret mt"
  obtains p' w where "boot_core bf core_log core_io (p, m) = Ret (p', w)" "cursor_shown (con p')" "reachable bf w" "hw w = m"
    "rust_kernel_init bf (kernel_new m) = Ret w"
proof -
  obtain w where w: "rust_kernel_init bf (kernel_new m) = Ret w"
    unfolding kernel_init_result using assms(3) by (simp add: kernel_new_def)
  then have "reachable bf w" using assms(2) unfolding reachable_def kinit_def by blast
  moreover obtain p1 where p1: "say (lit ''[init] Invoking Rust core subsystems...'' @ newline) p = Ret p1" "cursor_shown (con p1)"
    using say_returns [OF assms(1)] by blast
  obtain p2 where p2: "say core_log (p1\<lparr>io_log := io_log p1 @ core_io\<rparr>) = Ret p2" "cursor_shown (con p2)"
    using say_returns [of "p1\<lparr>io_log := io_log p1 @ core_io\<rparr>" core_log] p1(2) by auto
  obtain p3 where "announce LightGreen (newline @ lit ''[init] *** Lofita Kernel loaded successfully. ***'' @ newline) p2 = Ret p3"
      "cursor_shown (con p3)"
    using announce_returns [OF p2(2)] by blast
  then have "boot_core bf core_log core_io (p, m) = Ret (p3, w)" using w p1 p2 by (simp add: boot_core_def)
  ultimately show thesis using that \<open>cursor_shown (con p3)\<close> kernel_init_core(1) [OF w] w by blast
qed

lemma boot_input_run:
  assumes "cursor_shown (con p)" and "accepts dev" and "answers dev" and "length (ring_buf kb) = RING_BUF_SIZE"
  obtains kb' p' where "boot_input dev (kb, p) = Ret (kb', p')" "cursor_shown (con p')" "ring_ok kb'" "keys kb' = []"
    "keyboard_only (io_log p') master slave"
proof -
  obtain p1 where p1: "say (lit ''[init] Initializing PIC...'' @ newline) p = Ret p1" "cursor_shown (con p1)"
    using say_returns [OF assms(1)] by blast
  obtain p2 m1 m2 where p2: "pic_init dev p1 = Ret p2" "io_log p2 = io_log p1 @ pic_init_log m1 m2" "cursor_shown (con p2)"
    using pic_init_run [OF p1(2)] by blast
  obtain p3 where p3: "say (lit ''[init] Initializing Keyboard...'' @ newline) p2 = Ret p3" "io_log p3 = io_log p1 @ pic_init_log m1 m2"
      "cursor_shown (con p3)"
    using say_returns [OF p2(3)] p2(2) by metis
  obtain kb' p4 where "keyboard_init dev (kb, p3) = Ret (kb', p4)" "cursor_shown (con p4)" "ring_ok kb'" "keys kb' = []"
      "keyboard_only (io_log p4) master slave"
    using keyboard_init_masks [OF assms(2,3) p3(3,2) assms(4)] by blast
  then show thesis using that p1(1) p2(1) p3(1) by (simp add: boot_input_def)
qed

lemma shell_start_run:
  assumes "cursor_shown (con (sys_plat s))"
  obtains p' where "shell_start s = Ret (s\<lparr>sys_plat := p'\<rparr>)" "io_log p' = io_log (sys_plat s)" "cursor_shown (con p')"
proof -
  obtain act where act: "screen_only act" "shell_start s = on_plat act s"
  proof -
    let ?b = "newline @ lit ''=================================================='' @ newline
        @ lit ''      Lofita Kernel - Interactive Terminal        '' @ newline
        @ lit ''      Type '' @ [39] @ lit ''help'' @ [39] @ lit '' for available commands          '' @ newline
        @ lit ''=================================================='' @ newline"
    have "screen_only (\<lambda>p. obind (announce LightGreen ?b p) (announce LightGreen (lit ''lorifa$ '')))"
      by (intro screen_only_bind screen_only_announce)
    moreover have "shell_start s = on_plat (\<lambda>p. obind (announce LightGreen ?b p) (announce LightGreen (lit ''lorifa$ ''))) s"
      by (simp add: shell_start_def print_prompt_def on_plat_def obind_assoc)
    ultimately show thesis using that by blast
  qed
  from screen_only_run [OF act(1) assms] obtain p' where "act (sys_plat s) = Ret p'" "io_log p' = io_log (sys_plat s)"
    "cursor_shown (con p')" by blast
  then show thesis using that act(2) by (simp add: on_plat_def)
qed

text \<open>
  The machine that the boot stub hands over: static data of the right size, devices that behave as
  documented with the drive idle, memory for the allocator's pool, paging not yet set up, and a disk on
  which the probe for a file system comes to an end.
\<close>

definition pc_ready :: "device \<Rightarrow> drive \<Rightarrow> (u32 \<Rightarrow> u32) \<Rightarrow> platform \<Rightarrow> machine \<Rightarrow> keyboard \<Rightarrow> bool" where
  "pc_ready dev d0 cfg p m kb \<longleftrightarrow>
     length (screen (con p)) = VGA_CELLS \<and> length (ring_buf kb) = RING_BUF_SIZE
     \<and> ata_device dev d0 \<and> d_mode (drive_at d0 p) = Idle \<and> config_space dev cfg \<and> accepts dev \<and> answers dev
     \<and> \<not> paging_initialized m \<and> pool_mapped (m\<lparr>phys := ppa_init (phys m)\<rparr>)
     \<and> 2 \<le> card (single_pages (m\<lparr>phys := ppa_init (phys m)\<rparr>))
     \<and> (\<exists>mt. ext2_mount (lit ''/dev/hda'') driver_manager_new (disk m) = Ret mt)"

lemma kernel_main_run:
  assumes "pc_ready dev d0 cfg p m kb"
  shows "\<exists>s r. kernel_main bf dev core_log core_io p m kb = Ret s \<and> reachable bf (sys_world s)
    \<and> kernel_paging (hw (sys_world s)) = Some r \<and> cr3 (hw (sys_world s)) = r
    \<and> (\<forall>va. translate (hw (sys_world s)) r va = identity_2g va)
    \<and> cursor_shown (con (sys_plat s)) \<and> ring_ok (sys_kb s) \<and> keys (sys_kb s) = []
    \<and> keyboard_only (io_log (sys_plat s)) master slave
    \<and> paging_global_init (m\<lparr>phys := ppa_init (phys m)\<rparr>) = Ret (hw (sys_world s))
    \<and> rust_kernel_init bf (kernel_new (hw (sys_world s))) = Ret (sys_world s)"
proof -
  have pc: "length (screen (con p)) = VGA_CELLS"
    "length (ring_buf kb) = RING_BUF_SIZE"
    "ata_device dev d0"
    "d_mode (drive_at d0 p) = Idle"
    "config_space dev cfg"
    "accepts dev"
    "answers dev"
    "\<not> paging_initialized m"
    "pool_mapped (m\<lparr>phys := ppa_init (phys m)\<rparr>)"
    "2 \<le> card (single_pages (m\<lparr>phys := ppa_init (phys m)\<rparr>))"
    using assms by (simp_all add: pc_ready_def)
  obtain mt where mt: "ext2_mount (lit ''/dev/hda'') driver_manager_new (disk m) = Ret mt"
    using assms unfolding pc_ready_def by blast
  obtain p1 where p1: "on_con console_init p = Ret p1" "io_log p1 = io_log p" "cursor_shown (con p1)"
    using console_start [OF pc(1)] .
  obtain p2 where p2: "boot_tables_ready p1 = Ret p2" "io_log p2 = io_log p1" "cursor_shown (con p2)"
    using screen_only_run [OF boot_tables_screen p1(3)] .
  obtain p3 m' r where p3: "boot_memory (p2, m) = Ret (p3, m')" "io_log p3 = io_log p2" "cursor_shown (con p3)"
      "kernel_paging m' = Some r" "cr3 m' = r" "paging_ok m'" "disk m' = disk m" "\<forall>va. translate m' r va = identity_2g va"
      "paging_global_init (m\<lparr>phys := ppa_init (phys m)\<rparr>) = Ret m'"
    using boot_memory_run [OF p2(3) pc(8-10)] .
  have idle: "d_mode (drive_at d0 p3) = Idle" using pc(4) p1(2) p2(2) p3(2) by simp
  obtain p4 where p4: "boot_devices dev p3 = Ret p4" "cursor_shown (con p4)"
    using boot_devices_run [OF p3(3) pc(3) idle pc(5)] .
  have "machine_ok m'" using p3(4,6) by (simp add: paging_ok_def machine_ok_def pool_mapped_def)
  then obtain p5 w where p5: "boot_core bf core_log core_io (p4, m') = Ret (p5, w)" "cursor_shown (con p5)" "reachable bf w" "hw w = m'"
      "rust_kernel_init bf (kernel_new m') = Ret w"
    using boot_core_run [OF p4(2), of m' mt bf core_log core_io] mt p3(7) by metis
  obtain kb' p6 where p6: "boot_input dev (kb, p5) = Ret (kb', p6)" "cursor_shown (con p6)" "ring_ok kb'" "keys kb' = []"
      "keyboard_only (io_log p6) master slave"
    using boot_input_run [OF p5(2) pc(6,7,2)] .
  let ?last = "\<lambda>p. obind (say (lit ''[init] Enabling interrupts...'' @ newline) p)
      (announce LightGreen (lit ''[init] Entering interactive shell. Type '' @ [39] @ lit ''help'' @ [39] @ lit '' for commands.'' @ newline))"
  have "screen_only ?last" by (intro screen_only_bind screen_only_say screen_only_announce)
  then obtain p7 where p7: "?last p6 = Ret p7" "io_log p7 = io_log p6" "cursor_shown (con p7)"
    using screen_only_run p6(2) by blast
  let ?s = "\<lparr>sys_world = w, sys_kb = kb', sys_plat = p7\<rparr>"
  have "cursor_shown (con (sys_plat ?s))" using p7(3) by simp
  then obtain p8 where p8: "shell_start ?s = Ret (?s\<lparr>sys_plat := p8\<rparr>)" "io_log p8 = io_log (sys_plat ?s)" "cursor_shown (con p8)"
    by (rule shell_start_run)
  have "kernel_main bf dev core_log core_io p m kb =
      obind (?last p6) (\<lambda>p. shell_start \<lparr>sys_world = w, sys_kb = kb', sys_plat = p\<rparr>)"
    unfolding kernel_main_def by (simp add: p1(1) p2(1) p3(1) p4(1) p5(1) p6(1) obind_assoc)
  also have "\<dots> = Ret (?s\<lparr>sys_plat := p8\<rparr>)" unfolding p7(1) using p8(1) by simp
  finally show ?thesis using p3(4,5,8,9) p5(3-5) p6(3-5) p7(2) p8(2,3)
    by (intro exI [of _ "?s\<lparr>sys_plat := p8\<rparr>"] exI [of _ r]) simp
qed


text \<open>A machine with all its devices, none of them slow.\<close>

definition pc_device :: device where
  "pc_device = \<lparr>dev8 = \<lambda>log q. if q = 0x60 then 0x1E else if q = 0x64 then 0x01 else dev8 disk_device log q,
     dev16 = dev16 disk_device, dev32 = dev32 pci_demo\<rparr>"

lemma pc_device_ok:
  "ata_device pc_device demo_disk" "config_space pc_device pci_demo_cfg" "accepts pc_device" "answers pc_device"
proof -
  have "ready_after pc_device STATUS_PORT (\<lambda>v. v AND STATUS_BSY = 0) 0 p" for p
    by (simp add: ready_after_def inb_def pc_device_def disk_device_def Let_def ata_status_bits)
  then have "\<exists>n. ready_after pc_device STATUS_PORT (\<lambda>v. v AND STATUS_BSY = 0) n p" for p by blast
  moreover have "dev8 pc_device log STATUS_PORT = dev8 disk_device log STATUS_PORT"
      "dev8 pc_device log LBA_MID_PORT = dev8 disk_device log LBA_MID_PORT"
      "dev8 pc_device log LBA_HI_PORT = dev8 disk_device log LBA_HI_PORT" "dev16 pc_device = dev16 disk_device" for log
    by (simp_all add: pc_device_def)
  ultimately show "ata_device pc_device demo_disk" using disk_device_ata unfolding ata_device_def by simp
  show "config_space pc_device pci_demo_cfg" by (simp add: config_space_def pc_device_def pci_demo_def pci_demo_cfg_def)
  have "ready_after pc_device 0x64 (\<lambda>v. v AND 0x02 = 0) 0 p" "ready_after pc_device 0x64 (\<lambda>v. v AND 0x01 \<noteq> 0) 0 p" for p
    by (simp_all add: ready_after_def inb_def pc_device_def Let_def)
  then show "accepts pc_device" "answers pc_device" unfolding accepts_def answers_def by blast+
qed

lemma pc_boot_ok:
  "length (screen (con platform_demo)) = VGA_CELLS" "length (ring_buf keyboard_demo) = RING_BUF_SIZE"
  "d_mode (drive_at demo_disk platform_demo) = Idle" "\<not> paging_initialized (machine_boot\<lparr>phys := ppa_boot\<rparr>)"
  "pool_mapped ((machine_boot\<lparr>phys := ppa_boot\<rparr>)\<lparr>phys := ppa_init (phys (machine_boot\<lparr>phys := ppa_boot\<rparr>))\<rparr>)"
  "2 \<le> card (single_pages ((machine_boot\<lparr>phys := ppa_boot\<rparr>)\<lparr>phys := ppa_init (phys (machine_boot\<lparr>phys := ppa_boot\<rparr>))\<rparr>))"
  "ext2_mount (lit ''/dev/hda'') driver_manager_new (disk (machine_boot\<lparr>phys := ppa_boot\<rparr>)) = Ret (Inl InvalidSignature)"
proof -
  have m: "(machine_boot\<lparr>phys := ppa_boot\<rparr>)\<lparr>phys := ppa_init (phys (machine_boot\<lparr>phys := ppa_boot\<rparr>))\<rparr> = machine_boot"
    by (simp add: machine_boot_def)
  show "pool_mapped ((machine_boot\<lparr>phys := ppa_boot\<rparr>)\<lparr>phys := ppa_init (phys (machine_boot\<lparr>phys := ppa_boot\<rparr>))\<rparr>)"
    "2 \<le> card (single_pages ((machine_boot\<lparr>phys := ppa_boot\<rparr>)\<lparr>phys := ppa_init (phys (machine_boot\<lparr>phys := ppa_boot\<rparr>))\<rparr>))"
    unfolding m using machine_boot_ok(1,3) by simp_all
  show "\<not> paging_initialized (machine_boot\<lparr>phys := ppa_boot\<rparr>)" using machine_boot_ok(2) by simp
  show "ext2_mount (lit ''/dev/hda'') driver_manager_new (disk (machine_boot\<lparr>phys := ppa_boot\<rparr>)) = Ret (Inl InvalidSignature)"
    using mount_blank by (simp add: machine_boot_def)
  show "length (ring_buf keyboard_demo) = RING_BUF_SIZE" by (simp add: keyboard_demo_def)
  show "d_mode (drive_at demo_disk platform_demo) = Idle" by (simp add: platform_demo_def drive_after_def demo_disk_def)
  show "length (screen (con platform_demo)) = VGA_CELLS" by (simp add: platform_demo_def console_demo_def)
qed

lemma pc_demo_ready: "pc_ready pc_device demo_disk pci_demo_cfg platform_demo (machine_boot\<lparr>phys := ppa_boot\<rparr>) keyboard_demo"
  unfolding pc_ready_def using pc_boot_ok pc_device_ok by blast


section \<open>The timer\<close>

text \<open>The keyboard interrupts that arrive while the shell waits.\<close>

definition key_interrupts :: "device \<Rightarrow> trap_frame \<Rightarrow> nat \<Rightarrow> system \<Rightarrow> system outcome" where
  "key_interrupts dev frame n = ofold (\<lambda>_ s. obind (handle_keyboard_irq dev frame s) (\<lambda>(_, s). Ret s)) [0..<n]"

lemma key_interrupts_run:
  "key_interrupts dev frame n s = obind (ofold (\<lambda>_. handle_keyboard_interrupt dev) [0..<n] (sys_kb s, sys_plat s))
     (\<lambda>(kb, p). Ret (s\<lparr>sys_kb := kb, sys_plat := p\<rparr>))"
proof -
  have "ofold (\<lambda>_ s. obind (handle_keyboard_irq dev frame s) (\<lambda>(_, s). Ret s)) xs s
      = obind (ofold (\<lambda>_. handle_keyboard_interrupt dev) xs (sys_kb s, sys_plat s)) (\<lambda>(kb, p). Ret (s\<lparr>sys_kb := kb, sys_plat := p\<rparr>))"
    for xs :: "nat list"
  proof (induction xs arbitrary: s)
    case (Cons x xs)
    then show ?case
      by (cases "handle_keyboard_interrupt dev (sys_kb s, sys_plat s)") (simp_all add: handle_keyboard_irq_def split: prod.splits)
  qed simp
  then show ?thesis by (simp add: key_interrupts_def)
qed

text \<open>
  C40. The timer never ticks: after \<open>kernel_main\<close>, and any number of keyboard interrupts, the interrupt
  controllers deliver line 1, the keyboard, and no other line, because the last thing the start-up
  does is to write the masks. Nothing else in the kernel writes them, so the timer interrupt on line 0,
  and with it \<open>rust_kernel_tick\<close>, which expires tokens and switches threads, never runs.
\<close>

theorem timer_stays_masked:
  assumes "pc_ready dev d0 cfg p m kb"
  shows "\<exists>s s'. kernel_main bf dev core_log core_io p m kb = Ret s \<and> key_interrupts dev frame n s = Ret s'
    \<and> (\<forall>i<8. delivers (pic_after 0x20 (io_log (sys_plat s')) master) i \<longleftrightarrow> i = 1)
    \<and> (\<forall>i<8. \<not> delivers (pic_after 0xA0 (io_log (sys_plat s')) slave) i)"
proof -
  have dev: "accepts dev" using assms by (simp add: pc_ready_def)
  obtain s where s: "kernel_main bf dev core_log core_io p m kb = Ret s" "cursor_shown (con (sys_plat s))" "ring_ok (sys_kb s)"
      "keyboard_only (io_log (sys_plat s)) master slave"
    using kernel_main_run [OF assms, of bf core_log core_io master slave] by blast
  obtain kb' p' where "ofold (\<lambda>_. handle_keyboard_interrupt dev) [0..<n] (sys_kb s, sys_plat s) = Ret (kb', p')"
      "keyboard_only (io_log p') master slave"
    using irqs_keyboard_only [OF dev s(3,2,4)] by blast
  then show ?thesis
    using s(1) by (intro exI [of _ s] exI [of _ "s\<lparr>sys_kb := kb', sys_plat := p'\<rparr>"])
      (simp add: key_interrupts_run keyboard_only_def)
qed

theorem timer_stays_masked_witness:
  "\<exists>s s'. kernel_main bitflags_model pc_device [] [] platform_demo (machine_boot\<lparr>phys := ppa_boot\<rparr>) keyboard_demo = Ret s
    \<and> key_interrupts pc_device (cpu_frame 0 cpu_demo) 3 s = Ret s' \<and> \<not> delivers (pic_after 0x20 (io_log (sys_plat s')) pic_demo) 0"
  using timer_stays_masked [OF pc_demo_ready, of bitflags_model "[]" "[]" "cpu_frame 0 cpu_demo" 3 pic_demo pic_demo] by fastforce

section \<open>The first allocation\<close>

text \<open>
  C39. In the build with runtime checks the first allocation of memory stops the kernel: after
  \<open>kernel_main\<close>, every call of \<open>rust_allocate_memory\<close> for the root token that gets as far as mapping its
  pages panics, because the area it chooses lies in the first GB, which the start-up maps with a huge
  page that \<open>ensure_table\<close> takes for a table at address 0.
\<close>

theorem first_allocation_panics:
  assumes "pc_ready dev d0 cfg p m kb" and "zig_safety m" and "\<not> (wr \<and> ex)"
  shows "\<exists>s. kernel_main bf dev core_log core_io p m kb = Ret s
    \<and> (fst (palloc (hw (sys_world s)) (pages_of sz)) \<noteq> 0 \<longrightarrow> rust_allocate_memory (sys_world s) 1 sz wr ex = Panic)"
proof -
  obtain s where s: "kernel_main bf dev core_log core_io p m kb = Ret s"
      "paging_global_init (m\<lparr>phys := ppa_init (phys m)\<rparr>) = Ret (hw (sys_world s))"
      "rust_kernel_init bf (kernel_new (hw (sys_world s))) = Ret (sys_world s)"
    using kernel_main_run [OF assms(1), of bf core_log core_io] by blast
  have "pool_mapped (m\<lparr>phys := ppa_init (phys m)\<rparr>)" "2 \<le> card (single_pages (m\<lparr>phys := ppa_init (phys m)\<rparr>))"
      "\<not> paging_initialized (m\<lparr>phys := ppa_init (phys m)\<rparr>)" "zig_safety (m\<lparr>phys := ppa_init (phys m)\<rparr>)"
    using assms(1,2) by (simp_all add: pc_ready_def)
  from low_allocation_panics [OF this s(2,3) assms(3)] show ?thesis using s(1) by blast
qed

theorem first_allocation_panics_witness:
  "\<exists>s. kernel_main bitflags_model pc_device [] [] platform_demo (machine_boot\<lparr>phys := ppa_boot\<rparr>) keyboard_demo = Ret s
    \<and> rust_allocate_memory (sys_world s) 1 4096 True False = Panic"
proof -
  let ?m = "machine_boot\<lparr>phys := ppa_boot\<rparr>"
  have size: "pages_of 4096 = 1" by (simp add: pages_of_def)
  have "zig_safety ?m" by (simp add: machine_boot_def)
  then obtain s where s: "kernel_main bitflags_model pc_device [] [] platform_demo ?m keyboard_demo = Ret s"
      "fst (palloc (hw (sys_world s)) (pages_of 4096)) \<noteq> 0 \<longrightarrow> rust_allocate_memory (sys_world s) 1 4096 True False = Panic"
    using first_allocation_panics [OF pc_demo_ready, of True False] by blast
  have "?m\<lparr>phys := ppa_init (phys ?m)\<rparr> = machine_boot" by (simp add: machine_boot_def)
  then have "paging_global_init machine_boot = Ret (hw (sys_world s))"
    using kernel_main_run [OF pc_demo_ready, of bitflags_model "[]" "[]"] s(1) by auto
  then have "fst (palloc (hw (sys_world s)) 1) \<noteq> 0"
    using machine_boot_started by (metis outcome.inject)
  with s size show ?thesis by auto
qed

end
