(* ===== verification/Spec2Isabelle.thy ===== *)
theory Spec2Isabelle
  imports Kernel_Io Compat Frontend Boot
begin

text \<open>
  A verification development for the Lofita kernel: a small capability kernel whose policy core
  is written in Rust (\<open>kernel/src\<close>), with a Linux compatibility layer (\<open>compat/linux/src\<close>), an
  SDK stub (\<open>sdk/src\<close>) and Zig code around it: the page allocator (\<open>mm/ppa.zig\<close>), page tables and
  interrupts (\<open>arch/x86_64\<close>), device drivers (\<open>drivers\<close>), the shell (\<open>kernel/shell.zig\<close>) and the start-up
  (\<open>init/main.zig\<close>).

  \<^bold>\<open>The program.\<close> The Zig side boots, sets up paging and calls \<open>rust_kernel_init\<close>. From then on
  the Rust core is entered through C exports: the timer interrupt calls \<open>rust_kernel_tick\<close>, the
  page-fault handler \<open>vasm_handle_page_fault\<close>, the system call gate \<open>rust_syscall_dispatch\<close>, the shell
  the listing and printing commands, and the compatibility layer the rest. All of them work on one
  \<open>KernelState\<close> behind a lock: tokens carry authority (privilege, capabilities, quota, lifetime,
  memory areas), sessions run on behalf of a token, threads belong to sessions, file descriptors
  are kept per session, and messages go through ports.

  \<^bold>\<open>How it is modelled.\<close> Rust code is deterministic state passing. A call yields an \<open>outcome\<close>
  (theory Prelude): \<open>Ret\<close>, \<open>Panic\<close> for a Rust panic (the kernel halts), \<open>Undef\<close> for undefined behaviour
  such as a slice over memory that was not allocated, and \<open>Hang\<close> for a loop that does not end.
  Machine integers are words and wrap as in the release build; comparisons of indices that the
  code makes on \<open>usize\<close> are made on the words. \<open>HashMap\<close> is a map, \<open>BTreeMap\<close> a sorted association
  list, \<open>Arc<Mutex<_>>\<close> an index into a store of tokens or threads, so that sharing is visible.
  Memory is a function from 64-bit addresses to bytes. Strings are their UTF-8 bytes (theory
  Rust_Str holds what the code uses of \<open>str\<close>). The iteration order of a hash map is an argument,
  and the theorems hold for every order. The methods that the bitflags crate generates for
  \<open>Capability\<close> are a parameter, the record \<open>bitflags\<close>; \<open>bitflags_spec\<close> states what is documented of them
  and \<open>bitflags_model\<close> shows it can hold.

  Zig code is modelled the same way. The field \<open>zig_safety\<close> of the machine says whether the build has
  Zig's runtime checks (the scripts make one that has): an overflow, a null or misaligned pointer or a
  cast that loses bits is then \<open>Panic\<close>. A device is a function of the history of port accesses
  (\<open>io_log\<close>) that yields the byte a read returns, so a theorem that holds for every device, or for every
  device with a stated documented behaviour, holds for every course of the hardware. Interrupts in the
  middle of a driver function are explicit arguments (what the handler did at each point).

  \<^bold>\<open>Theories and what they show.\<close>
  \<^item> Prelude, Rust_Str: outcomes, slices, words, little-endian codecs, memory, sorted maps, strings.
  \<^item> Compress (\<open>compress.rs\<close>): the run-length codec. The encoder is the greedy run-length encoding
    with runs up to 255, of minimal length; decoding inverts it and fails exactly on odd length.
  \<^item> Fifo: the locales of bounded queues that the message ports and the key ring interpret.
  \<^item> Ppa (\<open>mm/ppa.zig\<close>): the buddy allocator as an instance of the locale \<open>page_source\<close>. Successful
    allocations lie in the pool; freeing twice is harmless; after start-up regions can overlap.
  \<^item> Machine (\<open>paging.zig\<close>, \<open>ata.zig\<close>): page tables in memory and disk sectors, the services the
    Rust core calls; with paging up they return and keep \<open>machine_ok\<close>.
  \<^item> Page_Walk, Paging: the processor's page walk as the reference. Mapping and unmapping change the
    translation of exactly their page while the tables stay a tree of allocated pages; what the huge
    pages and the missing user bit of the start-up do to later mappings.
  \<^item> Console (\<open>vga.zig\<close>): the text screen. No sequence of calls leaves the buffer, numbers print right.
  \<^item> Ports (\<open>io.zig\<close>, \<open>pic.zig\<close>, \<open>serial.zig\<close>): port histories, polling, the interrupt controller against
    a model of the 8259A, the serial line.
  \<^item> Ata_Port (\<open>ata.zig\<close>): the disk driver word by word against a model of the drive: its transfers are
    those of theory Machine on every drive, however long it is busy; the probe; failures.
  \<^item> Pci (\<open>pci.zig\<close>): the bus scan reports exactly the functions of the configuration space.
  \<^item> Keyboard (\<open>keyboard.zig\<close>): the key ring as a queue under interrupts, the interrupt handler on every
    scancode, and the interrupt lines that its initialization leaves open.
  \<^item> Interrupts (\<open>gdt.zig\<close>, \<open>idt.zig\<close>): descriptors bit by bit, the entry stubs and trap frame over the
    stack, the handlers: system call convention, timer, page faults, exceptions.
  \<^item> Shell (\<open>shell.zig\<close>): the line editor refines a list editor, the tokenizer and every command.
  \<^item> Boot (\<open>init/main.zig\<close>): \<open>kernel_main\<close> as the composition of all these parts. It reaches the prompt in
    a reachable kernel state; what the start-up means for the timer and for the first allocation.
  \<^item> Sched (\<open>sched.rs\<close>): the thread queue, an instance of the locale \<open>round_robin\<close>. The loop refines
    the abstract rotation \<open>rr_next\<close> and serves every ready thread within one round.
  \<^item> Ipc (\<open>ipc.rs\<close>): ports as an instance of the locale \<open>bounded_fifo\<close>: order, no loss, capacity 1024.
  \<^item> Driver (\<open>driver.rs\<close>): the character devices; disk reads and writes are exact up to 255 sectors.
  \<^item> Token (\<open>capability.rs\<close>, \<open>token.rs\<close>, \<open>session.rs\<close>, part of \<open>vasm.rs\<close>): capabilities, quota, lazy
    areas and their search.
  \<^item> Ext2 (\<open>fs/ext2.rs\<close>): mounting, inodes, block trees, directories. Reading an inode refines the
    abstract block tree; raw reads stay in their buffers; a zero record length loops for ever.
  \<^item> Vfs (\<open>vfs.rs\<close>): descriptors, RAM files, the initramfs; isolation of sessions is proved once in
    the locale \<open>session_isolated\<close> and holds for every sequence of operations.
  \<^item> Elf (both \<open>elf_loader.rs\<close>): validation, exact copying, permissions, and that loading any bytes
    returns or panics without a stray write. \<open>loader_cfg\<close> holds the differences of the two files.
  \<^item> Kernel (\<open>lib.rs\<close> and the page-fault handler of \<open>vasm.rs\<close>): the record \<open>world\<close> and every export.
  \<^item> Kernel_Inv: the invariant \<open>world_wf\<close> and that every export keeps it.
  \<^item> Kernel_Steps: the step relation \<open>kstep\<close>, the locale \<open>invariant_system\<close>, reachable states, and that
    no step changes the identity of a token.
  \<^item> Kernel_Auth, Kernel_Mem, Kernel_Io: the properties of the whole kernel: authority and its
    inheritance, revocation by the timer, sessions, the layout of memory areas, page permissions,
    confinement of user buffers, start-up, system calls, processes, the directory listing.
  \<^item> Compat (\<open>compat/linux/src\<close>): the system call router. A routed call is at most one kernel step;
    it agrees with the kernel's own dispatcher; the heap break, fork and execve.
  \<^item> Frontend (\<open>web.rs\<close>, \<open>sdk/src/lib.rs\<close>): the stubs that print.

  \<^bold>\<open>Bounds and fuel.\<close> Loops are recursive functions with termination proofs; no fuel is used. The
  exceptions need not end: the directory search of Ext2, \<open>scan_dir\<close>, and the loops that poll a device,
  \<open>poll\<close>, are partial functions, and a missing result is the outcome \<open>Hang\<close>, as for a record length of 0
  or a device that is never ready. A \<open>Vec\<close> is shorter than \<open>2 ^ 63\<close>, as Rust guarantees. The
  three id counters of the kernel (tokens, sessions, descriptors) are assumed not to be at their
  last value in the steps that use them (\<open>counters_ok\<close>); reaching it takes more calls than a machine
  can make for the 64-bit counters, and \<open>2 ^ 32\<close> opens for descriptors.

  \<^bold>\<open>Not modelled.\<close> The assembly of the boot stub (\<open>boot/multiboot\<close>), the instructions that load the
  descriptor tables; the build scripts; log messages (\<open>kprint!\<close>) of the Rust core, except in the
  commands that exist to print; in \<open>kernel_main\<close> they and the port accesses of the core's disk reads are
  arguments; interrupts between \<open>sti\<close> and the prompt; the addresses of buffers on the Rust heap; the size of the 4 MB kernel heap and its allocator (a crate); the spin
  locks, and with them a deadlock by an interrupt or page fault inside a locked section; the
  translation lookaside buffer; whether an address that the kernel reads or writes is mapped.
\<close>

end
